(* ===== verification/Spray_Prelude.thy ===== *)
theory Spray_Prelude
  imports Main "HOL-Library.Word" "HOL-Library.Mapping"
begin

unbundle bit_operations_syntax

text \<open>
  Shared vocabulary of the SprayCC development: the ways a Rust computation can fail to
  return a value, checked arithmetic and indexing, durations and system times, the parts of
  Rust's string and path library the program uses, and the generic lemmas the component
  theories rely on.

  A Rust computation that may fail is a value of type \<open>'a outcome\<close>.  \<open>Inr v\<close> is a normal
  return; \<open>Inl (Panic s)\<close> is a panic (failed \<open>assert!\<close>, \<open>expect\<close>, \<open>unwrap\<close>, slice index out
  of bounds, arithmetic overflow); \<open>Inl (Err s)\<close> is an \<open>Err\<close> value that \<open>?\<close> propagates; and
  \<open>Inl NotDone\<close> says that the computation has not returned after the finitely many events of
  its environment that the model was given (an \<open>await\<close> with no event left, a loop that still
  wants another attempt).
\<close>

section \<open>Outcomes\<close>

datatype fault = Panic string | Err string | NotDone

type_synonym 'a outcome = "fault + 'a"

definition and_then :: "'a outcome \<Rightarrow> ('a \<Rightarrow> 'b outcome) \<Rightarrow> 'b outcome" where
  "and_then m f = (case m of Inl e \<Rightarrow> Inl e | Inr a \<Rightarrow> f a)"

text \<open>Running a fallible function over a list, stopping at the first failure.\<close>

fun map_outcome :: "('a \<Rightarrow> 'b outcome) \<Rightarrow> 'a list \<Rightarrow> 'b list outcome" where
  "map_outcome f [] = Inr []"
| "map_outcome f (x # xs) =
     and_then (f x) (\<lambda>y. and_then (map_outcome f xs) (\<lambda>ys. Inr (y # ys)))"

definition panics :: "'a outcome \<Rightarrow> bool" where
  "panics m = (case m of Inl (Panic _) \<Rightarrow> True | _ \<Rightarrow> False)"

definition returns :: "'a outcome \<Rightarrow> bool" where
  "returns m = (case m of Inr _ \<Rightarrow> True | _ \<Rightarrow> False)"

text \<open>
  \<open>safely P m\<close>: \<open>m\<close> does not panic, and what it returns, if it returns, satisfies \<open>P\<close>.
\<close>

definition safely :: "('a \<Rightarrow> bool) \<Rightarrow> 'a outcome \<Rightarrow> bool" where
  "safely P m = (case m of Inr a \<Rightarrow> P a | Inl (Panic _) \<Rightarrow> False | Inl _ \<Rightarrow> True)"

section \<open>Checked indexing and subtraction\<close>

definition index :: "'a list \<Rightarrow> nat \<Rightarrow> 'a outcome" where
  "index xs i = (if i < length xs then Inr (xs ! i) else Inl (Panic ''index out of bounds''))"

text \<open>
  \<open>usize\<close> subtraction: an underflow panics in a debug build.  A release build would wrap;
  the theorems that rule the panic out rule the wrap out as well.
\<close>

definition usub :: "nat \<Rightarrow> nat \<Rightarrow> nat outcome" where
  "usub a b = (if b \<le> a then Inr (a - b) else Inl (Panic ''attempt to subtract with overflow''))"

section \<open>Durations and system times\<close>

text \<open>
  A \<open>Duration\<close> is a number of nanoseconds, at most \<open>u64::MAX\<close> seconds and 999999999
  nanoseconds; \<open>+\<close> panics beyond that.  A \<open>SystemTime\<close> is a signed number of nanoseconds
  from the epoch.
\<close>

type_synonym duration = nat
type_synonym systime = int

definition nanos_per_sec :: nat where
  "nanos_per_sec = 1000000000"

definition dur_max :: duration where
  "dur_max = (2 ^ 64 - 1) * 1000000000 + 999999999"

definition from_secs :: "nat \<Rightarrow> duration" where
  "from_secs n = n * nanos_per_sec"

definition as_secs :: "duration \<Rightarrow> nat" where
  "as_secs d = d div nanos_per_sec"

definition dur_add :: "duration \<Rightarrow> duration \<Rightarrow> duration outcome" where
  "dur_add a b =
     (if a + b \<le> dur_max then Inr (a + b) else Inl (Panic ''overflow when adding durations''))"

text \<open>\<open>now.duration_since(earlier)\<close>: an error when \<open>earlier\<close> lies in the future.\<close>

definition duration_since :: "systime \<Rightarrow> systime \<Rightarrow> duration option" where
  "duration_since t earlier = (if earlier \<le> t then Some (nat (t - earlier)) else None)"

text \<open>The elapsed whole seconds, zero when the clock went backwards (\<open>unwrap_or(ZERO_DURATION)\<close>).\<close>

definition elapsed_secs :: "systime \<Rightarrow> systime \<Rightarrow> nat" where
  "elapsed_secs t earlier =
     as_secs (case duration_since t earlier of None \<Rightarrow> 0 | Some d \<Rightarrow> d)"

section \<open>Strings, numbers and paths\<close>

text \<open>
  Strings and paths are byte strings that are valid UTF-8, so \<open>to_string_lossy\<close> is the
  identity on them.
\<close>

fun join :: "string \<Rightarrow> string list \<Rightarrow> string" where
  "join sep [] = []"
| "join sep [x] = x"
| "join sep (x # y # xs) = x @ sep @ join sep (y # xs)"

definition digit_char :: "nat \<Rightarrow> char" where
  "digit_char d = (char_of (48 + d) :: char)"

fun show_nat :: "nat \<Rightarrow> string" where
  "show_nat n = (if n < 10 then [digit_char n] else show_nat (n div 10) @ [digit_char (n mod 10)])"

declare show_nat.simps [simp del]

definition digit_val :: "char \<Rightarrow> nat" where
  "digit_val c = of_char c - 48"

definition is_digit :: "char \<Rightarrow> bool" where
  "is_digit c \<longleftrightarrow> 48 \<le> (of_char c :: nat) \<and> (of_char c :: nat) \<le> 57"

text \<open>The value of a string of decimal digits, most significant first.\<close>

definition digits_val :: "string \<Rightarrow> nat" where
  "digits_val s = foldl (\<lambda>n c. 10 * n + digit_val c) 0 s"

definition path_join :: "string \<Rightarrow> string \<Rightarrow> string" where
  "path_join a b =
     (if b \<noteq> [] \<and> hd b = CHR ''/'' then b
      else if a = [] then b
      else if last a = CHR ''/'' then a @ b
      else a @ ''/'' @ b)"

text \<open>
  \<open>Path::file_name\<close>: the last component once empty and \<open>.\<close> components are dropped, unless
  there is none or it is \<open>..\<close>.
\<close>

fun split_slash :: "string \<Rightarrow> string \<Rightarrow> string list" where
  "split_slash cur [] = [rev cur]"
| "split_slash cur (c # cs) =
     (if c = CHR ''/'' then rev cur # split_slash [] cs else split_slash (c # cur) cs)"

definition path_parts :: "string \<Rightarrow> string list" where
  "path_parts p = filter (\<lambda>c. c \<noteq> [] \<and> c \<noteq> ''.'') (split_slash [] p)"

definition file_name :: "string \<Rightarrow> string option" where
  "file_name p =
     (let cs = path_parts p
      in if cs = [] \<or> last cs = ''..'' then None else Some (last cs))"

section \<open>Text files\<close>

text \<open>
  The part of the file system that holds the program's own text files: their contents and
  permission bits by path, the paths that exist but cannot be opened, and the bits that the
  process does not grant to new files.
\<close>

datatype io_error = NotFound | OtherIo string

type_synonym u32 = "32 word"

record text_fs =
  files :: "string \<rightharpoonup> string"
  denied :: "string \<Rightarrow> bool"
  modes :: "string \<Rightarrow> u32"
  umask :: u32

text \<open>Permission bits by their octal digits.\<close>

definition octal :: "nat \<Rightarrow> nat \<Rightarrow> nat \<Rightarrow> u32" where
  "octal u g others = word_of_nat (64 * u + 8 * g + others)"

definition read_file :: "text_fs \<Rightarrow> string \<Rightarrow> io_error + string" where
  "read_file fs p =
     (case files fs p of
        None \<Rightarrow> Inl NotFound
      | Some s \<Rightarrow> if denied fs p then Inl (OtherIo ''permission denied'') else Inr s)"

text \<open>
  Opening a file with \<open>create(true).write(true)\<close> and writing to it.  The file is not truncated,
  so the data replace a prefix of what was there; \<open>mode\<close> counts for a new file only.
\<close>

definition overwrite :: "string \<Rightarrow> string option \<Rightarrow> string" where
  "overwrite data old = data @ drop (length data) (case old of None \<Rightarrow> [] | Some s \<Rightarrow> s)"

definition write_file :: "u32 \<Rightarrow> string \<Rightarrow> string \<Rightarrow> text_fs \<Rightarrow> text_fs" where
  "write_file mode path data fs =
     fs\<lparr>files := (files fs)(path \<mapsto> overwrite data (files fs path)),
       modes := (if files fs path = None then (modes fs)(path := mode AND NOT (umask fs)) else modes fs)\<rparr>"

section \<open>Lemmas\<close>

lemma overwrite_fresh: "length (case old of None \<Rightarrow> [] | Some s \<Rightarrow> s) \<le> length data \<Longrightarrow> overwrite data old = data"
  by (simp add: overwrite_def)

lemma overwrite_None [simp]: "overwrite data None = data"
  by (simp add: overwrite_def)

lemma write_file_simps [simp]:
  "files (write_file m p data fs) = (files fs)(p \<mapsto> overwrite data (files fs p))"
  "denied (write_file m p data fs) = denied fs"
  by (simp_all add: write_file_def)

lemma new_file_mode: "files fs p = None \<Longrightarrow> modes (write_file m p data fs) p = m AND NOT (umask fs)"
  by (simp add: write_file_def)

named_theorems outcome_simps

lemma and_then_Inr [simp, outcome_simps]: "and_then (Inr a) f = f a"
  by (simp add: and_then_def)

lemma and_then_Inl [simp, outcome_simps]: "and_then (Inl e) f = Inl e"
  by (simp add: and_then_def)

lemma and_then_eq_Inr [outcome_simps]:
  "and_then m f = Inr b \<longleftrightarrow> (\<exists>a. m = Inr a \<and> f a = Inr b)"
  by (cases m) auto

lemma and_then_eq_Inl [outcome_simps]:
  "and_then m f = Inl e \<longleftrightarrow> m = Inl e \<or> (\<exists>a. m = Inr a \<and> f a = Inl e)"
  by (cases m) auto

lemma and_then_assoc: "and_then (and_then m f) g = and_then m (\<lambda>a. and_then (f a) g)"
  by (cases m) auto

lemma index_eq_Inr [simp]: "index xs i = Inr x \<longleftrightarrow> i < length xs \<and> x = xs ! i"
  by (auto simp: index_def)

lemma index_in [simp]: "i < length xs \<Longrightarrow> index xs i = Inr (xs ! i)"
  by (simp add: index_def)

lemma usub_eq_Inr [simp]: "usub a b = Inr c \<longleftrightarrow> b \<le> a \<and> c = a - b"
  by (auto simp: usub_def)

lemma usub_le [simp]: "b \<le> a \<Longrightarrow> usub a b = Inr (a - b)"
  by (simp add: usub_def)

lemma dur_add_eq_Inr [simp]: "dur_add a b = Inr c \<longleftrightarrow> a + b \<le> dur_max \<and> c = a + b"
  by (auto simp: dur_add_def)

lemma map_outcome_eq_Inr:
  "map_outcome f xs = Inr ys \<longleftrightarrow> list_all2 (\<lambda>x y. f x = Inr y) xs ys"
  by (induction xs arbitrary: ys) (auto simp: and_then_eq_Inr list_all2_Cons1)

lemma map_outcome_total:
  assumes "\<And>x. x \<in> set xs \<Longrightarrow> f x = Inr (g x)"
  shows "map_outcome f xs = Inr (map g xs)"
  using assms by (induction xs) auto

lemma panics_simps [simp]:
  "panics (Inr a) = False" "panics (Inl (Panic s)) = True"
  "panics (Inl (Err s)) = False" "panics (Inl NotDone) = False"
  by (simp_all add: panics_def)

lemma returns_simps [simp]:
  "returns (Inr a) = True" "returns (Inl e) = False"
  by (simp_all add: returns_def)

lemma panics_and_then:
  "panics (and_then m f) \<longleftrightarrow> panics m \<or> (\<exists>a. m = Inr a \<and> panics (f a))"
  by (cases m) (auto simp: panics_def split: fault.splits)

lemma as_secs_from_secs [simp]: "as_secs (from_secs n) = n"
  by (simp add: as_secs_def from_secs_def nanos_per_sec_def)

lemma elapsed_secs_refl [simp]: "elapsed_secs t t = 0"
  by (simp add: elapsed_secs_def duration_since_def as_secs_def)

lemma join_Cons: "join sep (x # xs) = (if xs = [] then x else x @ sep @ join sep xs)"
  by (cases xs) auto

lemma digit_char_digit [simp]:
  assumes "d < 10"
  shows "digit_val (digit_char d) = d" "is_digit (digit_char d)"
  using assms by (simp_all add: digit_val_def digit_char_def is_digit_def of_char_of)

lemma digits_val_snoc: "digits_val (s @ [c]) = 10 * digits_val s + digit_val c"
  by (simp add: digits_val_def)

lemma digits_val_show_nat [simp]: "digits_val (show_nat n) = n"
proof (induction n rule: show_nat.induct)
  case (1 n)
  then show ?case
    by (subst show_nat.simps) (auto simp: digits_val_snoc digits_val_def)
qed

lemma show_nat_inject [simp]: "show_nat m = show_nat n \<longleftrightarrow> m = n"
  using digits_val_show_nat by metis

lemma show_nat_digits: "list_all is_digit (show_nat n)"
proof (induction n rule: show_nat.induct)
  case (1 n)
  then show ?case by (subst show_nat.simps) auto
qed

lemma show_nat_nonempty [simp]: "show_nat n \<noteq> []"
  by (subst show_nat.simps) simp

lemma append_longer_prefix:
  assumes "b @ s = xs @ r" and "length xs \<le> length b"
  shows "\<exists>r'. b = xs @ r'"
  using assms by (metis append_eq_append_conv_if append_take_drop_id)

text \<open>A calculus for \<open>safely\<close>.\<close>

lemma safely_simps [simp]:
  "safely P (Inr a) = P a" "safely P (Inl (Panic s)) = False"
  "safely P (Inl (Err s)) = True" "safely P (Inl NotDone) = True"
  by (simp_all add: safely_def)

lemma safely_and_then [intro]:
  assumes "safely P m" and "\<And>a. m = Inr a \<Longrightarrow> P a \<Longrightarrow> safely R (f a)"
  shows "safely R (and_then m f)"
  using assms by (cases m) (auto simp: safely_def split: fault.splits)

lemma safely_mono: "safely P m \<Longrightarrow> (\<And>a. m = Inr a \<Longrightarrow> P a \<Longrightarrow> R a) \<Longrightarrow> safely R m"
  by (auto simp: safely_def split: sum.splits fault.splits)

lemma safely_returned: "safely P m \<Longrightarrow> m = Inr a \<Longrightarrow> P a"
  by simp

lemma safely_not_panics: "safely P m \<Longrightarrow> \<not> panics m"
  by (auto simp: safely_def panics_def split: sum.splits fault.splits)

text \<open>Counting the elements of a list after one of them changed.\<close>

lemma length_filter_update:
  assumes "i < length xs"
  shows "length (filter P (xs[i := x])) + (if P (xs ! i) then 1 else 0) =
     length (filter P xs) + (if P x then 1 else 0)"
  using assms
proof (induction xs arbitrary: i)
  case (Cons y ys)
  then show ?case by (cases i) auto
qed simp

section \<open>Simulations\<close>

text \<open>
  A step relation with an invariant, and what an abstraction of its states does meanwhile.
  Each concrete step corresponds to any number of abstract ones.
\<close>

locale simulation =
  fixes cstep :: "'c \<Rightarrow> 'c \<Rightarrow> bool" and cinv :: "'c \<Rightarrow> bool"
    and astep :: "'a \<Rightarrow> 'a \<Rightarrow> bool" and ainv :: "'a \<Rightarrow> bool" and abst :: "'c \<Rightarrow> 'a"
  assumes cinv_step: "cinv c \<Longrightarrow> cstep c c' \<Longrightarrow> cinv c'"
    and simulates: "cinv c \<Longrightarrow> cstep c c' \<Longrightarrow> astep\<^sup>*\<^sup>* (abst c) (abst c')"
    and ainv_step: "astep a a' \<Longrightarrow> ainv a \<Longrightarrow> ainv a'"
begin

lemma refines:
  assumes "cstep\<^sup>*\<^sup>* c c'" and "cinv c"
  shows "cinv c'" and "astep\<^sup>*\<^sup>* (abst c) (abst c')"
proof -
  have "cinv c' \<and> astep\<^sup>*\<^sup>* (abst c) (abst c')"
    using assms
  proof (induction rule: rtranclp_induct)
    case (step c' c'')
    then show ?case using cinv_step simulates rtranclp_trans [of astep] by blast
  qed simp
  then show "cinv c'" and "astep\<^sup>*\<^sup>* (abst c) (abst c')" by blast+
qed

lemma ainv_steps: "astep\<^sup>*\<^sup>* a a' \<Longrightarrow> ainv a \<Longrightarrow> ainv a'"
  by (induction rule: rtranclp_induct) (auto intro: ainv_step)

text \<open>What holds of the abstract system holds of the concrete one.\<close>

lemma transfers:
  assumes "cstep\<^sup>*\<^sup>* c c'" and "cinv c" and "ainv (abst c)"
  shows "ainv (abst c')"
  using ainv_steps [OF refines(2) [OF assms(1,2)] assms(3)] .

end

end
