(* ===== verification/Ipc.thy ===== *)
theory Ipc
  imports Spray_Prelude
begin

unbundle bit_operations_syntax

text \<open>
  The inter-process communication module (\<open>src/src/ipc.rs\<close>): the catalogue of messages, the
  task description and its target identifier, and the length-prefixed framing of messages on
  a byte stream.

  The codec (\<open>bincode\<close>) is not part of the repository, so its two functions are arguments of
  \<open>write_message\<close> and \<open>read_message\<close>; what the code relies on is the predicate
  \<open>codec_ok\<close>.  A TCP stream as its reader sees it is the list of the results its reads will
  return; the end of the list is the end of the stream.
\<close>

section \<open>Messages\<close>

type_synonym u8 = "8 word"
type_synonym u16 = "16 word"
type_synonym u64 = "64 word"

text \<open>\<open>CallMe\<close>; a socket address is kept in its textual form.\<close>

record call_me =
  addr :: string
  access_code :: u64

datatype output_type = Stdout | Stderr | File nat

record task_details =
  working_dir :: string
  td_cmd :: string
  td_args :: "string list"
  output_args :: "u16 list"
  td_env :: "(string, string) mapping"
  priority_task :: bool

text \<open>
  The messages, with the fields in the order of the source.  Exit codes are \<open>i32\<close> values, of
  which the program only looks at the sign and equality with zero.
\<close>

datatype message =
    YourObedientServant u64 u64
  | Task u64 u64 task_details
  | TaskOutput output_type "u8 list"
  | TaskFailed string
  | TaskDone "int option" string duration duration
  | CancelTask
  | PissOff
  | Dropped

section \<open>Formatting\<close>

text \<open>Well-formed UTF-8, as \<open>String::from_utf8\<close> and \<open>read_line\<close> check it.\<close>

definition is_cont :: "u8 \<Rightarrow> bool" where
  "is_cont b \<longleftrightarrow> 0x80 \<le> b \<and> b \<le> 0xBF"

text \<open>The second byte of a three-byte and of a four-byte sequence that starts with \<open>a\<close>.\<close>

definition second_of_three :: "u8 \<Rightarrow> u8 \<Rightarrow> bool" where
  "second_of_three a b \<longleftrightarrow>
     is_cont b \<and> 0xE0 \<le> a \<and> a \<le> 0xEF \<and> (a = 0xE0 \<longrightarrow> 0xA0 \<le> b) \<and> (a = 0xED \<longrightarrow> b \<le> 0x9F)"

definition second_of_four :: "u8 \<Rightarrow> u8 \<Rightarrow> bool" where
  "second_of_four a b \<longleftrightarrow>
     is_cont b \<and> 0xF0 \<le> a \<and> a \<le> 0xF4 \<and> (a = 0xF0 \<longrightarrow> 0x90 \<le> b) \<and> (a = 0xF4 \<longrightarrow> b \<le> 0x8F)"

fun is_utf8 :: "u8 list \<Rightarrow> bool" where
  "is_utf8 [] = True"
| "is_utf8 (a # bs) =
     (if a < 0x80 then is_utf8 bs
      else case bs of
        b # cs \<Rightarrow>
          (if 0xC2 \<le> a \<and> a \<le> 0xDF \<and> is_cont b then is_utf8 cs
           else case cs of
             c # ds \<Rightarrow>
               (if second_of_three a b \<and> is_cont c then is_utf8 ds
                else case ds of
                  d # es \<Rightarrow> second_of_four a b \<and> is_cont c \<and> is_cont d \<and> is_utf8 es
                | [] \<Rightarrow> False)
           | [] \<Rightarrow> False)
      | [] \<Rightarrow> False)"

definition show_int :: "int \<Rightarrow> string" where
  "show_int i = (if i < 0 then ''-'' @ show_nat (nat (- i)) else show_nat (nat i))"

text \<open>
  \<open>Debug for Message\<close>, which only appears in the texts of panics.  The derived formatting of
  \<open>TaskDetails\<close>, which lists a hash map in no particular order, and the decimal rendering of
  \<open>as_secs_f64\<close> are arguments.
\<close>

definition fmt_output_type :: "output_type \<Rightarrow> string" where
  "fmt_output_type ot =
     (case ot of Stdout \<Rightarrow> ''Stdout'' | Stderr \<Rightarrow> ''Stderr'' | File i \<Rightarrow> ''File('' @ show_nat i @ '')'')"

definition fmt_message ::
  "(task_details \<Rightarrow> string) \<Rightarrow> (duration \<Rightarrow> string) \<Rightarrow> message \<Rightarrow> string outcome" where
  "fmt_message fmt_details fmt_secs msg =
     (case msg of
        YourObedientServant code user \<Rightarrow>
          Inr (''YourObedientServant: '' @ show_nat (unat code) @ '' / '' @ show_nat (unat user))
      | Task code user details \<Rightarrow>
          Inr (''Task: code '' @ show_nat (unat code) @ '' / '' @ show_nat (unat user) @
            '', details: '' @ fmt_details details)
      | TaskOutput output_type content \<Rightarrow>
          (case output_type of
             Stderr \<Rightarrow>
               if is_utf8 content then
                 Inr (''TaskOutput '' @ fmt_output_type output_type @ '', length '' @ show_nat (length content) @
                   '': '' @ map (\<lambda>b. char_of (unat b)) content)
               else Inl (Panic ''called Result::unwrap() on an Err value'')
           | _ \<Rightarrow> Inr (''TaskOutput '' @ fmt_output_type output_type @ '', length '' @ show_nat (length content)))
      | TaskFailed error_message \<Rightarrow> Inr (''TaskDone, error: '' @ error_message)
      | TaskDone exit_code target_id run_time send_time \<Rightarrow>
          Inr (''TaskDone, '' @ target_id @ '': exit code '' @
            show_int (case exit_code of None \<Rightarrow> -1 | Some c \<Rightarrow> c) @ '', runtime '' @ fmt_secs run_time @ '', '' @
            fmt_secs send_time)
      | CancelTask \<Rightarrow> Inr ''CancelTask''
      | PissOff \<Rightarrow> Inr ''PissOff''
      | Dropped \<Rightarrow> Inr ''Dropped'')"

text \<open>Formatting fails on error output that is not text, and on nothing else.\<close>

lemma fmt_message_panics:
  "panics (fmt_message fd fs msg) \<longleftrightarrow> (\<exists>content. msg = TaskOutput Stderr content \<and> \<not> is_utf8 content)"
  "panics (fmt_message fd fs msg) \<or> returns (fmt_message fd fs msg)"
  by (auto simp: fmt_message_def split: message.splits output_type.splits)

text \<open>A failed task and one that was killed read alike.\<close>

lemma fmt_failed_as_done:
  "fmt_message fd fs (TaskFailed (t @ '': exit code -1, runtime '' @ fs r @ '', '' @ fs s)) =
     Inr (''TaskDone, error: '' @ t @ '': exit code -1, runtime '' @ fs r @ '', '' @ fs s)"
  "fmt_message fd fs (TaskDone None (''error: '' @ t) r s) =
     Inr (''TaskDone, error: '' @ t @ '': exit code -1, runtime '' @ fs r @ '', '' @ fs s)"
  by (simp_all add: fmt_message_def show_int_def show_nat.simps digit_char_def char_of_def bit_0)

section \<open>Target identifiers\<close>

text \<open>\<open>self.args[i as usize]\<close>\<close>

definition arg_at :: "task_details \<Rightarrow> u16 \<Rightarrow> string outcome" where
  "arg_at d i = index (td_args d) (unat i)"

definition get_target_id :: "task_details \<Rightarrow> string outcome" where
  "get_target_id d =
     (if output_args d = [] then
        Inr (foldl (\<lambda>s a. s @ '';'' @ a) (working_dir d) (td_args d))
      else if length (output_args d) = 1 then arg_at d (output_args d ! 0)
      else and_then (map_outcome (arg_at d) (output_args d)) (\<lambda>names. Inr (join '';'' names)))"

text \<open>
  What \<open>Hash for TaskDetails\<close> feeds to the hasher: the directory, the command and the
  arguments.
\<close>

definition hash_input :: "task_details \<Rightarrow> string \<times> string \<times> string list" where
  "hash_input d = (working_dir d, td_cmd d, td_args d)"

text \<open>A task whose output indices all name an argument.\<close>

definition wf_task :: "task_details \<Rightarrow> bool" where
  "wf_task d \<longleftrightarrow> list_all (\<lambda>i. unat i < length (td_args d)) (output_args d)"

section \<open>Framing\<close>

datatype read_res = Bytes "u8 list" | ReadErr string

record connection =
  conn_stream :: "read_res list"
  conn_buf :: "u8 list"

definition new_connection :: "read_res list \<Rightarrow> connection" where
  "new_connection st = \<lparr>conn_stream = st, conn_buf = []\<rparr>"

text \<open>\<open>stream.read_buf(&mut buf)\<close>: the number of bytes appended, zero at the end of the stream.\<close>

definition read_buf :: "connection \<Rightarrow> (nat \<times> connection) outcome" where
  "read_buf c =
     (case conn_stream c of
        [] \<Rightarrow> Inr (0, c)
      | Bytes bs # st \<Rightarrow> Inr (length bs, c\<lparr>conn_stream := st, conn_buf := conn_buf c @ bs\<rparr>)
      | ReadErr e # st \<Rightarrow> Inl (Err e))"

text \<open>Big-endian conversions: \<open>BigEndian::write_u32\<close>, and \<open>get_i32() as usize\<close> (sign-extended).\<close>

definition write_u32 :: "u32 \<Rightarrow> u8 list" where
  "write_u32 w = [ucast (drop_bit 24 w), ucast (drop_bit 16 w), ucast (drop_bit 8 w), ucast w]"

definition get_i32 :: "u8 list \<Rightarrow> u32" where
  "get_i32 bs =
     push_bit 24 (ucast (bs ! 0)) OR push_bit 16 (ucast (bs ! 1))
     OR push_bit 8 (ucast (bs ! 2)) OR ucast (bs ! 3)"

definition i32_as_usize :: "u32 \<Rightarrow> nat" where
  "i32_as_usize w = unat (scast w :: u64)"

text \<open>The first loop of \<open>read_message\<close>: wait for the four length bytes.\<close>

function read_header :: "connection \<Rightarrow> (bool \<times> connection) outcome" where
  "read_header c =
     (if length (conn_buf c) < 4 then
        (case read_buf c of
           Inl e \<Rightarrow> Inl e
         | Inr (n, c') \<Rightarrow>
             if n = 0 then
               (if conn_buf c' = [] then Inr (False, c')
                else Inl (Err ''Connection reset by peer with bytes buffered''))
             else read_header c')
      else Inr (True, c))"
  by pat_completeness auto
termination
  by (relation "measure (\<lambda>c. length (conn_stream c))")
    (auto simp: read_buf_def split: list.splits read_res.splits)

text \<open>The second loop: read until the buffer holds \<open>msg_size\<close> bytes or the stream ends.\<close>

function read_body :: "nat \<Rightarrow> connection \<Rightarrow> connection outcome" where
  "read_body msg_size c =
     (if length (conn_buf c) < msg_size then
        (case read_buf c of
           Inl e \<Rightarrow> Inl e
         | Inr (n, c') \<Rightarrow> if n > 0 then read_body msg_size c' else Inr c')
      else Inr c)"
  by pat_completeness auto
termination
  by (relation "measure (\<lambda>(n, c). length (conn_stream c))")
    (auto simp: read_buf_def split: list.splits read_res.splits)

declare read_header.simps [simp del] read_body.simps [simp del]

definition read_message ::
  "(u8 list \<Rightarrow> 'm option) \<Rightarrow> connection \<Rightarrow> ('m option \<times> connection) outcome" where
  "read_message deser c =
     (case read_header c of
        Inl e \<Rightarrow> Inl e
      | Inr (False, c1) \<Rightarrow> Inr (None, c1)
      | Inr (True, c1) \<Rightarrow>
          (let msg_size = i32_as_usize (get_i32 (take 4 (conn_buf c1)));
               c2 = c1\<lparr>conn_buf := drop 4 (conn_buf c1)\<rparr>
           in case read_body msg_size c2 of
                Inl e \<Rightarrow> Inl e
              | Inr c3 \<Rightarrow>
                  if msg_size \<le> length (conn_buf c3) then
                    (case deser (conn_buf c3) of
                       None \<Rightarrow> Inl (Panic ''Unable to decode message'')
                     | Some msg \<Rightarrow> Inr (Some msg, c3\<lparr>conn_buf := drop msg_size (conn_buf c3)\<rparr>))
                  else Inl (Err ''connection reset by peer'')))"

text \<open>
  The sending half of a stream: the bytes written so far, and the number of bytes it will
  still take before the peer resets the connection (\<open>None\<close>: it never does).
\<close>

record out_stream =
  written :: "u8 list"
  room :: "nat option"

definition write_all :: "out_stream \<Rightarrow> u8 list \<Rightarrow> out_stream outcome" where
  "write_all w bs =
     (case room w of
        None \<Rightarrow> Inr (w\<lparr>written := written w @ bs\<rparr>)
      | Some r \<Rightarrow>
          if length bs \<le> r then Inr (w\<lparr>written := written w @ bs, room := Some (r - length bs)\<rparr>)
          else Inl (Err ''broken pipe''))"

definition write_message ::
  "('m \<Rightarrow> u8 list option) \<Rightarrow> out_stream \<Rightarrow> 'm \<Rightarrow> out_stream outcome" where
  "write_message ser w msg =
     (case ser msg of
        None \<Rightarrow> Inl (Panic ''called Result::unwrap() on an Err value'')
      | Some data \<Rightarrow>
          let sz = write_u32 (word_of_nat (length data))
          in and_then (write_all w sz) (\<lambda>w'. write_all w' data))"

text \<open>
  What the program relies on of the codec: every message is encoded in fewer than \<open>2 ^ 31\<close>
  bytes, and decoding a buffer that starts with an encoded message gives that message back,
  whatever bytes follow it.
\<close>

definition codec_ok :: "('m \<Rightarrow> u8 list option) \<Rightarrow> (u8 list \<Rightarrow> 'm option) \<Rightarrow> 'm \<Rightarrow> bool" where
  "codec_ok ser deser msg \<longleftrightarrow>
     (\<exists>data. ser msg = Some data \<and> length data < 2 ^ 31 \<and> (\<forall>rest. deser (data @ rest) = Some msg))"

text \<open>Writing and reading several messages, one call after the other.\<close>

fun write_messages ::
  "('m \<Rightarrow> u8 list option) \<Rightarrow> out_stream \<Rightarrow> 'm list \<Rightarrow> out_stream outcome" where
  "write_messages ser w [] = Inr w"
| "write_messages ser w (m # ms) =
     and_then (write_message ser w m) (\<lambda>w'. write_messages ser w' ms)"

fun read_messages ::
  "(u8 list \<Rightarrow> 'm option) \<Rightarrow> nat \<Rightarrow> connection \<Rightarrow> ('m list \<times> connection) outcome" where
  "read_messages deser 0 c = Inr ([], c)"
| "read_messages deser (Suc n) c =
     (case read_message deser c of
        Inl e \<Rightarrow> Inl e
      | Inr (None, c') \<Rightarrow> Inr ([], c')
      | Inr (Some m, c') \<Rightarrow>
          and_then (read_messages deser n c') (\<lambda>(ms, c''). Inr (m # ms, c'')))"

text \<open>The bytes of a list of reads, and the reads that deliver data only.\<close>

fun chunk_bytes :: "read_res \<Rightarrow> u8 list" where
  "chunk_bytes (Bytes bs) = bs"
| "chunk_bytes (ReadErr e) = []"

fun data_chunk :: "read_res \<Rightarrow> bool" where
  "data_chunk (Bytes bs) = (bs \<noteq> [])"
| "data_chunk (ReadErr e) = False"

definition stream_bytes :: "read_res list \<Rightarrow> u8 list" where
  "stream_bytes st = concat (map chunk_bytes st)"

definition unread :: "connection \<Rightarrow> u8 list" where
  "unread c = conn_buf c @ stream_bytes (conn_stream c)"

text \<open>The bytes of one message on the wire.\<close>

definition frame :: "('m \<Rightarrow> u8 list option) \<Rightarrow> 'm \<Rightarrow> u8 list" where
  "frame ser m =
     (case ser m of None \<Rightarrow> [] | Some data \<Rightarrow> write_u32 (word_of_nat (length data)) @ data)"

text \<open>A codec for the messages without fields, numbered as in the source.\<close>

definition unit_ser :: "message \<Rightarrow> u8 list option" where
  "unit_ser m =
     (case m of CancelTask \<Rightarrow> Some [5, 0, 0, 0] | PissOff \<Rightarrow> Some [6, 0, 0, 0]
      | Dropped \<Rightarrow> Some [7, 0, 0, 0] | _ \<Rightarrow> None)"

definition unit_deser :: "u8 list \<Rightarrow> message option" where
  "unit_deser bs =
     (if length bs < 4 then None
      else if bs ! 0 = 5 then Some CancelTask
      else if bs ! 0 = 6 then Some PissOff
      else if bs ! 0 = 7 then Some Dropped else None)"

text \<open>
  The outputs of a task as pairs of destination and content, the messages that carry them,
  and the content sent for one destination, in order.
\<close>

definition out_msg :: "output_type \<times> u8 list \<Rightarrow> message" where
  "out_msg oc = TaskOutput (fst oc) (snd oc)"

definition chunks :: "output_type \<Rightarrow> (output_type \<times> u8 list) list \<Rightarrow> u8 list" where
  "chunks t outs = concat (map snd (filter (\<lambda>oc. fst oc = t) outs))"

lemma chunks_simps [simp]:
  "chunks t [] = []" "chunks t (outs @ outs') = chunks t outs @ chunks t outs'"
  "chunks t ((u, c) # outs) = (if u = t then c else []) @ chunks t outs"
  by (simp_all add: chunks_def)

lemma chunks_none: "t \<notin> fst ` set outs \<Longrightarrow> chunks t outs = []"
  by (force simp: chunks_def filter_empty_conv)

section \<open>Facts about the length prefix\<close>

lemma length_write_u32 [simp]: "length (write_u32 w) = 4"
  by (simp add: write_u32_def)

lemma get_i32_write_u32 [simp]: "get_i32 (write_u32 w @ rest) = w"
proof (rule bit_word_eqI)
  fix n assume n: "n < LENGTH(32)"
  then consider "n < 8" | "8 \<le> n" "n < 16" | "16 \<le> n" "n < 24" | "24 \<le> n" by linarith
  then show "bit (get_i32 (write_u32 w @ rest)) n = bit w n"
    using n
    by cases (auto simp: get_i32_def write_u32_def bit_simps nth_append dest: bit_imp_le_length)
qed

lemma get_i32_prefix: "4 \<le> length b \<Longrightarrow> get_i32 (take 4 b) = get_i32 (b @ s)"
  by (cases "b = []") (simp_all add: get_i32_def nth_append)

lemma i32_as_usize_alt: "i32_as_usize w = nat (sint w mod 2 ^ 64)"
proof -
  have "unat (scast w :: u64) = nat (uint (word_of_int (sint w) :: u64))"
    by (simp only: scast_eq unat_eq_nat_uint)
  also have "\<dots> = nat (sint w mod 2 ^ 64)"
    by (simp only: uint_word_of_int len_num0 len_num1 len_bit0 len_bit1) simp
  finally show ?thesis by (simp only: i32_as_usize_def)
qed

lemma i32_as_usize_small:
  assumes "n < 2 ^ 31"
  shows "i32_as_usize (word_of_nat n) = n"
proof -
  have "sint (word_of_nat n :: u32) = int n"
    using assms by (simp add: signed_of_nat signed_take_bit_int_eq_self)
  then show ?thesis
    using assms by (simp add: i32_as_usize_alt)
qed

lemma i32_as_usize_large:
  assumes "2 ^ 31 \<le> n" "n < 2 ^ 32"
  shows "i32_as_usize (word_of_nat n) = 2 ^ 64 - 2 ^ 32 + n"
proof -
  have "(int n + 2 ^ 31) mod 2 ^ 32 = int n + 2 ^ 31 - 2 ^ 32"
    using assms by (subst minus_mod_self2 [symmetric]) simp
  then have "sint (word_of_nat n :: u32) = int n - 2 ^ 32"
    using assms by (simp add: signed_of_nat signed_take_bit_eq_take_bit_shift take_bit_eq_mod)
  moreover have "(int n - 2 ^ 32) mod 2 ^ 64 = int n - 2 ^ 32 + 2 ^ 64"
    using assms by (subst mod_add_self2 [symmetric]) simp
  ultimately show ?thesis
    using assms by (simp add: i32_as_usize_alt nat_diff_distrib nat_add_distrib)
qed

section \<open>One read\<close>

lemma stream_bytes_simps [simp]:
  "stream_bytes [] = []" "stream_bytes (r # st) = chunk_bytes r @ stream_bytes st"
  by (simp_all add: stream_bytes_def)

lemma read_buf_unread: "read_buf c = Inr (n, c') \<Longrightarrow> unread c' = unread c"
  by (auto simp: read_buf_def unread_def split: list.splits read_res.splits)

lemma read_header_unread:
  "read_header c = Inr (b, c') \<Longrightarrow> unread c' = unread c \<and> (b \<longrightarrow> 4 \<le> length (conn_buf c'))"
proof (induction "length (conn_stream c)" arbitrary: c rule: less_induct)
  case less
  show ?case
  proof (cases "length (conn_buf c) < 4")
    case True
    with less.prems obtain n c1 where r: "read_buf c = Inr (n, c1)"
      by (subst (asm) read_header.simps) (auto split: sum.splits)
    note u = read_buf_unread [OF r]
    show ?thesis
    proof (cases "n = 0")
      case True
      then show ?thesis
        using less.prems r u \<open>length (conn_buf c) < 4\<close>
        by (subst (asm) read_header.simps) (auto split: if_splits)
    next
      case False
      then have "length (conn_stream c1) < length (conn_stream c)"
        using r by (auto simp: read_buf_def split: list.splits read_res.splits)
      moreover have "read_header c1 = Inr (b, c')"
        using less.prems r False \<open>length (conn_buf c) < 4\<close> by (subst (asm) read_header.simps) simp
      ultimately show ?thesis using less.hyps u by metis
    qed
  next
    case False
    then show ?thesis using less.prems by (subst (asm) read_header.simps) auto
  qed
qed

lemma read_body_unread: "read_body n c = Inr c' \<Longrightarrow> unread c' = unread c"
proof (induction "length (conn_stream c)" arbitrary: c rule: less_induct)
  case less
  show ?case
  proof (cases "length (conn_buf c) < n")
    case True
    with less.prems obtain k c1 where r: "read_buf c = Inr (k, c1)"
      by (subst (asm) read_body.simps) (auto split: sum.splits)
    note u = read_buf_unread [OF r]
    show ?thesis
    proof (cases "k = 0")
      case True
      then show ?thesis
        using less.prems r u \<open>length (conn_buf c) < n\<close> by (subst (asm) read_body.simps) simp
    next
      case False
      then have "length (conn_stream c1) < length (conn_stream c)"
        using r by (auto simp: read_buf_def split: list.splits read_res.splits)
      moreover have "read_body n c1 = Inr c'"
        using less.prems r False \<open>length (conn_buf c) < n\<close> by (subst (asm) read_body.simps) simp
      ultimately show ?thesis using less.hyps u by metis
    qed
  next
    case False
    then show ?thesis using less.prems by (subst (asm) read_body.simps) auto
  qed
qed

text \<open>Every message takes bytes from the stream, so loops that read messages end.\<close>

lemma read_message_consumes:
  assumes "read_message deser c = Inr (Some m, c')"
  shows "length (unread c') < length (unread c)"
proof -
  obtain c1 where h: "read_header c = Inr (True, c1)"
    using assms by (auto simp: read_message_def split: sum.splits bool.splits)
  note h1 = read_header_unread [OF h]
  let ?n = "i32_as_usize (get_i32 (take 4 (conn_buf c1)))"
  let ?c2 = "c1\<lparr>conn_buf := drop 4 (conn_buf c1)\<rparr>"
  obtain c3 where b: "read_body ?n ?c2 = Inr c3" and c': "c' = c3\<lparr>conn_buf := drop ?n (conn_buf c3)\<rparr>"
    using assms h by (auto simp: read_message_def Let_def split: sum.splits if_splits option.splits)
  have "length (unread ?c2) < length (unread c1)"
    using conjunct2 [OF h1] by (simp add: unread_def)
  moreover have "length (unread c') \<le> length (unread c3)" by (simp add: c' unread_def)
  ultimately show ?thesis using h1 read_body_unread [OF b] by simp
qed

text \<open>
  A read of a stream that only delivers data appends some bytes to the buffer; none is lost
  or reordered.
\<close>

lemma read_buf_data:
  assumes "list_all data_chunk (conn_stream c)"
  obtains (more) n c' where "read_buf c = Inr (n, c')" "n > 0" "unread c' = unread c"
      "list_all data_chunk (conn_stream c')"
  | (eof) "conn_stream c = []" "read_buf c = Inr (0, c)"
proof (cases "conn_stream c")
  case Nil
  then show ?thesis by (intro eof) (simp_all add: read_buf_def)
next
  case (Cons r st)
  with assms obtain bs where "r = Bytes bs" "bs \<noteq> []" by (cases r) auto
  with Cons assms show ?thesis by (intro more) (auto simp: read_buf_def unread_def)
qed

lemma read_header_data:
  assumes "list_all data_chunk (conn_stream c)"
  shows "if 4 \<le> length (unread c) then
       \<exists>c'. read_header c = Inr (True, c') \<and> 4 \<le> length (conn_buf c') \<and>
         unread c' = unread c \<and> list_all data_chunk (conn_stream c')
     else if unread c = [] then \<exists>c'. read_header c = Inr (False, c') \<and> unread c' = []
     else \<exists>e. read_header c = Inl (Err e)"
  using assms
proof (induction c rule: read_header.induct)
  case (1 c)
  show ?case
  proof (cases "length (conn_buf c) < 4")
    case False
    then show ?thesis using "1.prems" by (subst (1 2 3) read_header.simps) (simp add: unread_def)
  next
    case True
    from "1.prems" show ?thesis
    proof (cases rule: read_buf_data)
      case (more n c')
      then show ?thesis
        using True "1.IH" [OF True more(1) refl]
        by (subst (1 2 3) read_header.simps) (auto split: if_splits)
    next
      case eof
      then show ?thesis
        using True by (subst (1 2 3) read_header.simps) (simp add: unread_def)
    qed
  qed
qed

lemma read_body_data:
  assumes "list_all data_chunk (conn_stream c)"
  shows "\<exists>c'. read_body n c = Inr c' \<and> unread c' = unread c \<and>
     list_all data_chunk (conn_stream c') \<and> (n \<le> length (conn_buf c') \<or> conn_stream c' = [])"
  using assms
proof (induction n c rule: read_body.induct)
  case (1 n c)
  show ?case
  proof (cases "length (conn_buf c) < n")
    case False
    then show ?thesis using "1.prems" by (subst read_body.simps) simp
  next
    case True
    from "1.prems" show ?thesis
    proof (cases rule: read_buf_data)
      case (more k c')
      then show ?thesis
        using True "1.IH" [OF True more(1) refl] by (subst read_body.simps) simp
    next
      case eof
      then show ?thesis using True by (subst read_body.simps) simp
    qed
  qed
qed

text \<open>
  One message at the front of the unread bytes is returned whole, and exactly its bytes are
  consumed, however the stream is cut into reads.
\<close>

lemma read_message_frame:
  assumes data: "list_all data_chunk (conn_stream c)"
    and len: "length data < 2 ^ 31"
    and dec: "\<And>rest. deser (data @ rest) = Some msg"
    and un: "unread c = write_u32 (word_of_nat (length data)) @ data @ rest"
  shows "\<exists>c'. read_message deser c = Inr (Some msg, c') \<and> unread c' = rest \<and>
     list_all data_chunk (conn_stream c')"
proof -
  obtain c1 where h: "read_header c = Inr (True, c1)" "4 \<le> length (conn_buf c1)"
      "unread c1 = unread c" "list_all data_chunk (conn_stream c1)"
    using read_header_data [OF data] un by auto
  define c2 where "c2 = c1\<lparr>conn_buf := drop 4 (conn_buf c1)\<rparr>"
  have u2: "unread c2 = data @ rest"
  proof -
    have "unread c2 = drop 4 (unread c1)"
      using h(2) by (simp add: unread_def c2_def)
    then show ?thesis using h(3) un by simp
  qed
  have d2: "list_all data_chunk (conn_stream c2)"
    using h(4) by (simp add: c2_def)
  obtain c3 where b: "read_body (length data) c2 = Inr c3" "unread c3 = unread c2"
      "list_all data_chunk (conn_stream c3)" "length data \<le> length (conn_buf c3)"
    using read_body_data [OF d2, of "length data"] u2 by (fastforce simp: unread_def)
  obtain rest3 where r3: "conn_buf c3 = data @ rest3"
    using append_longer_prefix [of "conn_buf c3" _ data] b(2,4) u2 by (auto simp: unread_def)
  have sz: "i32_as_usize (get_i32 (take 4 (conn_buf c1))) = length data"
    using get_i32_prefix [OF h(2), of "stream_bytes (conn_stream c1)"] h(3) un len
    by (simp add: i32_as_usize_small flip: unread_def)
  show ?thesis
    using h(1) sz b r3 dec u2
    by (auto simp: read_message_def Let_def unread_def simp flip: c2_def)
qed

text \<open>Reading from an exhausted stream with nothing buffered is the normal end.\<close>

lemma read_message_end:
  assumes "list_all data_chunk (conn_stream c)" and "unread c = []"
  shows "\<exists>c'. read_message deser c = Inr (None, c')"
  using read_header_data [OF assms(1)] assms(2) by (auto simp: read_message_def)

text \<open>
  A stream that ends inside a message, be it in the length prefix or in the body, is an
  error.
\<close>

lemma read_message_short:
  assumes data: "list_all data_chunk (conn_stream c)" and ne: "unread c \<noteq> []"
    and short: "length (unread c) < 4 \<or>
      length (unread c) < 4 + i32_as_usize (get_i32 (unread c))"
  shows "\<exists>e. read_message deser c = Inl (Err e)"
proof (cases "length (unread c) < 4")
  case True
  then show ?thesis
    using read_header_data [OF data] ne by (auto simp: read_message_def)
next
  case False
  then obtain c1 where h: "read_header c = Inr (True, c1)" "4 \<le> length (conn_buf c1)"
      "unread c1 = unread c" "list_all data_chunk (conn_stream c1)"
    using read_header_data [OF data] by auto
  let ?n = "i32_as_usize (get_i32 (take 4 (conn_buf c1)))"
  define c2 where "c2 = c1\<lparr>conn_buf := drop 4 (conn_buf c1)\<rparr>"
  have d2: "list_all data_chunk (conn_stream c2)" using h(4) by (simp add: c2_def)
  obtain c3 where b: "read_body ?n c2 = Inr c3" "unread c3 = unread c2"
    using read_body_data [OF d2] by blast
  have "get_i32 (take 4 (conn_buf c1)) = get_i32 (unread c)"
    using get_i32_prefix [OF h(2), of "stream_bytes (conn_stream c1)"] h(3)
    by (simp flip: unread_def)
  then have "length (unread c2) < ?n"
    using short False h(2) arg_cong [OF h(3), of length] by (auto simp: c2_def unread_def)
  then have "length (conn_buf c3) < ?n"
    using arg_cong [OF b(2), of length] by (simp add: unread_def)
  then show ?thesis
    using h(1) b(1) by (auto simp: read_message_def Let_def simp flip: c2_def)
qed

lemma write_message_bytes:
  assumes "ser m = Some data" and "room w = None"
  shows "write_message ser w m =
     Inr (w\<lparr>written := written w @ write_u32 (word_of_nat (length data)) @ data\<rparr>)"
  using assms by (simp add: write_message_def write_all_def)

lemma write_message_appends: "write_message ser w m = Inr w' \<Longrightarrow> written w' = written w @ frame ser m"
  by (auto simp: write_message_def write_all_def frame_def and_then_eq_Inr Let_def split: option.splits if_splits)

lemma codec_okE:
  assumes "codec_ok ser deser m"
  obtains data where "ser m = Some data" "length data < 2 ^ 31"
    "\<And>rest. deser (data @ rest) = Some m"
  using assms by (auto simp: codec_ok_def)

lemma frame_Some: "ser m = Some data \<Longrightarrow> frame ser m = write_u32 (word_of_nat (length data)) @ data"
  by (simp add: frame_def)

lemma read_message_codec:
  assumes "codec_ok ser deser m" and "list_all data_chunk (conn_stream c)" and "unread c = frame ser m @ rest"
  shows "\<exists>c'. read_message deser c = Inr (Some m, c') \<and> unread c' = rest \<and> list_all data_chunk (conn_stream c')"
proof -
  obtain data where d: "ser m = Some data" "length data < 2 ^ 31" "\<And>rest. deser (data @ rest) = Some m"
    using assms(1) by (auto elim: codec_okE)
  then show ?thesis
    using assms(3)
    by (intro read_message_frame [where data = data and deser = deser and msg = m, OF assms(2) d(2,3)])
      (simp add: frame_Some)
qed

lemma write_messages_frames:
  assumes "\<forall>m \<in> set ms. \<exists>data. ser m = Some data" and "room w = None"
  shows "write_messages ser w ms =
     Inr (w\<lparr>written := written w @ concat (map (frame ser) ms)\<rparr>)"
  using assms
proof (induction ms arbitrary: w)
  case (Cons m ms)
  then obtain data where "ser m = Some data" by auto
  with Cons show ?case by (simp add: write_message_bytes frame_def)
qed simp

lemma read_messages_frames:
  assumes "\<forall>m \<in> set ms. codec_ok ser deser m"
    and "list_all data_chunk (conn_stream c)"
    and "unread c = concat (map (frame ser) ms) @ rest"
  shows "\<exists>c'. read_messages deser (length ms) c = Inr (ms, c') \<and> unread c' = rest \<and>
     list_all data_chunk (conn_stream c')"
  using assms
proof (induction ms arbitrary: c)
  case (Cons m ms)
  obtain c1 where c1: "read_message deser c = Inr (Some m, c1)"
      "unread c1 = concat (map (frame ser) ms) @ rest" "list_all data_chunk (conn_stream c1)"
    using read_message_codec [of ser deser m c] Cons.prems by auto
  then obtain c2 where "read_messages deser (length ms) c1 = Inr (ms, c2)" "unread c2 = rest"
      "list_all data_chunk (conn_stream c2)"
    using Cons.IH [of c1] Cons.prems(1) by auto
  with c1 show ?case by simp
qed simp

section \<open>Properties of the connection\<close>

text \<open>
  C18: Every sequence of messages written to a connection is read back unchanged and in order,
  followed by the normal end of stream, however the network cuts the bytes into reads.
\<close>

theorem framing_roundtrip:
  assumes "\<forall>m \<in> set ms. codec_ok ser deser m"
  shows "\<exists>w. write_messages ser \<lparr>written = [], room = None\<rparr> ms = Inr w \<and>
     (\<forall>st. list_all data_chunk st \<and> stream_bytes st = written w \<longrightarrow>
        (\<exists>c c'. read_messages deser (length ms) (new_connection st) = Inr (ms, c) \<and>
           read_message deser c = Inr (None, c')))"
proof -
  let ?w = "\<lparr>written = concat (map (frame ser) ms), room = None\<rparr>"
  have "write_messages ser \<lparr>written = [], room = None\<rparr> ms = Inr ?w"
    using assms by (subst write_messages_frames) (auto simp: codec_ok_def)
  moreover have "\<exists>c c'. read_messages deser (length ms) (new_connection st) = Inr (ms, c) \<and>
      read_message deser c = Inr (None, c')"
    if "list_all data_chunk st \<and> stream_bytes st = written ?w" for st
    using read_messages_frames [OF assms, of "new_connection st" "[]"] that
    by (fastforce simp: new_connection_def unread_def intro!: read_message_end)
  ultimately show ?thesis by blast
qed

lemma unit_codec_ok [simp]:
  "codec_ok unit_ser unit_deser CancelTask" "codec_ok unit_ser unit_deser PissOff"
  "codec_ok unit_ser unit_deser Dropped"
  by (simp_all add: codec_ok_def unit_ser_def unit_deser_def)

theorem framing_roundtrip_witness:
  "\<exists>c. read_messages unit_deser 2
       (new_connection [Bytes [0, 0], Bytes [0, 4, 6, 0, 0], Bytes [0, 0, 0, 0, 4, 5, 0, 0, 0]]) =
     Inr ([PissOff, CancelTask], c)"
proof -
  have h: "\<forall>m \<in> set [PissOff, CancelTask]. codec_ok unit_ser unit_deser m" by simp
  obtain w where w: "write_messages unit_ser \<lparr>written = [], room = None\<rparr> [PissOff, CancelTask] = Inr w"
    and rd: "\<forall>st. list_all data_chunk st \<and> stream_bytes st = written w \<longrightarrow>
        (\<exists>c c'. read_messages unit_deser (length [PissOff, CancelTask]) (new_connection st) =
           Inr ([PissOff, CancelTask], c) \<and> read_message unit_deser c = Inr (None, c'))"
    using framing_roundtrip [OF h] by blast
  have "written w = [0, 0, 0, 4, 6, 0, 0, 0, 0, 0, 0, 4, 5, 0, 0, 0]"
    using w by (auto simp: write_message_def write_all_def unit_ser_def write_u32_def)
  then show ?thesis
    using h rd [rule_format, of "[Bytes [0, 0], Bytes [0, 4, 6, 0, 0], Bytes [0, 0, 0, 0, 4, 5, 0, 0, 0]]"]
    by (auto simp: numeral_2_eq_2)
qed

text \<open>
  A connection that is reset in the middle of a message reports an error: neither a
  truncated message nor a panic results, and the end is not taken for a normal one.
\<close>

theorem truncated_message_is_error:
  assumes "list_all data_chunk st" and "codec_ok ser deser m"
    and "0 < k" and "k < length (frame ser m)" and "stream_bytes st = take k (frame ser m)"
  shows "\<exists>e. read_message deser (new_connection st) = Inl (Err e)"
proof (rule read_message_short)
  obtain data where d: "ser m = Some data" "length data < 2 ^ 31"
    using assms(2) by (auto elim: codec_okE)
  have u: "unread (new_connection st) = take k (frame ser m)"
    using assms(5) by (simp add: unread_def new_connection_def)
  then show "unread (new_connection st) \<noteq> []"
    using assms(3,4) by auto
  have "length (unread (new_connection st)) = k"
    using u assms(4) by simp
  moreover have "4 \<le> k \<Longrightarrow> i32_as_usize (get_i32 (unread (new_connection st))) = length data"
    using u d by (simp add: frame_Some i32_as_usize_small)
  ultimately show "length (unread (new_connection st)) < 4 \<or> length (unread (new_connection st)) <
      4 + i32_as_usize (get_i32 (unread (new_connection st)))"
    using assms(4) d(1) by (cases "k < 4") (simp_all add: frame_Some)
qed (use assms(1) in \<open>simp add: new_connection_def\<close>)

theorem truncated_message_is_error_witness:
  "\<exists>e. read_message unit_deser (new_connection [Bytes [0, 0, 0], Bytes [4, 6]]) = Inl (Err e)"
  by (rule truncated_message_is_error [where ser = unit_ser and m = PissOff and k = 5])
    (simp_all add: frame_def unit_ser_def write_u32_def)



section \<open>Properties of target identifiers\<close>

lemma foldl_join: "foldl (\<lambda>s a. s @ CHR '';'' # a) w xs = join '';'' (w # xs)"
proof (induction xs arbitrary: w)
  case (Cons x xs)
  show ?case by (subst foldl_Cons, subst Cons) (cases xs; simp)
qed simp

lemma arg_at_wf: "wf_task d \<Longrightarrow> i \<in> set (output_args d) \<Longrightarrow> arg_at d i = Inr (td_args d ! unat i)"
  by (auto simp: wf_task_def arg_at_def list_all_iff)

lemma get_target_id_wf:
  assumes "wf_task d"
  shows "get_target_id d = Inr (join '';'' (if output_args d = [] then working_dir d # td_args d
     else map (\<lambda>i. td_args d ! unat i) (output_args d)))"
proof -
  have "map_outcome (arg_at d) (output_args d) = Inr (map (\<lambda>i. td_args d ! unat i) (output_args d))"
    using assms by (intro map_outcome_total) (simp add: arg_at_wf)
  moreover have "length (output_args d) = 1 \<Longrightarrow> arg_at d (output_args d ! 0) =
      Inr (join '';'' (map (\<lambda>i. td_args d ! unat i) (output_args d)))"
    using arg_at_wf [OF assms] by (cases "output_args d") auto
  ultimately show ?thesis
    by (cases "output_args d = []"; cases "length (output_args d) = 1")
      (auto simp: get_target_id_def foldl_join)
qed

text \<open>
  The three branches of \<open>get_target_id\<close> compute one thing, the names of the outputs (or the
  directory and all arguments when there is none) joined by semicolons; it panics exactly
  when an output index lies outside the arguments.
\<close>

theorem target_id_spec:
  "get_target_id d =
     (if wf_task d then
        Inr (join '';'' (if output_args d = [] then working_dir d # td_args d
          else map (\<lambda>i. td_args d ! unat i) (output_args d)))
      else Inl (Panic ''index out of bounds''))"
proof (cases "wf_task d")
  case True
  then show ?thesis by (simp add: get_target_id_wf)
next
  case False
  have bad: "map_outcome (arg_at d) is = Inl (Panic ''index out of bounds'')"
    if "\<exists>i \<in> set is. length (td_args d) \<le> unat i" for "is"
    using that
  proof (induction "is")
    case (Cons a "is")
    then show ?case by (cases "unat a < length (td_args d)") (auto simp: arg_at_def index_def)
  qed simp
  from False have "\<exists>i \<in> set (output_args d). length (td_args d) \<le> unat i"
    by (auto simp: wf_task_def list_all_iff not_less)
  with bad [OF this] False show ?thesis
    by (cases "output_args d") (auto simp: get_target_id_def arg_at_def index_def)
qed

text \<open>
  Two builds of the same outputs share a target identifier whatever their directories,
  environments and other arguments are, so that timings carry over between workspaces.
\<close>

theorem target_id_ignores_workspace:
  assumes "wf_task d" and "wf_task d'" and "output_args d \<noteq> []" and "output_args d' \<noteq> []"
    and "map (\<lambda>i. td_args d ! unat i) (output_args d) =
      map (\<lambda>i. td_args d' ! unat i) (output_args d')"
  shows "get_target_id d = get_target_id d'"
  using assms by (simp add: get_target_id_wf)

theorem target_id_ignores_workspace_witness:
  "get_target_id \<lparr>working_dir = ''/a'', td_cmd = ''/usr/bin/g++'',
       td_args = [''g++'', ''-c'', ''-o'', ''foo.o''], output_args = [3],
       td_env = Mapping.empty, priority_task = False\<rparr> =
   get_target_id \<lparr>working_dir = ''/b'', td_cmd = ''/usr/bin/g++'',
       td_args = [''g++'', ''-O3'', ''-c'', ''-o'', ''foo.o''], output_args = [4],
       td_env = Mapping.empty, priority_task = True\<rparr>"
  by (rule target_id_ignores_workspace) (simp_all add: wf_task_def)

end
