(* ===== verification/Task_Queue.thy ===== *)
theory Task_Queue
  imports Spray_Prelude
begin

text \<open>
  The priority queue of the server (\<open>priority_queue::PriorityQueue\<close>) is a library type outside
  the repository.  The server's definitions take its operations as an argument, the record
  \<open>pqueue\<close>; the locale \<open>priority_queue\<close> states what the crate documents: \<open>push\<close> inserts an item
  or updates the priority of an equal one, and \<open>pop\<close> removes an item of greatest priority.
  Which of several such items is removed is left open.

  \<open>alist_queue\<close> is a queue with these operations on an association list; it discharges the
  laws and runs in the concrete executions of the development.
\<close>

record ('q, 'i, 'p) pqueue =
  pq_new :: 'q
  pq_push :: "'i \<Rightarrow> 'p \<Rightarrow> 'q \<Rightarrow> 'q"
  pq_pop :: "'q \<Rightarrow> (('i \<times> 'p) \<times> 'q) option"
  pq_len :: "'q \<Rightarrow> nat"
  pq_is_empty :: "'q \<Rightarrow> bool"

section \<open>A queue on an association list\<close>

fun al_push :: "'i \<Rightarrow> 'p \<Rightarrow> ('i \<times> 'p) list \<Rightarrow> ('i \<times> 'p) list" where
  "al_push i p [] = [(i, p)]"
| "al_push i p ((j, r) # q) = (if i = j then (j, p) # q else (j, r) # al_push i p q)"

text \<open>The first entry of greatest priority.\<close>

fun al_max :: "('i \<times> 'p::linorder) \<Rightarrow> ('i \<times> 'p) list \<Rightarrow> 'i \<times> 'p" where
  "al_max e [] = e"
| "al_max e (f # q) = (if snd e < snd f then al_max f q else al_max e q)"

fun al_pop :: "('i \<times> 'p::linorder) list \<Rightarrow> (('i \<times> 'p) \<times> ('i \<times> 'p) list) option" where
  "al_pop [] = None"
| "al_pop (e # q) = (let m = al_max e q in Some (m, filter (\<lambda>f. fst f \<noteq> fst m) (e # q)))"

definition alist_queue :: "(('i \<times> 'p::linorder) list, 'i, 'p) pqueue" where
  "alist_queue =
     \<lparr>pq_new = [], pq_push = al_push, pq_pop = al_pop, pq_len = length,
      pq_is_empty = (\<lambda>q. q = [])\<rparr>"

section \<open>What a priority queue promises\<close>

locale priority_queue =
  fixes Q :: "('q, 'i, 'p::linorder) pqueue"
    and items :: "'q \<Rightarrow> ('i \<rightharpoonup> 'p)"
    and q_ok :: "'q \<Rightarrow> bool"
  assumes ok_new: "q_ok (pq_new Q)"
    and items_new: "items (pq_new Q) = Map.empty"
    and ok_push: "q_ok q \<Longrightarrow> q_ok (pq_push Q i p q)"
    and items_push: "q_ok q \<Longrightarrow> items (pq_push Q i p q) = (items q)(i \<mapsto> p)"
    and pop_None: "q_ok q \<Longrightarrow> pq_pop Q q = None \<longleftrightarrow> items q = Map.empty"
    and pop_ok: "q_ok q \<Longrightarrow> pq_pop Q q = Some ((i, p), q') \<Longrightarrow> q_ok q'"
    and pop_in: "q_ok q \<Longrightarrow> pq_pop Q q = Some ((i, p), q') \<Longrightarrow> items q i = Some p"
    and pop_max: "q_ok q \<Longrightarrow> pq_pop Q q = Some ((i, p), q') \<Longrightarrow> items q j = Some r \<Longrightarrow> r \<le> p"
    and pop_items: "q_ok q \<Longrightarrow> pq_pop Q q = Some ((i, p), q') \<Longrightarrow> items q' = (items q)(i := None)"
    and finite_items: "q_ok q \<Longrightarrow> finite (dom (items q))"
    and len_items: "q_ok q \<Longrightarrow> pq_len Q q = card (dom (items q))"
    and is_empty_items: "q_ok q \<Longrightarrow> pq_is_empty Q q \<longleftrightarrow> items q = Map.empty"
begin

text \<open>Consequences for a client that counts and drains the queue.\<close>

lemma pop_nonempty:
  assumes "q_ok q" and "\<not> pq_is_empty Q q"
  obtains i p q' where "pq_pop Q q = Some ((i, p), q')"
  using assms pop_None [of q] is_empty_items [of q] by (cases "pq_pop Q q") auto

lemma dom_pop:
  assumes "q_ok q" and "pq_pop Q q = Some ((i, p), q')"
  shows "dom (items q') = dom (items q) - {i}" and "i \<in> dom (items q)"
  using pop_items [OF assms] pop_in [OF assms] by auto

lemma len_pop:
  assumes "q_ok q" and "pq_pop Q q = Some ((i, p), q')"
  shows "pq_len Q q = Suc (pq_len Q q')"
  using dom_pop [OF assms] pop_ok [OF assms] assms(1) finite_items len_items
  by (metis card_Suc_Diff1)

lemma len_push_new:
  assumes "q_ok q" and "i \<notin> dom (items q)"
  shows "pq_len Q (pq_push Q i p q) = Suc (pq_len Q q)"
  using assms finite_items by (simp add: len_items ok_push items_push)

lemma len_zero: "q_ok q \<Longrightarrow> pq_len Q q = 0 \<longleftrightarrow> pq_is_empty Q q"
  by (simp add: len_items is_empty_items finite_items)

end

section \<open>The association list keeps the promises\<close>

lemma map_of_al_push: "map_of (al_push i p q) = (map_of q)(i \<mapsto> p)"
  by (induction i p q rule: al_push.induct) auto

lemma fst_al_push: "set (map fst (al_push i p q)) = insert i (set (map fst q))"
  by (induction i p q rule: al_push.induct) auto

lemma distinct_al_push: "distinct (map fst q) \<Longrightarrow> distinct (map fst (al_push i p q))"
proof (induction i p q rule: al_push.induct)
  case (2 i p j r q)
  then show ?case using fst_al_push [of i p q] by auto
qed simp

lemma al_max_in: "al_max e q \<in> set (e # q)"
  by (induction e q rule: al_max.induct) auto

lemma al_max_ge: "f \<in> set (e # q) \<Longrightarrow> snd f \<le> snd (al_max e q)"
proof (induction e q arbitrary: f rule: al_max.induct)
  case (2 e g q)
  show ?case
  proof (cases "snd e < snd g")
    case True
    then show ?thesis
      using "2.IH"(1) [OF True, of g] "2.IH"(1) [OF True, of f] "2.prems" by auto
  next
    case False
    then show ?thesis
      using "2.IH"(2) [OF False, of e] "2.IH"(2) [OF False, of f] "2.prems" by auto
  qed
qed simp

lemma al_pop_Some:
  assumes "al_pop q = Some (m, q')"
  shows "m \<in> set q" and "\<forall>f \<in> set q. snd f \<le> snd m" and "q' = filter (\<lambda>f. fst f \<noteq> fst m) q"
  using assms al_max_in al_max_ge by (cases q; fastforce simp: Let_def)+

lemma map_of_filter_fst: "map_of (filter (\<lambda>f. fst f \<noteq> k) q) = (map_of q)(k := None)"
  by (induction q) (auto simp: fun_eq_iff)

lemmas alist_queue_simps = alist_queue_def map_of_al_push distinct_al_push

interpretation alq: priority_queue alist_queue map_of "\<lambda>q. distinct (map fst q)"
proof (unfold_locales, goal_cases)
  case (5 q)
  then show ?case by (cases q) (auto simp: alist_queue_def Let_def fun_eq_iff)
next
  case (6 q i p q')
  then show ?case by (auto simp: alist_queue_def distinct_map_filter dest: al_pop_Some(3))
next
  case (7 q i p q')
  then show ?case by (auto simp: alist_queue_def map_of_eq_Some_iff dest: al_pop_Some(1))
next
  case (8 q i p q' j r)
  then show ?case by (auto simp: alist_queue_def dest!: al_pop_Some(2) map_of_SomeD)
next
  case (9 q i p q')
  then show ?case by (auto simp: alist_queue_def map_of_filter_fst dest: al_pop_Some(3))
next
  case (11 q)
  then show ?case by (simp add: alist_queue_def dom_map_of_conv_image_fst distinct_card flip: set_map)
next
  case (12 q)
  then show ?case by (cases q) (auto simp: alist_queue_def fun_eq_iff)
qed (simp_all add: alist_queue_simps finite_dom_map_of)

end
