(* ===== verification/History.thy ===== *)
theory History
  imports Spray_Prelude
begin

text \<open>
  The record of elapsed times (\<open>src/src/history.rs\<close>): the map from targets to the last elapsed
  time and the moment it was recorded, and the file that carries it from one server to the
  next.

  \<open>serde_json\<close> is an argument of the functions that use it (\<open>from_str\<close>, \<open>to_vec\<close>);
  \<open>json_ok\<close> states what is relied on.  The temporary file of \<open>write_history_file_internal\<close> is
  represented by the results of the three operations on it; the final rename is atomic.
\<close>

record history =
  hist_version :: nat
  hist_map :: "(string, duration \<times> systime) mapping"

definition history_is_empty :: "history \<Rightarrow> bool" where
  "history_is_empty h = Mapping.is_empty (hist_map h)"

definition history_get :: "history \<Rightarrow> string \<Rightarrow> duration option" where
  "history_get h target = map_option fst (Mapping.lookup (hist_map h) target)"

text \<open>The last argument is the time \<open>SystemTime::now()\<close> returns.\<close>

definition history_update :: "history \<Rightarrow> string \<Rightarrow> duration \<Rightarrow> systime \<Rightarrow> history" where
  "history_update h target elapsed now =
     h\<lparr>hist_map := Mapping.update target (elapsed, now) (hist_map h)\<rparr>"

text \<open>\<open>HashMap::extend\<close>: the entries of the argument replace those of the receiver.\<close>

definition history_merge :: "history \<Rightarrow> history \<Rightarrow> history" where
  "history_merge h incoming =
     h\<lparr>hist_map := Mapping.combine (\<lambda>_ new. new) (hist_map h) (hist_map incoming)\<rparr>"

definition history_default :: history where
  "history_default = \<lparr>hist_version = 1, hist_map = Mapping.empty\<rparr>"

definition path_to_history :: "string \<Rightarrow> string" where
  "path_to_history home = path_join home ''.spraycc.history''"

definition read_history_file ::
  "(string \<Rightarrow> history option) \<Rightarrow> text_fs \<Rightarrow> string \<Rightarrow> io_error + history" where
  "read_history_file from_str fs path =
     (case read_file fs path of
        Inl e \<Rightarrow> Inl e
      | Inr s \<Rightarrow>
          (case from_str s of
             None \<Rightarrow> Inl (OtherIo ''invalid history'')
           | Some h \<Rightarrow> Inr h))"

text \<open>The result and whether a warning was printed: a missing file is no reason for one.\<close>

definition load_history_internal ::
  "(string \<Rightarrow> history option) \<Rightarrow> text_fs \<Rightarrow> string \<Rightarrow> (io_error + history) \<times> bool" where
  "load_history_internal from_str fs path =
     (case read_history_file from_str fs path of
        Inr h \<Rightarrow> (Inr h, False)
      | Inl NotFound \<Rightarrow> (Inl NotFound, False)
      | Inl (OtherIo e) \<Rightarrow> (Inl (OtherIo e), True))"

definition load_current_history ::
  "(string \<Rightarrow> history option) \<Rightarrow> string option \<Rightarrow> text_fs \<Rightarrow> history" where
  "load_current_history from_str home_dir fs =
     (case home_dir of
        None \<Rightarrow> history_default
      | Some home \<Rightarrow>
          (case fst (load_history_internal from_str fs (path_to_history home)) of
             Inr h \<Rightarrow> h
           | Inl _ \<Rightarrow> history_default))"

text \<open>Whether creating, writing and renaming the temporary file succeed, and its permission bits.\<close>

record temp_file =
  tmp_new :: bool
  tmp_write :: bool
  tmp_persist :: bool
  tmp_mode :: u32

definition cutoff_time :: "systime \<Rightarrow> systime" where
  "cutoff_time now = now - int (from_secs (3600 * 24 * 366 div 2))"

text \<open>The old history with the new entries merged in, less the entries that are too old.\<close>

definition total_history :: "systime \<Rightarrow> history \<Rightarrow> history \<Rightarrow> history" where
  "total_history now old h =
     (let merged = history_merge old h; cutoff = cutoff_time now
      in merged\<lparr>hist_map := Mapping.filter (\<lambda>_ entry. cutoff < snd entry) (hist_map merged)\<rparr>)"

definition write_history_file_internal ::
  "(string \<Rightarrow> history option) \<Rightarrow> (history \<Rightarrow> string option) \<Rightarrow> temp_file \<Rightarrow> systime \<Rightarrow>
     history \<Rightarrow> string \<Rightarrow> text_fs \<Rightarrow> (io_error + unit) \<times> text_fs" where
  "write_history_file_internal from_str to_vec tmp now h home fs =
     (if \<not> tmp_new tmp then (Inl (OtherIo ''temporary file''), fs)
      else
        let old = (case fst (load_history_internal from_str fs (path_to_history home)) of
                     Inr old \<Rightarrow> old | Inl _ \<Rightarrow> history_default);
            total = total_history now old h
        in case to_vec total of
             None \<Rightarrow> (Inr (), fs)
           | Some data \<Rightarrow>
               if \<not> tmp_write tmp then (Inl (OtherIo ''write''), fs)
               else if \<not> tmp_persist tmp then (Inl (OtherIo ''persist''), fs)
               else (Inr (), fs\<lparr>files := (files fs)(path_to_history home \<mapsto> data),
                        modes := (modes fs)(path_to_history home := tmp_mode tmp)\<rparr>))"

definition write_history_file ::
  "(string \<Rightarrow> history option) \<Rightarrow> (history \<Rightarrow> string option) \<Rightarrow> temp_file \<Rightarrow> systime \<Rightarrow>
     history \<Rightarrow> string option \<Rightarrow> text_fs \<Rightarrow> (io_error + unit) \<times> text_fs" where
  "write_history_file from_str to_vec tmp now h home_dir fs =
     (case home_dir of
        None \<Rightarrow> (Inr (), fs)
      | Some home \<Rightarrow> write_history_file_internal from_str to_vec tmp now h home fs)"

text \<open>What is relied on of the JSON library for a history: it is serialized and read back unchanged.\<close>

definition json_ok :: "(string \<Rightarrow> history option) \<Rightarrow> (history \<Rightarrow> string option) \<Rightarrow> history \<Rightarrow> bool" where
  "json_ok from_str to_vec h \<longleftrightarrow> (\<exists>s. to_vec h = Some s \<and> from_str s = Some h)"

text \<open>The entry that survives a merge for a target, if it is recent enough to stay.\<close>

definition kept_entry :: "systime \<Rightarrow> history \<Rightarrow> history \<Rightarrow> string \<Rightarrow> (duration \<times> systime) option" where
  "kept_entry now old h k =
     (let e = (case Mapping.lookup (hist_map h) k of
                 Some e \<Rightarrow> Some e | None \<Rightarrow> Mapping.lookup (hist_map old) k)
      in case e of None \<Rightarrow> None | Some e \<Rightarrow> if cutoff_time now < snd e then Some e else None)"

section \<open>The interface the server uses\<close>

text \<open>
  The server records elapsed times one at a time and asks for the last one of a target.
\<close>

locale elapsed_store =
  fixes empty :: 's
    and is_empty :: "'s \<Rightarrow> bool"
    and get :: "'s \<Rightarrow> string \<Rightarrow> duration option"
    and update :: "'s \<Rightarrow> string \<Rightarrow> duration \<Rightarrow> systime \<Rightarrow> 's"
  assumes get_empty: "get empty k = None"
    and get_update: "get (update s t d now) k = (if k = t then Some d else get s k)"
    and is_empty_iff: "is_empty s \<longleftrightarrow> (\<forall>k. get s k = None)"
begin

text \<open>A sequence of recordings leaves the last elapsed time of every recorded target.\<close>

lemma get_recorded:
  "get (foldl (\<lambda>s (t, d, now). update s t d now) s rs) k =
     (case map_of (rev (map (\<lambda>(t, d, now). (t, d)) rs)) k of None \<Rightarrow> get s k | Some d \<Rightarrow> Some d)"
proof (induction rs rule: rev_induct)
  case (snoc r rs)
  then show ?case by (cases r) (auto simp: get_update)
qed simp

lemma recorded_not_empty: "\<not> is_empty (update s t d now)"
  by (auto simp: is_empty_iff get_update)

end

lemma lookup_none_empty: "(\<forall>k. Mapping.lookup m k = None) \<longleftrightarrow> m = Mapping.empty"
  by (auto intro: mapping_eqI)

interpretation hist: elapsed_store history_default history_is_empty history_get history_update
proof
  fix s
  show "history_is_empty s \<longleftrightarrow> (\<forall>k. history_get s k = None)"
    by (auto simp: history_is_empty_def history_get_def Mapping.is_empty_def keys_dom_lookup)
qed (auto simp: history_default_def history_get_def history_update_def lookup_update')

section \<open>The history file\<close>

lemma lookup_merge:
  "Mapping.lookup (hist_map (history_merge h h')) k =
     (case Mapping.lookup (hist_map h') k of
        Some e \<Rightarrow> Some e | None \<Rightarrow> Mapping.lookup (hist_map h) k)"
  by (auto simp: history_merge_def lookup_combine combine_options_def split: option.splits)

lemma load_internal_eq:
  "fst (load_history_internal from_str fs p) = read_history_file from_str fs p"
  by (auto simp: load_history_internal_def split: sum.splits io_error.splits)

lemma lookup_total:
  "Mapping.lookup (hist_map (total_history now old h)) k = kept_entry now old h k"
  by (auto simp: total_history_def kept_entry_def lookup_filter lookup_merge Let_def
      split: option.splits)

lemma load_current_history_alt:
  "load_current_history from_str (Some home) fs =
     (case read_history_file from_str fs (path_to_history home) of
        Inr h \<Rightarrow> h | Inl _ \<Rightarrow> history_default)"
  by (simp add: load_current_history_def load_internal_eq)

text \<open>The three ways a write can end, over the history that a new server would load.\<close>

lemma write_history_file_cases:
  fixes from_str to_vec tmp now h home fs
  defines "tot \<equiv> total_history now (load_current_history from_str (Some home) fs) h"
  obtains (kept) r where "write_history_file from_str to_vec tmp now h (Some home) fs = (r, fs)"
      "\<not> (tmp_new tmp \<and> tmp_write tmp \<and> tmp_persist tmp \<and> to_vec tot \<noteq> None)"
  | (replaced) data where "to_vec tot = Some data"
      "write_history_file from_str to_vec tmp now h (Some home) fs =
         (Inr (), fs\<lparr>files := (files fs)(path_to_history home \<mapsto> data),
            modes := (modes fs)(path_to_history home := tmp_mode tmp)\<rparr>)"
proof (cases "tmp_new tmp \<and> tmp_write tmp \<and> tmp_persist tmp \<and> to_vec tot \<noteq> None")
  case True
  then show ?thesis
    by (intro replaced [of "the (to_vec tot)"])
      (auto simp: write_history_file_def write_history_file_internal_def load_internal_eq
        load_current_history_alt tot_def)
next
  case False
  then have "snd (write_history_file from_str to_vec tmp now h (Some home) fs) = fs"
    by (auto simp: write_history_file_def write_history_file_internal_def load_internal_eq
        load_current_history_alt tot_def Let_def split: option.splits)
  with False show ?thesis by (intro kept) (auto simp: prod_eq_iff)
qed

text \<open>What was written is loaded.\<close>

lemma written_history_loads:
  assumes "tmp_new tmp" and "tmp_write tmp" and "tmp_persist tmp"
    and "\<not> denied fs (path_to_history home)"
    and "json_ok from_str to_vec
      (total_history now (load_current_history from_str (Some home) fs) h)"
  shows "\<exists>fs'. write_history_file from_str to_vec tmp now h (Some home) fs = (Inr (), fs') \<and>
     denied fs' = denied fs \<and> read_history_file from_str fs' (path_to_history home) =
       Inr (total_history now (load_current_history from_str (Some home) fs) h)"
proof (cases rule: write_history_file_cases [of from_str to_vec tmp now h home fs])
  case (kept r)
  then show ?thesis using assms by (auto simp: json_ok_def)
next
  case (replaced data)
  then show ?thesis
    using assms
    by (auto simp: load_current_history_alt read_history_file_def read_file_def json_ok_def)
qed

text \<open>
  C28: What one server writes is what the next one loads: for every target the entry just
  recorded, or the one already on file where there is none, provided it is not older than
  the cut-off of half a year.
\<close>

theorem history_survives_restart:
  assumes "tmp_new tmp" and "tmp_write tmp" and "tmp_persist tmp"
    and "\<not> denied fs (path_to_history home)"
    and "json_ok from_str to_vec
      (total_history now (load_current_history from_str (Some home) fs) h)"
  shows "\<exists>fs'. write_history_file from_str to_vec tmp now h (Some home) fs = (Inr (), fs') \<and>
     (\<forall>k. history_get (load_current_history from_str (Some home) fs') k =
        map_option fst (kept_entry now (load_current_history from_str (Some home) fs) h k))"
  using written_history_loads [OF assms] by (auto simp: history_get_def lookup_total load_current_history_alt)

text \<open>
  C29: Writing the history is all or nothing.  Whatever goes wrong, the files are either
  untouched or the history file holds one complete serialized history; an error always
  leaves them untouched, and no other file ever changes.
\<close>

theorem history_write_atomic:
  "(case write_history_file from_str to_vec tmp now h (Some home) fs of
      (Inl e, fs') \<Rightarrow> fs' = fs
    | (Inr _, fs') \<Rightarrow> fs' = fs \<or>
        (\<exists>data. to_vec (total_history now (load_current_history from_str (Some home) fs) h) = Some data \<and>
           fs' = fs\<lparr>files := (files fs)(path_to_history home \<mapsto> data),
             modes := (modes fs)(path_to_history home := tmp_mode tmp)\<rparr>))"
proof (cases rule: write_history_file_cases [of from_str to_vec tmp now h home fs])
  case (kept r)
  show ?thesis by (cases r) (simp_all add: kept(1))
next
  case (replaced data)
  then show ?thesis by simp
qed

text \<open>A history with one entry, for concrete executions.\<close>

definition one_entry :: "string \<Rightarrow> duration \<Rightarrow> systime \<Rightarrow> history" where
  "one_entry k d t = history_update history_default k d t"

theorem history_survives_restart_witness:
  "\<exists>fs'. write_history_file
       (\<lambda>s. if s = ''new'' then Some (total_history 0 (one_entry ''a.o'' 7 (-1)) (one_entry ''b.o'' 9 0))
            else Some (one_entry ''a.o'' 7 (-1)))
       (\<lambda>h. Some ''new'') \<lparr>tmp_new = True, tmp_write = True, tmp_persist = True, tmp_mode = octal 6 0 0\<rparr> 0
       (one_entry ''b.o'' 9 0) (Some ''/home/u'')
       \<lparr>files = [path_to_history ''/home/u'' \<mapsto> ''old''], denied = (\<lambda>_. False), modes = (\<lambda>_. 0), umask = octal 0 2 2\<rparr> = (Inr (), fs') \<and>
     (\<forall>k. history_get (load_current_history
       (\<lambda>s. if s = ''new'' then Some (total_history 0 (one_entry ''a.o'' 7 (-1)) (one_entry ''b.o'' 9 0))
            else Some (one_entry ''a.o'' 7 (-1))) (Some ''/home/u'') fs') k =
       map_option fst (kept_entry 0 (one_entry ''a.o'' 7 (-1)) (one_entry ''b.o'' 9 0) k))"
proof -
  let ?fs = "\<lparr>files = [path_to_history ''/home/u'' \<mapsto> ''old''], denied = (\<lambda>_. False), modes = (\<lambda>_. 0), umask = octal 0 2 2\<rparr>"
  let ?from = "\<lambda>s. if s = ''new''
    then Some (total_history 0 (one_entry ''a.o'' 7 (-1)) (one_entry ''b.o'' 9 0))
    else Some (one_entry ''a.o'' 7 (-1))"
  have l: "load_current_history ?from (Some ''/home/u'') ?fs = one_entry ''a.o'' 7 (-1)"
    by (simp add: load_current_history_alt read_history_file_def read_file_def)
  show ?thesis
    using history_survives_restart [where fs = ?fs and home = "''/home/u''" and from_str = ?from
        and to_vec = "\<lambda>h. Some ''new''" and now = 0 and h = "one_entry ''b.o'' 9 0"
        and tmp = "\<lparr>tmp_new = True, tmp_write = True, tmp_persist = True, tmp_mode = octal 6 0 0\<rparr>"]
    by (simp add: l json_ok_def)
qed

text \<open>
  A merge does not compare recording times: the incoming entry wins even when the stored
  one was recorded later.
\<close>

theorem merge_ignores_recording_time:
  assumes "Mapping.lookup (hist_map h) k = Some (d, t)"
    and "Mapping.lookup (hist_map incoming) k = Some (d', t')" and "t' < t"
  shows "history_get (history_merge h incoming) k = Some d'"
  using assms by (simp add: history_get_def lookup_merge)

theorem merge_ignores_recording_time_witness:
  "history_get (history_merge (one_entry ''a.o'' 7 10) (one_entry ''a.o'' 3 5)) ''a.o'' = Some 3"
  by (rule merge_ignores_recording_time [where d = 7 and t = 10 and t' = 5])
    (simp_all add: one_entry_def history_update_def history_default_def)

end
