(* ===== verification/Config.thy ===== *)
theory Config
  imports Ipc
begin

unbundle bit_operations_syntax

text \<open>
  Configuration (\<open>src/src/config.rs\<close>): the executor options, the file through which clients
  find the server, the private key of the user and the limit on open files.

  The TOML library is an argument of the functions that use it; \<open>'v\<close> stands for its values.
\<close>

section \<open>Executor options\<close>

record exec_config =
  initial_count :: nat
  max_count :: nat
  keep_pending :: nat
  release_delay :: nat
  idle_shutdown_after :: nat
  cfg_start_cmd :: string
  cfg_alt_start_cmd :: "string option"

definition exec_config_default :: exec_config where
  "exec_config_default =
     \<lparr>initial_count = 5, max_count = 1000, keep_pending = 5, release_delay = 30,
      idle_shutdown_after = 60, cfg_start_cmd = ''spraycc'', cfg_alt_start_cmd = None\<rparr>"

record 'v config_wrapper =
  cfg_exec :: exec_config
  cfg_command :: "(string, (string, 'v) mapping) mapping option"

definition read_config_file ::
  "(string \<Rightarrow> 'v config_wrapper option) \<Rightarrow> text_fs \<Rightarrow> string \<Rightarrow> io_error + exec_config" where
  "read_config_file from_toml fs path =
     (case read_file fs path of
        Inl e \<Rightarrow> Inl e
      | Inr s \<Rightarrow>
          (case from_toml s of
             None \<Rightarrow> Inl (OtherIo ''invalid configuration'')
           | Some config \<Rightarrow> Inr (cfg_exec config)))"

text \<open>The result and whether an error was reported to the user.\<close>

definition load_config_file_internal ::
  "(string \<Rightarrow> 'v config_wrapper option) \<Rightarrow> text_fs \<Rightarrow> string \<Rightarrow> (io_error + exec_config) \<times> bool" where
  "load_config_file_internal from_toml fs path =
     (case read_config_file from_toml fs path of
        Inr c \<Rightarrow> (Inr c, False)
      | Inl NotFound \<Rightarrow> (Inl NotFound, False)
      | Inl (OtherIo e) \<Rightarrow> (Inl (OtherIo e), True))"

definition load_config_file ::
  "(string \<Rightarrow> 'v config_wrapper option) \<Rightarrow> string option \<Rightarrow> text_fs \<Rightarrow> exec_config" where
  "load_config_file from_toml home_dir fs =
     (case fst (load_config_file_internal from_toml fs ''.spraycc'') of
        Inr c \<Rightarrow> c
      | Inl _ \<Rightarrow>
          (case home_dir of
             None \<Rightarrow> exec_config_default
           | Some home \<Rightarrow>
               (case fst (load_config_file_internal from_toml fs (path_join home ''.spraycc'')) of
                  Inr c \<Rightarrow> c
                | Inl _ \<Rightarrow> exec_config_default)))"

section \<open>Finding the server\<close>

definition CONNECT_FILE :: string where
  "CONNECT_FILE = ''.spraycc-server''"

text \<open>A canonical path is the list of its components; the empty list is the root.\<close>

definition abs_path :: "string list \<Rightarrow> string" where
  "abs_path p = (if p = [] then ''/'' else concat (map ((#) CHR ''/'') p))"

text \<open>A file opened without a mode of its own grants everybody to read and to write.\<close>

definition write_server_contact_info ::
  "(call_me \<Rightarrow> string option) \<Rightarrow> text_fs \<Rightarrow> string list \<Rightarrow> call_me \<Rightarrow> text_fs outcome" where
  "write_server_contact_info to_toml fs cwd callme =
     (let path = abs_path (cwd @ [CONNECT_FILE])
      in if denied fs path then Inl (Err ''permission denied'')
         else case to_toml callme of
                None \<Rightarrow> Inl (Panic ''called Result::unwrap() on an Err value'')
              | Some config \<Rightarrow>
                  Inr (write_file (octal 6 6 6) path config fs))"

text \<open>Dropping the \<open>ServerConfigCleanup\<close> guard when the server ends.\<close>

definition server_config_cleanup :: "text_fs \<Rightarrow> string list \<Rightarrow> text_fs" where
  "server_config_cleanup fs cwd =
     fs\<lparr>files := (files fs)(abs_path (cwd @ [CONNECT_FILE]) := None)\<rparr>"

definition deserialize_contact_info ::
  "(string \<Rightarrow> call_me option) \<Rightarrow> text_fs \<Rightarrow> string \<Rightarrow> call_me option" where
  "deserialize_contact_info from_toml fs path =
     (case read_file fs path of Inl _ \<Rightarrow> None | Inr s \<Rightarrow> from_toml s)"

text \<open>
  The search walks up: after pushing the file name, the first \<open>pop\<close> undoes the push and the
  second moves to the parent, which fails at the root.
\<close>

function read_server_contact_info_from ::
  "(string \<Rightarrow> call_me option) \<Rightarrow> text_fs \<Rightarrow> string list \<Rightarrow> call_me option" where
  "read_server_contact_info_from from_toml fs p =
     (let q = abs_path (p @ [CONNECT_FILE])
      in if files fs q \<noteq> None then
           (if denied fs q then None else deserialize_contact_info from_toml fs q)
         else if p \<noteq> [] then read_server_contact_info_from from_toml fs (butlast p)
         else None)"
  by pat_completeness auto
termination
  by (relation "measure (\<lambda>(_, _, p). length p)") auto

declare read_server_contact_info_from.simps [simp del]

section \<open>The user's private key\<close>

record user_private_key =
  private_key :: u64

definition load_user_private_key_internal ::
  "(string \<Rightarrow> user_private_key option) \<Rightarrow> text_fs \<Rightarrow> string \<Rightarrow> io_error + u64" where
  "load_user_private_key_internal from_toml fs path =
     (case read_file fs path of
        Inl e \<Rightarrow> Inl e
      | Inr s \<Rightarrow>
          (case from_toml s of
             None \<Rightarrow> Inl (OtherIo ''invalid key file'')
           | Some key \<Rightarrow> Inr (private_key key)))"

text \<open>
  \<open>rnd\<close> is the random number drawn and \<open>can_write\<close> says whether the file can be created and
  written.
\<close>

definition write_user_private_key ::
  "(user_private_key \<Rightarrow> string) \<Rightarrow> bool \<Rightarrow> u64 \<Rightarrow> text_fs \<Rightarrow> string \<Rightarrow> (io_error + u64) \<times> text_fs" where
  "write_user_private_key to_toml can_write rnd fs path =
     (let key = \<lparr>private_key = drop_bit 1 rnd\<rparr>
      in if can_write then
           (Inr (private_key key), write_file (octal 6 0 0) path (to_toml key) fs)
         else (Inl (OtherIo ''cannot write key''), fs))"

definition load_user_private_key ::
  "(string \<Rightarrow> user_private_key option) \<Rightarrow> (user_private_key \<Rightarrow> string) \<Rightarrow> bool \<Rightarrow> u64 \<Rightarrow> bool \<Rightarrow> string option \<Rightarrow> text_fs \<Rightarrow>
     u64 \<times> text_fs" where
  "load_user_private_key from_toml to_toml can_write rnd create_if_not_present home_dir fs =
     (case home_dir of
        None \<Rightarrow> (13, fs)
      | Some home \<Rightarrow>
          (let path = path_join home ''.spraycc.private''
           in case load_user_private_key_internal from_toml fs path of
                Inr key \<Rightarrow> (key, fs)
              | Inl err \<Rightarrow>
                  if create_if_not_present \<and> err = NotFound then
                    (case write_user_private_key to_toml can_write rnd fs path of
                       (Inr key, fs') \<Rightarrow> (key, fs')
                     | (Inl _, fs') \<Rightarrow> (13, fs'))
                  else (13, fs)))"

section \<open>The limit on open files\<close>

datatype limit_report = HardTooLow nat | SoftStays nat | Raised nat

text \<open>
  The limits before are \<open>None\<close> when they cannot be read; \<open>set_ok\<close> says whether the system
  accepts a new soft limit.  The result is the limits afterwards and what is printed.
\<close>

definition setup_process_file_limit ::
  "(nat \<times> nat) option \<Rightarrow> (nat \<Rightarrow> bool) \<Rightarrow> bool \<Rightarrow> (nat \<times> nat) option \<times> limit_report option" where
  "setup_process_file_limit limits set_ok verbose =
     (case limits of
        None \<Rightarrow> (None, None)
      | Some (soft_limit, hard_limit) \<Rightarrow>
          if hard_limit < 2048 then (limits, Some (HardTooLow hard_limit))
          else if soft_limit < 2048 then
            (let new_limit = min 4096 hard_limit
             in if \<not> set_ok new_limit then (limits, Some (SoftStays soft_limit))
                else (Some (new_limit, hard_limit), if verbose then Some (Raised new_limit) else None))
          else (limits, None))"

section \<open>Properties\<close>

text \<open>The directory and its ancestors, nearest first.\<close>

definition ancestors :: "string list \<Rightarrow> string list list" where
  "ancestors p = map (\<lambda>n. take n p) (rev [0..<Suc (length p)])"

lemma ancestors_unfold: "ancestors p = p # (if p = [] then [] else ancestors (butlast p))"
proof (cases p rule: rev_cases)
  case (snoc q c)
  have "map (\<lambda>n. take n (q @ [c])) (rev [0..<Suc (length q)]) = map (\<lambda>n. take n q) (rev [0..<Suc (length q)])"
    by (rule map_cong) auto
  then show ?thesis using snoc by (simp add: ancestors_def)
qed (simp add: ancestors_def)

text \<open>
  C30: A client finds the contact file of the nearest enclosing directory that has one: the
  search looks at the current directory, then its parent, up to the root, and stops at the
  first file it meets, usable or not.
\<close>

theorem contact_info_nearest:
  "read_server_contact_info_from from_toml fs p =
     (case find (\<lambda>d. files fs (abs_path (d @ [CONNECT_FILE])) \<noteq> None) (ancestors p) of
        None \<Rightarrow> None
      | Some d \<Rightarrow> deserialize_contact_info from_toml fs (abs_path (d @ [CONNECT_FILE])))"
proof (induction from_toml fs p rule: read_server_contact_info_from.induct)
  case (1 from_toml fs p)
  let ?q = "abs_path (p @ [CONNECT_FILE])"
  have hit: "denied fs ?q \<Longrightarrow> deserialize_contact_info from_toml fs ?q = None"
    by (auto simp: deserialize_contact_info_def read_file_def split: option.splits)
  show ?case
    using "1.IH" [OF refl] hit
    by (subst read_server_contact_info_from.simps, subst ancestors_unfold)
      (auto simp: Let_def split: if_splits)
qed

lemma take_component:
  assumes "CHR ''/'' \<notin> set c"
  shows "takeWhile (\<lambda>x. x \<noteq> CHR ''/'') (c @ concat (map ((#) CHR ''/'') p)) = c"
  using assms by (cases p) (auto simp: takeWhile_append)

lemma concat_slash_inject:
  assumes "\<forall>c \<in> set p. CHR ''/'' \<notin> set c" and "\<forall>c \<in> set q. CHR ''/'' \<notin> set c"
    and "concat (map ((#) CHR ''/'') p) = concat (map ((#) CHR ''/'') q)"
  shows "p = q"
  using assms
proof (induction p arbitrary: q)
  case Nil
  then show ?case by (cases q) auto
next
  case (Cons c p)
  then obtain d q' where q: "q = d # q'" by (cases q) auto
  then have e: "c @ concat (map ((#) CHR ''/'') p) = d @ concat (map ((#) CHR ''/'') q')"
    using Cons.prems(3) by simp
  have "c = d"
    using arg_cong [OF e, of "takeWhile (\<lambda>x. x \<noteq> CHR ''/'')"] take_component [of c p]
      take_component [of d q'] Cons.prems(1,2) q by (metis list.set_intros(1))
  with e have "concat (map ((#) CHR ''/'') p) = concat (map ((#) CHR ''/'') q')" by simp
  then show ?case using Cons.IH [of q'] Cons.prems(1,2) q \<open>c = d\<close> by simp
qed

text \<open>Components of a canonical path are not empty of meaning: none contains a separator.\<close>

definition plain_path :: "string list \<Rightarrow> bool" where
  "plain_path p \<longleftrightarrow> list_all (\<lambda>c. CHR ''/'' \<notin> set c) p"

lemma abs_path_inject:
  assumes "plain_path p" and "plain_path q" and "p \<noteq> []" and "q \<noteq> []" and "abs_path p = abs_path q"
  shows "p = q"
  using assms concat_slash_inject [of p q]
  by (auto simp: plain_path_def abs_path_def list_all_iff)

lemma search_skips:
  assumes "\<forall>k < length sub. files fs (abs_path (cwd @ take (Suc k) sub @ [CONNECT_FILE])) = None"
    and "files fs (abs_path (cwd @ [CONNECT_FILE])) \<noteq> None"
  shows "read_server_contact_info_from from_toml fs (cwd @ sub) =
     deserialize_contact_info from_toml fs (abs_path (cwd @ [CONNECT_FILE]))"
  using assms
proof (induction sub rule: rev_induct)
  case Nil
  then show ?case
    by (subst read_server_contact_info_from.simps)
      (auto simp: Let_def deserialize_contact_info_def read_file_def split: option.splits)
next
  case (snoc c sub)
  have "\<forall>k < length sub. files fs (abs_path (cwd @ take (Suc k) sub @ [CONNECT_FILE])) = None"
  proof (intro allI impI)
    fix k assume "k < length sub"
    then show "files fs (abs_path (cwd @ take (Suc k) sub @ [CONNECT_FILE])) = None"
      using snoc.prems(1) [rule_format, of k] by simp
  qed
  then have "read_server_contact_info_from from_toml fs (cwd @ sub) =
      deserialize_contact_info from_toml fs (abs_path (cwd @ [CONNECT_FILE]))"
    using snoc.IH snoc.prems(2) by blast
  moreover have "files fs (abs_path (cwd @ (sub @ [c]) @ [CONNECT_FILE])) = None"
    using snoc.prems(1) [rule_format, of "length sub"] by simp
  ultimately show ?case
    by (subst read_server_contact_info_from.simps) (simp add: Let_def butlast_append flip: append_assoc)
qed

lemma search_reads_files:
  assumes "files fs = files fs'" and "denied fs = denied fs'"
  shows "read_server_contact_info_from from_toml fs p = read_server_contact_info_from from_toml fs' p"
proof -
  have "read_file fs q = read_file fs' q" for q
    by (cases "files fs' q") (simp_all add: read_file_def assms)
  then have "deserialize_contact_info from_toml fs q = deserialize_contact_info from_toml fs' q" for q
    by (simp add: deserialize_contact_info_def)
  then show ?thesis
    using assms
    by (induction from_toml fs p rule: read_server_contact_info_from.induct)
      (subst (1 2) read_server_contact_info_from.simps, simp add: Let_def)
qed

text \<open>
  The contact information a server writes into its directory is what every client below
  that directory reads, as long as no nearer directory has a contact file and no longer file
  of an earlier server was left behind; ending the server removes the file.
\<close>

theorem contact_info_roundtrip:
  assumes toml: "to_toml callme = Some s" "from_toml s = Some callme"
    and plain: "plain_path (cwd @ sub @ [CONNECT_FILE])"
    and acc: "\<not> denied fs (abs_path (cwd @ [CONNECT_FILE]))"
    and stale: "length (case files fs (abs_path (cwd @ [CONNECT_FILE])) of None \<Rightarrow> [] | Some old \<Rightarrow> old) \<le> length s"
    and near: "\<forall>k < length sub. files fs (abs_path (cwd @ take (Suc k) sub @ [CONNECT_FILE])) = None"
  shows "\<exists>fs'. write_server_contact_info to_toml fs cwd callme = Inr fs' \<and>
     read_server_contact_info_from from_toml fs' (cwd @ sub) = Some callme \<and>
     files (server_config_cleanup fs' cwd) (abs_path (cwd @ [CONNECT_FILE])) = None"
proof -
  let ?path = "abs_path (cwd @ [CONNECT_FILE])"
  define fs' where "fs' = write_file (octal 6 6 6) ?path s fs"
  have w: "write_server_contact_info to_toml fs cwd callme = Inr fs'" using toml(1) acc
    by (simp add: write_server_contact_info_def Let_def fs'_def)
  have "files fs' (abs_path (cwd @ take (Suc k) sub @ [CONNECT_FILE])) = None" if "k < length sub" for k
  proof -
    have "abs_path (cwd @ take (Suc k) sub @ [CONNECT_FILE]) \<noteq> ?path"
      using plain that
      by (auto simp: plain_path_def list_all_iff dest!: abs_path_inject [rotated -1] in_set_takeD)
    then show ?thesis using near that by (simp add: fs'_def)
  qed
  then have "read_server_contact_info_from from_toml fs' (cwd @ sub) =
      deserialize_contact_info from_toml fs' ?path"
    by (intro search_skips) (simp_all add: fs'_def)
  also have "\<dots> = Some callme"
    using toml(2) acc overwrite_fresh [OF stale] by (simp add: deserialize_contact_info_def read_file_def fs'_def)
  finally show ?thesis using w by (auto simp: server_config_cleanup_def)
qed

text \<open>Files with nothing in them, for concrete executions.\<close>

definition no_files :: text_fs where
  "no_files = \<lparr>files = Map.empty, denied = (\<lambda>_. False), modes = (\<lambda>_. 0), umask = octal 0 2 2\<rparr>"

theorem contact_info_roundtrip_witness:
  "\<exists>fs'. write_server_contact_info (\<lambda>c. Some (addr c)) no_files [''work'']
       \<lparr>addr = ''10.0.0.1:7'', access_code = 42\<rparr> = Inr fs' \<and>
     read_server_contact_info_from (\<lambda>s. Some \<lparr>addr = s, access_code = 42\<rparr>) fs'
       ([''work''] @ [''obj'', ''lib'']) = Some \<lparr>addr = ''10.0.0.1:7'', access_code = 42\<rparr> \<and>
     files (server_config_cleanup fs' [''work'']) (abs_path ([''work''] @ [CONNECT_FILE])) = None"
  by (rule contact_info_roundtrip)
    (simp_all add: plain_path_def CONNECT_FILE_def no_files_def)

text \<open>
  The contact file is not truncated when it is rewritten.  If an earlier server left a
  longer file behind, its tail follows the new contents, and what clients parse is not what
  the server wrote.
\<close>

theorem stale_contact_file_leaves_tail:
  assumes "to_toml callme = Some s" and "\<not> denied fs (abs_path (cwd @ [CONNECT_FILE]))"
    and "files fs (abs_path (cwd @ [CONNECT_FILE])) = Some old" and "length s < length old"
  shows "\<exists>fs' tail. write_server_contact_info to_toml fs cwd callme = Inr fs' \<and> tail \<noteq> [] \<and>
     files fs' (abs_path (cwd @ [CONNECT_FILE])) = Some (s @ tail) \<and>
     read_server_contact_info_from from_toml fs' cwd = from_toml (s @ tail)"
proof -
  let ?path = "abs_path (cwd @ [CONNECT_FILE])"
  define fs' where "fs' = write_file (octal 6 6 6) ?path s fs"
  have "write_server_contact_info to_toml fs cwd callme = Inr fs'"
    using assms by (simp add: write_server_contact_info_def Let_def fs'_def)
  moreover have "read_server_contact_info_from from_toml fs' cwd = from_toml (s @ drop (length s) old)"
    using search_skips [of "[]" fs' cwd from_toml] assms(2,3)
    by (simp add: fs'_def overwrite_def deserialize_contact_info_def read_file_def)
  ultimately show ?thesis
    using assms(3,4) by (intro exI [of _ fs'] exI [of _ "drop (length s) old"]) (simp add: fs'_def overwrite_def)
qed

theorem stale_contact_file_leaves_tail_witness:
  "\<exists>fs' tail. write_server_contact_info (\<lambda>c. Some (addr c))
       (no_files\<lparr>files := [abs_path ([''work''] @ [CONNECT_FILE]) \<mapsto> ''10.0.0.1:70000'']\<rparr>) [''work'']
       \<lparr>addr = ''10.0.0.1:7'', access_code = 42\<rparr> = Inr fs' \<and> tail \<noteq> [] \<and>
     files fs' (abs_path ([''work''] @ [CONNECT_FILE])) = Some (''10.0.0.1:7'' @ tail) \<and>
     read_server_contact_info_from (\<lambda>s. Some \<lparr>addr = s, access_code = 42\<rparr>) fs' [''work''] =
       Some \<lparr>addr = ''10.0.0.1:7'' @ tail, access_code = 42\<rparr>"
  by (rule stale_contact_file_leaves_tail
      [where s = "''10.0.0.1:7''" and old = "''10.0.0.1:70000''"
        and from_toml = "\<lambda>s. Some \<lparr>addr = s, access_code = 42\<rparr>"])
    (simp_all add: no_files_def)

lemma load_key_internal_cases:
  obtains (key) k where "load_user_private_key_internal from_toml fs p = Inr k"
  | (create) "files fs p = None" "load_user_private_key_internal from_toml fs p = Inl NotFound"
  | (broken) e where "load_user_private_key_internal from_toml fs p = Inl (OtherIo e)"
proof (cases "load_user_private_key_internal from_toml fs p")
  case (Inl e)
  then show ?thesis
    using create broken
    by (cases e; cases "files fs p")
      (auto simp: load_user_private_key_internal_def read_file_def split: if_splits option.splits)
qed (use key in blast)

lemma new_key_fits: "drop_bit 1 (rnd :: u64) < 2 ^ 63"
  using unsigned_less [of rnd, where ?'a = nat]
  by (simp add: word_less_nat_alt drop_bit_eq_div unat_div)

lemma octal_private: "(octal 6 0 0 AND NOT m) AND octal 0 7 7 = 0"
proof -
  have "octal 6 0 0 AND octal 0 7 7 = 0" by (simp add: octal_def)
  then show ?thesis by (metis and.assoc and.commute and_zero_eq)
qed

lemma load_user_private_key_creates:
  assumes "files fs (path_join home ''.spraycc.private'') = None"
  shows "load_user_private_key from_toml to_toml can_write rnd True (Some home) fs =
    (if can_write then
       (drop_bit 1 rnd, write_file (octal 6 0 0) (path_join home ''.spraycc.private'') (to_toml \<lparr>private_key = drop_bit 1 rnd\<rparr>) fs)
     else (13, fs))"
  using assms
  by (simp add: load_user_private_key_def load_user_private_key_internal_def read_file_def write_user_private_key_def Let_def)

text \<open>
  C31: The key a server loads or creates when it starts is the one that every process of the
  user loads afterwards, whatever the key file held before.  A new key is a number that TOML
  can represent, its file is open to nobody but its owner whatever the process grants to new
  files, and no other file is touched.
\<close>

theorem private_key_shared:
  assumes "\<forall>k < 2 ^ 63. from_toml (to_toml \<lparr>private_key = k\<rparr>) = Some \<lparr>private_key = k\<rparr>"
    and "\<forall>home. \<not> denied fs (path_join home ''.spraycc.private'')"
  shows "\<exists>key fs'. load_user_private_key from_toml to_toml can_write rnd True home_dir fs = (key, fs') \<and>
     load_user_private_key from_toml to_toml can_write rnd' False home_dir fs' = (key, fs') \<and>
     (\<forall>home. home_dir = Some home \<and> files fs (path_join home ''.spraycc.private'') = None \<and> can_write \<longrightarrow>
        key < 2 ^ 63 \<and> modes fs' (path_join home ''.spraycc.private'') AND octal 0 7 7 = 0) \<and>
     (\<forall>q. home_dir \<noteq> None \<and> q = path_join (the home_dir) ''.spraycc.private'' \<or>
        files fs' q = files fs q \<and> modes fs' q = modes fs q)"
proof (cases home_dir)
  case (Some home)
  let ?p = "path_join home ''.spraycc.private''"
  show ?thesis
  proof (cases rule: load_key_internal_cases [of from_toml fs ?p])
    case create
    have "from_toml (to_toml \<lparr>private_key = drop_bit 1 rnd\<rparr>) = Some \<lparr>private_key = drop_bit 1 rnd\<rparr>"
      using assms(1) new_key_fits by blast
    then show ?thesis
      using create(1) assms(2) Some new_key_fits [of rnd] octal_private
      by (simp add: load_user_private_key_creates)
        (auto simp: load_user_private_key_def load_user_private_key_internal_def read_file_def overwrite_def
          new_file_mode Let_def, simp_all add: write_file_def)
  qed (auto simp: load_user_private_key_def Some Let_def load_user_private_key_internal_def read_file_def)
qed (simp add: load_user_private_key_def)

theorem private_key_shared_witness:
  "\<exists>fs'. load_user_private_key (\<lambda>s. Some \<lparr>private_key = word_of_nat (digits_val s)\<rparr>)
       (\<lambda>k. show_nat (unat (private_key k))) True 86 True (Some ''/home/u'') no_files = (43, fs') \<and>
     load_user_private_key (\<lambda>s. Some \<lparr>private_key = word_of_nat (digits_val s)\<rparr>)
       (\<lambda>k. show_nat (unat (private_key k))) True 7 False (Some ''/home/u'') fs' = (43, fs') \<and>
     modes fs' ''/home/u/.spraycc.private'' AND octal 0 7 7 = 0"
proof -
  have j: "path_join ''/home/u'' ''.spraycc.private'' = ''/home/u/.spraycc.private''" by (simp add: path_join_def)
  have "fst (load_user_private_key (\<lambda>s. Some \<lparr>private_key = word_of_nat (digits_val s)\<rparr>)
       (\<lambda>k. show_nat (unat (private_key k))) True 86 True (Some ''/home/u'') no_files) = 43"
    by (simp add: load_user_private_key_creates no_files_def)
  with private_key_shared [of "\<lambda>s. Some \<lparr>private_key = word_of_nat (digits_val s)\<rparr>"
      "\<lambda>k. show_nat (unat (private_key k))" no_files True 86 "Some ''/home/u''" 7] j
  show ?thesis by (auto simp: no_files_def)
qed

text \<open>
  Preparing the file limit never lowers the soft limit and never touches the hard one; it
  reaches at least 2048 whenever the hard limit allows it and the system accepts the change.
\<close>

theorem file_limit_bounds:
  assumes "soft \<le> hard"
  shows "\<exists>soft'. fst (setup_process_file_limit (Some (soft, hard)) set_ok verbose) = Some (soft', hard) \<and>
     soft \<le> soft' \<and> soft' \<le> hard \<and>
     (2048 \<le> hard \<and> set_ok (min 4096 hard) \<longrightarrow> 2048 \<le> soft')"
  using assms by (auto simp: setup_process_file_limit_def Let_def)

theorem file_limit_bounds_witness:
  "\<exists>soft'. fst (setup_process_file_limit (Some (1024, 8192)) (\<lambda>_. True) True) = Some (soft', 8192) \<and>
     1024 \<le> soft' \<and> soft' \<le> 8192 \<and>
     (2048 \<le> (8192 :: nat) \<and> (\<lambda>_. True) (min 4096 (8192 :: nat)) \<longrightarrow> 2048 \<le> soft')"
  by (rule file_limit_bounds) simp

end
