(* ===== verification/Server.thy ===== *)
theory Server
  imports Ipc Task_Queue History Config
begin

unbundle bit_operations_syntax

text \<open>
  The state of the server and its operations (\<open>ServerState\<close> and \<open>handle_msg\<close> in
  \<open>src/src/server.rs\<close>).

  The operations of the priority queue are the argument \<open>Q\<close>.  A channel to a connection task
  is the list of messages sent on it so far and whether its receiver still exists; sending to
  a channel without receiver is an error.  Every reading of the clock and every attempt to
  spawn a process is an argument: an operation that starts executors takes the list of the
  results of its attempts, and has not returned (\<open>NotDone\<close>) while it would need more of them.
  Counters of type \<open>usize\<close> are natural numbers whose decrements are checked; pairing
  identifiers are 32-bit words, as in the source.
\<close>

section \<open>State\<close>

datatype connection_type = Pending | Client | Exec | Dead

record channel =
  chan_sent :: "message list"
  chan_open :: bool

record remote =
  conn_type :: connection_type
  send_chan :: channel
  paired_id :: "u32 option"

type_synonym task_item = "nat \<times> task_details"
type_synonym 'q task_pq = "('q, nat \<times> task_details, duration) pqueue"

text \<open>The fields of \<open>ServerState\<close>; \<open>launched\<close> logs the commands handed to \<open>sh -c\<close>.\<close>

record 'q server_state =
  remotes :: "remote list"
  task_queue :: 'q
  exec_queue :: "nat list"
  submit_count :: nat
  finish_count :: nat
  pending_exec_count :: nat
  second_pending_exec_count :: nat
  running_exec_count :: nat
  last_submit_time :: "systime option"
  last_activity_time :: systime
  user_config :: exec_config
  user_private_key :: u64
  start_cmd :: string
  second_start_cmd :: "string option"
  verbose :: bool
  prior_history :: history
  in_the_making :: history
  total_bytes :: nat
  bytes_this_period :: nat
  total_run_time :: duration
  total_send_time :: duration
  peak_send_time :: duration
  launched :: "string list"

definition chan_send :: "channel \<Rightarrow> message \<Rightarrow> channel outcome" where
  "chan_send ch msg =
     (if chan_open ch then Inr (ch\<lparr>chan_sent := chan_sent ch @ [msg]\<rparr>)
      else Inl (Err ''channel closed''))"

definition exec_command :: "string \<Rightarrow> string \<Rightarrow> u64 \<Rightarrow> string" where
  "exec_command cmd address code =
     cmd @ '' exec --callme='' @ address @ '' --code='' @ show_nat (unat code)"

text \<open>\<open>ServerState::new\<close>; the configuration and the history are those it loads.\<close>

definition server_new ::
  "'q task_pq \<Rightarrow> exec_config \<Rightarrow> history \<Rightarrow> systime \<Rightarrow> call_me \<Rightarrow> u64 \<Rightarrow> nat option \<Rightarrow> bool \<Rightarrow> bool \<Rightarrow>
     bool \<Rightarrow> 'q server_state outcome" where
  "server_new Q loaded hist now port user_key max_cpus alt_start_cmd both_queues verb =
     (let config = (case max_cpus of None \<Rightarrow> loaded | Some c \<Rightarrow> loaded\<lparr>max_count := c\<rparr>);
          cmd = (case cfg_alt_start_cmd config of
                   Some alt \<Rightarrow> if alt_start_cmd then alt else cfg_start_cmd config
                 | None \<Rightarrow> cfg_start_cmd config)
      in if access_code port AND 1 \<noteq> 0 then Inl (Panic ''Expected bit-0 of access code to be 0'')
         else Inr
           \<lparr>remotes = [], task_queue = pq_new Q, exec_queue = [], submit_count = 0, finish_count = 0,
            pending_exec_count = 0, second_pending_exec_count = 0, running_exec_count = 0,
            last_submit_time = None, last_activity_time = now, user_config = config,
            user_private_key = user_key, start_cmd = exec_command cmd (addr port) (access_code port),
            second_start_cmd =
              (if both_queues then
                 map_option (\<lambda>alt. exec_command alt (addr port) (access_code port + 1))
                   (cfg_alt_start_cmd config)
               else None),
            verbose = verb, prior_history = hist, in_the_making = history_default,
            total_bytes = 0, bytes_this_period = 0, total_run_time = 0, total_send_time = 0,
            peak_send_time = 0, launched = []\<rparr>)"

section \<open>Bookkeeping\<close>

definition activity_occurred :: "systime \<Rightarrow> 'q server_state \<Rightarrow> 'q server_state" where
  "activity_occurred now s = s\<lparr>last_activity_time := now\<rparr>"

definition ok_to_shutdown :: "'q task_pq \<Rightarrow> systime \<Rightarrow> 'q server_state \<Rightarrow> bool" where
  "ok_to_shutdown Q now s \<longleftrightarrow>
     pq_is_empty Q (task_queue s) \<and> running_exec_count s = 0 \<and>
     elapsed_secs now (last_activity_time s) > idle_shutdown_after (user_config s)"

text \<open>Writing the recorded history before the server ends; an error is only reported.\<close>

definition shutdown ::
  "(string \<Rightarrow> history option) \<Rightarrow> (history \<Rightarrow> string option) \<Rightarrow> temp_file \<Rightarrow> systime \<Rightarrow> string option \<Rightarrow>
     text_fs \<Rightarrow> 'q server_state \<Rightarrow> 'q server_state \<times> text_fs" where
  "shutdown from_str to_vec tmp now home_dir fs s =
     (if history_is_empty (in_the_making s) then (s, fs)
      else (s\<lparr>in_the_making := history_default\<rparr>,
            snd (write_history_file from_str to_vec tmp now (in_the_making s) home_dir fs)))"

definition record_elapsed :: "systime \<Rightarrow> string \<Rightarrow> duration \<Rightarrow> 'q server_state \<Rightarrow> 'q server_state" where
  "record_elapsed now target_id elapsed s =
     s\<lparr>in_the_making := history_update (in_the_making s) target_id elapsed now\<rparr>"

definition set_remote :: "nat \<Rightarrow> remote \<Rightarrow> 'q server_state \<Rightarrow> 'q server_state" where
  "set_remote i r s = s\<lparr>remotes := (remotes s)[i := r]\<rparr>"

text \<open>A failed send marks the client as dead and is otherwise ignored.\<close>

definition send_to_paired_remote ::
  "nat \<Rightarrow> message \<Rightarrow> 'q server_state \<Rightarrow> 'q server_state outcome" where
  "send_to_paired_remote conn_id msg s =
     and_then (index (remotes s) conn_id) (\<lambda>r.
       case paired_id r of
         None \<Rightarrow> Inl (Panic ''Expected connection to already be paired'')
       | Some p \<Rightarrow>
           let other_id = unat p
           in and_then (index (remotes s) other_id) (\<lambda>other.
                if conn_type other = Client then
                  (case chan_send (send_chan other) msg of
                     Inr ch \<Rightarrow> Inr (set_remote other_id (other\<lparr>send_chan := ch\<rparr>) s)
                   | Inl _ \<Rightarrow> Inr (set_remote other_id (other\<lparr>conn_type := Dead\<rparr>) s))
                else Inr s))"

definition add_remote :: "'q server_state \<Rightarrow> 'q server_state \<times> nat" where
  "add_remote s =
     (s\<lparr>remotes := remotes s @
          [\<lparr>conn_type = Pending, send_chan = \<lparr>chan_sent = [], chan_open = True\<rparr>, paired_id = None\<rparr>]\<rparr>,
      length (remotes s))"

definition handle_dropped :: "nat \<Rightarrow> 'q server_state \<Rightarrow> 'q server_state outcome" where
  "handle_dropped conn_id s =
     and_then (index (remotes s) conn_id) (\<lambda>r.
     and_then
       (case (conn_type r, paired_id r) of
          (Exec, Some p) \<Rightarrow>
            and_then (index (remotes s) (unat p)) (\<lambda>other.
            and_then (chan_send (send_chan other) (TaskFailed ''exec dropped connection'')) (\<lambda>ch.
              Inr (set_remote (unat p) (other\<lparr>send_chan := ch\<rparr>) s)))
        | _ \<Rightarrow> Inr s) (\<lambda>s.
     and_then
       (if conn_type r = Exec then
          and_then (usub (running_exec_count s) 1) (\<lambda>n. Inr (s\<lparr>running_exec_count := n\<rparr>))
        else Inr s) (\<lambda>s.
     and_then (index (remotes s) conn_id) (\<lambda>r.
       Inr (set_remote conn_id (r\<lparr>conn_type := Dead\<rparr>) s)))))"

section \<open>Starting executors\<close>

text \<open>
  The loop of \<open>start_execs_in_queue\<close>: \<open>wants n\<close> is its condition with \<open>n\<close> pending executors.
  Each round consumes the result of one attempt to spawn; a failed attempt changes nothing.
\<close>

fun spawn_loop :: "(nat \<Rightarrow> bool) \<Rightarrow> bool list \<Rightarrow> nat \<Rightarrow> (nat \<times> bool list) outcome" where
  "spawn_loop wants [] n = (if wants n then Inl NotDone else Inr (n, []))"
| "spawn_loop wants (ok # sp) n =
     (if wants n then spawn_loop wants sp (if ok then n + 1 else n) else Inr (n, ok # sp))"

definition wants_exec :: "'q task_pq \<Rightarrow> 'q server_state \<Rightarrow> nat \<Rightarrow> nat \<Rightarrow> nat \<Rightarrow> bool" where
  "wants_exec Q s other keep n \<longleftrightarrow>
     running_exec_count s + n + other < pq_len Q (task_queue s) \<and>
     running_exec_count s + n + other < max_count (user_config s) \<and> n < keep"

definition start_execs_in_queue ::
  "'q task_pq \<Rightarrow> bool \<Rightarrow> nat \<Rightarrow> bool list \<Rightarrow> 'q server_state \<Rightarrow> ('q server_state \<times> bool list) outcome" where
  "start_execs_in_queue Q alt_queue keep sp s =
     (if \<not> alt_queue then
        and_then
          (spawn_loop (wants_exec Q s (second_pending_exec_count s) keep) sp (pending_exec_count s))
          (\<lambda>(n, sp').
            Inr (s\<lparr>pending_exec_count := n,
                   launched := launched s @ replicate (n - pending_exec_count s) (start_cmd s)\<rparr>, sp'))
      else
        (case second_start_cmd s of
           None \<Rightarrow> Inl (Panic ''called Option::unwrap() on a None value'')
         | Some cmd \<Rightarrow>
             and_then
               (spawn_loop (wants_exec Q s (pending_exec_count s) keep) sp (second_pending_exec_count s))
               (\<lambda>(n, sp').
                 Inr (s\<lparr>second_pending_exec_count := n,
                        launched := launched s @ replicate (n - second_pending_exec_count s) cmd\<rparr>, sp'))))"

definition start_execs ::
  "'q task_pq \<Rightarrow> bool list \<Rightarrow> 'q server_state \<Rightarrow> ('q server_state \<times> bool list) outcome" where
  "start_execs Q sp s =
     (if pq_is_empty Q (task_queue s) then Inr (s, sp)
      else
        let init_needed = max (initial_count (user_config s)) (running_exec_count s) - running_exec_count s;
            keep = max (keep_pending (user_config s)) init_needed
        in if second_start_cmd s \<noteq> None then
             (let half_pending = (keep + 1) div 2
              in and_then (start_execs_in_queue Q False half_pending sp s)
                   (\<lambda>(s, sp). start_execs_in_queue Q True half_pending sp s))
           else start_execs_in_queue Q False keep sp s)"

section \<open>Assigning tasks\<close>

text \<open>One round of the first loop of \<open>check_queues\<close>: the best task goes to the longest idle executor.\<close>

definition assign_one :: "'q task_pq \<Rightarrow> 'q server_state \<Rightarrow> 'q server_state outcome" where
  "assign_one Q s =
     (case (pq_pop Q (task_queue s), exec_queue s) of
        (Some (((client_id, task), prior), q), exec_id # execs) \<Rightarrow>
          let s = s\<lparr>task_queue := q, exec_queue := execs\<rparr>
          in if client_id = exec_id then Inl (Panic ''Somehow exec and client ID are the same'')
             else
               and_then (if verbose s then get_target_id task else Inr []) (\<lambda>_.
               and_then (index (remotes s) client_id) (\<lambda>client.
               if paired_id client \<noteq> None then Inl (Panic ''Client paired ID should be None'')
               else
                 let s = set_remote client_id (client\<lparr>paired_id := Some (word_of_nat exec_id)\<rparr>) s
                 in and_then (index (remotes s) exec_id) (\<lambda>exec.
                      if paired_id exec \<noteq> None then Inl (Panic ''Exec paired ID should be None'')
                      else
                        and_then (chan_send (send_chan exec) (Task 0 0 task)) (\<lambda>ch.
                          Inr (set_remote exec_id
                            (exec\<lparr>paired_id := Some (word_of_nat client_id), send_chan := ch\<rparr>) s)))))
      | _ \<Rightarrow> Inl (Panic ''called Option::unwrap() on a None value''))"

lemma assign_one_shrinks:
  assumes "assign_one Q s = Inr s'"
  shows "length (exec_queue s') < length (exec_queue s)"
  using assms
  by (auto simp: assign_one_def set_remote_def and_then_eq_Inr Let_def
      split: option.splits list.splits prod.splits if_splits)

function assign_loop :: "'q task_pq \<Rightarrow> 'q server_state \<Rightarrow> 'q server_state outcome" where
  "assign_loop Q s =
     (if \<not> pq_is_empty Q (task_queue s) \<and> exec_queue s \<noteq> [] then
        (case assign_one Q s of Inl e \<Rightarrow> Inl e | Inr s' \<Rightarrow> assign_loop Q s')
      else Inr s)"
  by pat_completeness auto
termination
  by (relation "measure (\<lambda>(Q, s). length (exec_queue s))") (auto dest: assign_one_shrinks)

declare assign_loop.simps [simp del]

text \<open>One round of the second loop: the longest idle executor is told to leave.\<close>

definition release_one :: "'q server_state \<Rightarrow> 'q server_state outcome" where
  "release_one s =
     (case exec_queue s of
        [] \<Rightarrow> Inl (Panic ''called Option::unwrap() on a None value'')
      | exec_id # execs \<Rightarrow>
          and_then (index (remotes s) exec_id) (\<lambda>exec.
          and_then (chan_send (send_chan exec) PissOff) (\<lambda>ch.
          and_then (usub (running_exec_count s) 1) (\<lambda>n.
            Inr (set_remote exec_id (exec\<lparr>conn_type := Dead, send_chan := ch\<rparr>)
              (s\<lparr>exec_queue := execs, running_exec_count := n\<rparr>))))))"

lemma release_one_shrinks:
  assumes "release_one s = Inr s'"
  shows "length (exec_queue s') < length (exec_queue s)"
  using assms
  by (auto simp: release_one_def set_remote_def and_then_eq_Inr split: list.splits)

function release_loop :: "'q server_state \<Rightarrow> 'q server_state outcome" where
  "release_loop s =
     (if exec_queue s \<noteq> [] then
        (case release_one s of Inl e \<Rightarrow> Inl e | Inr s' \<Rightarrow> release_loop s')
      else Inr s)"
  by pat_completeness auto
termination
  by (relation "measure (\<lambda>s. length (exec_queue s))") (auto dest: release_one_shrinks)

declare release_loop.simps [simp del]

definition ok_to_release :: "systime \<Rightarrow> 'q server_state \<Rightarrow> bool" where
  "ok_to_release now s =
     (case last_submit_time s of
        Some t \<Rightarrow> elapsed_secs now t > release_delay (user_config s)
      | None \<Rightarrow> False)"

definition check_queues :: "'q task_pq \<Rightarrow> systime \<Rightarrow> 'q server_state \<Rightarrow> 'q server_state outcome" where
  "check_queues Q now s =
     and_then (assign_loop Q s) (\<lambda>s. if ok_to_release now s then release_loop s else Inr s)"

definition update ::
  "'q task_pq \<Rightarrow> bool list \<Rightarrow> systime \<Rightarrow> 'q server_state \<Rightarrow> 'q server_state outcome" where
  "update Q sp now s = and_then (start_execs Q sp s) (\<lambda>(s, _). check_queues Q now s)"

text \<open>The number of running tasks, and whether a status line is printed.\<close>

definition report_status :: "'q task_pq \<Rightarrow> 'q server_state \<Rightarrow> (nat \<times> bool) outcome" where
  "report_status Q s =
     and_then (usub (submit_count s) (finish_count s)) (\<lambda>n.
     and_then (usub n (pq_len Q (task_queue s))) (\<lambda>running.
       Inr (running, running > 0 \<or> running_exec_count s > 0 \<or> bytes_this_period s > 0)))"

section \<open>Identifying remotes\<close>

text \<open>The clock readings and spawn results that one event consumes.\<close>

record event_env =
  at_record :: systime
  at_submit :: systime
  at_check :: systime
  at_activity :: systime
  spawns :: "bool list"

definition task_priority :: "history \<Rightarrow> string \<Rightarrow> bool \<Rightarrow> duration outcome" where
  "task_priority hist target_id urgent =
     dur_add (case history_get hist target_id of None \<Rightarrow> from_secs 1 | Some d \<Rightarrow> d)
       (from_secs (if urgent then 300 else 0))"

definition remote_is_client ::
  "'q task_pq \<Rightarrow> event_env \<Rightarrow> nat \<Rightarrow> task_details \<Rightarrow> 'q server_state \<Rightarrow> 'q server_state outcome" where
  "remote_is_client Q E conn_id details s =
     and_then (get_target_id details) (\<lambda>target_id.
     and_then (task_priority (prior_history s) target_id (priority_task details)) (\<lambda>prior.
     and_then (index (remotes s) conn_id) (\<lambda>r.
       update Q (spawns E) (at_check E)
         ((set_remote conn_id (r\<lparr>conn_type := Client\<rparr>) s)
            \<lparr>task_queue := pq_push Q (conn_id, details) prior (task_queue s),
             last_submit_time := Some (at_submit E)\<rparr>))))"

definition exec_is_ready ::
  "'q task_pq \<Rightarrow> event_env \<Rightarrow> nat \<Rightarrow> 'q server_state \<Rightarrow> 'q server_state outcome" where
  "exec_is_ready Q E conn_id s =
     and_then (index (remotes s) conn_id) (\<lambda>r.
       update Q (spawns E) (at_check E)
         ((set_remote conn_id (r\<lparr>paired_id := None\<rparr>) s)\<lparr>exec_queue := exec_queue s @ [conn_id]\<rparr>))"

definition remote_is_exec ::
  "'q task_pq \<Rightarrow> event_env \<Rightarrow> nat \<Rightarrow> bool \<Rightarrow> 'q server_state \<Rightarrow> 'q server_state outcome" where
  "remote_is_exec Q E conn_id second_queue s =
     and_then (index (remotes s) conn_id) (\<lambda>r.
       let s = (set_remote conn_id (r\<lparr>conn_type := Exec\<rparr>) s)
                 \<lparr>running_exec_count := running_exec_count s + 1\<rparr>;
           s = (if \<not> second_queue \<and> pending_exec_count s > 0 then
                  s\<lparr>pending_exec_count := pending_exec_count s - 1\<rparr>
                else if second_queue \<and> second_pending_exec_count s > 0 then
                  s\<lparr>second_pending_exec_count := second_pending_exec_count s - 1\<rparr>
                else s)
       in exec_is_ready Q E conn_id s)"

section \<open>Handling messages\<close>

text \<open>
  \<open>handle_msg\<close>; \<open>bytes_add\<close> is the addition of the byte-count library.  Cancellation is not
  implemented in the source, and a remote that sends \<open>PissOff\<close> makes the server panic.
\<close>

definition handle_msg ::
  "'q task_pq \<Rightarrow> (nat \<Rightarrow> nat \<Rightarrow> nat) \<Rightarrow> event_env \<Rightarrow> nat \<Rightarrow> message \<Rightarrow> 'q server_state \<Rightarrow>
     'q server_state outcome" where
  "handle_msg Q bytes_add E conn_id msg s =
     (case msg of
        YourObedientServant code _ \<Rightarrow> remote_is_exec Q E conn_id (code AND 1 \<noteq> 0) s
      | Task _ _ details \<Rightarrow>
          remote_is_client Q E conn_id details (s\<lparr>submit_count := submit_count s + 1\<rparr>)
      | TaskOutput output_type content \<Rightarrow>
          send_to_paired_remote conn_id (TaskOutput output_type content)
            (s\<lparr>total_bytes := bytes_add (total_bytes s) (length content),
               bytes_this_period := bytes_add (bytes_this_period s) (length content)\<rparr>)
      | TaskDone exit_code target_id run_time send_time \<Rightarrow>
          let s = (if exit_code = Some 0 then record_elapsed (at_record E) target_id run_time s else s)
          in and_then (send_to_paired_remote conn_id msg s) (\<lambda>s.
             and_then (exec_is_ready Q E conn_id (s\<lparr>finish_count := finish_count s + 1\<rparr>)) (\<lambda>s.
             and_then (dur_add (total_run_time s) run_time) (\<lambda>total_run.
             and_then (dur_add (total_send_time s) send_time) (\<lambda>total_send.
               Inr (s\<lparr>total_run_time := total_run, total_send_time := total_send,
                      peak_send_time := max (peak_send_time s) send_time\<rparr>)))))
      | TaskFailed _ \<Rightarrow>
          and_then (send_to_paired_remote conn_id msg s) (\<lambda>s.
            exec_is_ready Q E conn_id (s\<lparr>finish_count := finish_count s + 1\<rparr>))
      | CancelTask \<Rightarrow> Inl (Panic ''not implemented: Task cancellation'')
      | Dropped \<Rightarrow> handle_dropped conn_id s
      | PissOff \<Rightarrow> Inl (Panic ''A lowly remote should never tell the server to piss off''))"

end
