(* ===== verification/Server_Inv.thy ===== *)
theory Server_Inv
  imports Server
begin

text \<open>
  The invariant of the server state and its preservation by every operation.  The invariant
  ties the queues, the pairing of clients with executors and the counters together; it is
  what makes the assertions of the source hold, so preservation is stated with \<open>safely\<close>: an
  operation that starts in a good state does not panic and ends in a good state.
\<close>

section \<open>The invariant\<close>

definition is_live_exec :: "remote \<Rightarrow> bool" where
  "is_live_exec r \<longleftrightarrow> conn_type r = Exec"

definition is_busy_exec :: "remote \<Rightarrow> bool" where
  "is_busy_exec r \<longleftrightarrow> conn_type r = Exec \<and> paired_id r \<noteq> None"

text \<open>
  Idle executors are queued once each and are not paired.  An executor that dropped its
  connection while it was idle stays in the queue; the receiver of its channel is gone.
\<close>

definition exec_queue_inv :: "remote list \<Rightarrow> nat list \<Rightarrow> bool" where
  "exec_queue_inv rs eq \<longleftrightarrow>
     distinct eq \<and>
     (\<forall>e \<in> set eq. e < length rs \<and> paired_id (rs ! e) = None \<and>
        (conn_type (rs ! e) = Exec \<or> conn_type (rs ! e) = Dead \<and> \<not> chan_open (send_chan (rs ! e)))) \<and>
     (\<forall>e < length rs. conn_type (rs ! e) = Exec \<and> paired_id (rs ! e) = None \<longrightarrow> e \<in> set eq)"

text \<open>A queued task belongs to a client, possibly gone, that is not paired; a client queues one task.\<close>

definition task_queue_inv :: "remote list \<Rightarrow> nat list \<Rightarrow> task_item set \<Rightarrow> bool" where
  "task_queue_inv rs eq its \<longleftrightarrow>
     (\<forall>(c, d) \<in> its. c < length rs \<and> conn_type (rs ! c) \<in> {Client, Dead} \<and>
        paired_id (rs ! c) = None \<and> c \<notin> set eq \<and> wf_task d) \<and>
     inj_on fst its"

text \<open>The client of a busy executor points back to it.\<close>

definition pairing_inv :: "remote list \<Rightarrow> bool" where
  "pairing_inv rs \<longleftrightarrow>
     (\<forall>e < length rs. \<forall>p. conn_type (rs ! e) = Exec \<and> paired_id (rs ! e) = Some p \<longrightarrow>
        unat p < length rs \<and> conn_type (rs ! unat p) \<in> {Client, Dead} \<and>
        paired_id (rs ! unat p) = Some (word_of_nat e))"

text \<open>A connection that has not identified itself is not used anywhere.\<close>

definition pending_inv :: "remote list \<Rightarrow> nat list \<Rightarrow> task_item set \<Rightarrow> bool" where
  "pending_inv rs eq its \<longleftrightarrow>
     (\<forall>i < length rs. conn_type (rs ! i) = Pending \<longrightarrow>
        paired_id (rs ! i) = None \<and> i \<notin> set eq \<and> i \<notin> fst ` its)"

definition wiring_inv :: "remote list \<Rightarrow> nat list \<Rightarrow> task_item set \<Rightarrow> bool" where
  "wiring_inv rs eq its \<longleftrightarrow>
     exec_queue_inv rs eq \<and> task_queue_inv rs eq its \<and> pairing_inv rs \<and> pending_inv rs eq its"

text \<open>
  The counters: every live executor is counted as running, and every submitted task that is
  neither finished, queued nor being executed was lost with its executor.
\<close>

definition server_inv :: "('q \<Rightarrow> (task_item \<rightharpoonup> duration)) \<Rightarrow> ('q \<Rightarrow> bool) \<Rightarrow> 'q server_state \<Rightarrow> bool" where
  "server_inv items q_ok s \<longleftrightarrow>
     q_ok (task_queue s) \<and> length (remotes s) \<le> 2 ^ 32 \<and>
     wiring_inv (remotes s) (exec_queue s) (dom (items (task_queue s))) \<and>
     running_exec_count s = length (filter is_live_exec (remotes s)) \<and>
     finish_count s + card (dom (items (task_queue s))) + length (filter is_busy_exec (remotes s))
       \<le> submit_count s"

text \<open>
  A remote that changes its type only by dying as a client, keeps its pairing, and whose
  channel may lose its receiver.
\<close>

definition same_role :: "remote \<Rightarrow> remote \<Rightarrow> bool" where
  "same_role r r' \<longleftrightarrow>
     paired_id r' = paired_id r \<and> (chan_open (send_chan r') \<longrightarrow> chan_open (send_chan r)) \<and>
     (conn_type r' = conn_type r \<or> conn_type r = Client \<and> conn_type r' = Dead)"

section \<open>Reading and establishing the parts\<close>

lemma exec_queueI:
  assumes "distinct eq"
    and "\<And>e. e \<in> set eq \<Longrightarrow> e < length rs \<and> paired_id (rs ! e) = None \<and>
      (conn_type (rs ! e) = Exec \<or> conn_type (rs ! e) = Dead \<and> \<not> chan_open (send_chan (rs ! e)))"
    and "\<And>e. e < length rs \<Longrightarrow> conn_type (rs ! e) = Exec \<Longrightarrow> paired_id (rs ! e) = None \<Longrightarrow> e \<in> set eq"
  shows "exec_queue_inv rs eq"
  using assms unfolding exec_queue_inv_def by blast

lemma exec_queueD:
  assumes "exec_queue_inv rs eq"
  shows "distinct eq"
    and "e \<in> set eq \<Longrightarrow> e < length rs"
    and "e \<in> set eq \<Longrightarrow> paired_id (rs ! e) = None"
    and "e \<in> set eq \<Longrightarrow> conn_type (rs ! e) = Exec \<or> conn_type (rs ! e) = Dead \<and> \<not> chan_open (send_chan (rs ! e))"
    and "e < length rs \<Longrightarrow> conn_type (rs ! e) = Exec \<Longrightarrow> paired_id (rs ! e) = None \<Longrightarrow> e \<in> set eq"
  using assms unfolding exec_queue_inv_def by blast+

lemma task_queueD:
  assumes "task_queue_inv rs eq its"
  shows "(c, d) \<in> its \<Longrightarrow> c < length rs"
    and "(c, d) \<in> its \<Longrightarrow> conn_type (rs ! c) = Client \<or> conn_type (rs ! c) = Dead"
    and "(c, d) \<in> its \<Longrightarrow> paired_id (rs ! c) = None"
    and "(c, d) \<in> its \<Longrightarrow> c \<notin> set eq"
    and "(c, d) \<in> its \<Longrightarrow> wf_task d"
    and "(c, d) \<in> its \<Longrightarrow> (c, d') \<in> its \<Longrightarrow> d' = d"
  using assms unfolding task_queue_inv_def by (blast, blast, blast, blast, blast, force simp: inj_on_def)

lemma task_queueI:
  assumes "\<And>c d. (c, d) \<in> its \<Longrightarrow> c < length rs \<and>
      (conn_type (rs ! c) = Client \<or> conn_type (rs ! c) = Dead) \<and>
      paired_id (rs ! c) = None \<and> c \<notin> set eq \<and> wf_task d"
    and "\<And>c d d'. (c, d) \<in> its \<Longrightarrow> (c, d') \<in> its \<Longrightarrow> d' = d"
  shows "task_queue_inv rs eq its"
  using assms unfolding task_queue_inv_def inj_on_def by fastforce

lemma pairingD:
  assumes "pairing_inv rs" "e < length rs" "conn_type (rs ! e) = Exec" "paired_id (rs ! e) = Some p"
  shows "unat p < length rs"
    and "conn_type (rs ! unat p) = Client \<or> conn_type (rs ! unat p) = Dead"
    and "paired_id (rs ! unat p) = Some (word_of_nat e)"
  using assms unfolding pairing_inv_def by blast+

lemma pairingI:
  assumes "\<And>e p. e < length rs \<Longrightarrow> conn_type (rs ! e) = Exec \<Longrightarrow> paired_id (rs ! e) = Some p \<Longrightarrow>
    unat p < length rs \<and> (conn_type (rs ! unat p) = Client \<or> conn_type (rs ! unat p) = Dead) \<and>
    paired_id (rs ! unat p) = Some (word_of_nat e)"
  shows "pairing_inv rs"
  using assms unfolding pairing_inv_def by blast

lemma pendingD:
  assumes "pending_inv rs eq its" "i < length rs" "conn_type (rs ! i) = Pending"
  shows "paired_id (rs ! i) = None" and "i \<notin> set eq" and "(i, d) \<notin> its"
  using assms unfolding pending_inv_def by force+

lemma pendingI:
  assumes "\<And>i. i < length rs \<Longrightarrow> conn_type (rs ! i) = Pending \<Longrightarrow>
    paired_id (rs ! i) = None \<and> i \<notin> set eq \<and> (\<forall>d. (i, d) \<notin> its)"
  shows "pending_inv rs eq its"
  using assms unfolding pending_inv_def by force

lemma wiringD:
  assumes "wiring_inv rs eq its"
  shows "exec_queue_inv rs eq" "task_queue_inv rs eq its" "pairing_inv rs" "pending_inv rs eq its"
  using assms unfolding wiring_inv_def by blast+

lemma server_invD:
  assumes "server_inv items q_ok s"
  shows "q_ok (task_queue s)" "length (remotes s) \<le> 2 ^ 32"
    "wiring_inv (remotes s) (exec_queue s) (dom (items (task_queue s)))"
    "running_exec_count s = length (filter is_live_exec (remotes s))"
    "finish_count s + card (dom (items (task_queue s))) + length (filter is_busy_exec (remotes s))
       \<le> submit_count s"
  using assms unfolding server_inv_def by blast+

lemma server_inv_same:
  assumes "remotes s' = remotes s" "task_queue s' = task_queue s" "exec_queue s' = exec_queue s"
    "submit_count s' = submit_count s" "finish_count s' = finish_count s"
    "running_exec_count s' = running_exec_count s"
  shows "server_inv items q_ok s' = server_inv items q_ok s"
  using assms by (simp add: server_inv_def)

lemma unat_id: "i < (2 :: nat) ^ 32 \<Longrightarrow> unat (word_of_nat i :: u32) = i"
  by (simp add: unat_of_nat take_bit_nat_eq_self)

lemma chan_send_eq_Inr [simp]:
  "chan_send ch m = Inr ch' \<longleftrightarrow> chan_open ch \<and> ch' = ch\<lparr>chan_sent := chan_sent ch @ [m]\<rparr>"
  by (auto simp: chan_send_def)

lemma safely_chan_send [intro]:
  "(chan_open ch \<Longrightarrow> P (ch\<lparr>chan_sent := chan_sent ch @ [m]\<rparr>)) \<Longrightarrow> safely P (chan_send ch m)"
  by (auto simp: chan_send_def)

section \<open>Replacing one remote\<close>

text \<open>
  What has to be checked when remote \<open>i\<close> is replaced by \<open>r\<close> and the queues change at \<open>i\<close>
  only: the new remote fits the new queues, and the executors that point to \<open>i\<close> still may.
\<close>

definition fits ::
  "remote list \<Rightarrow> nat list \<Rightarrow> task_item set \<Rightarrow> nat \<Rightarrow> remote \<Rightarrow> nat list \<Rightarrow> task_item set \<Rightarrow> bool" where
  "fits rs eq its i r eq' its' \<longleftrightarrow>
     i < length rs \<and> distinct eq' \<and>
     (\<forall>e. e \<noteq> i \<longrightarrow> (e \<in> set eq' \<longleftrightarrow> e \<in> set eq)) \<and>
     (\<forall>c d. c \<noteq> i \<longrightarrow> ((c, d) \<in> its' \<longleftrightarrow> (c, d) \<in> its)) \<and>
     (i \<in> set eq' \<longrightarrow> paired_id r = None \<and>
        (conn_type r = Exec \<or> conn_type r = Dead \<and> \<not> chan_open (send_chan r))) \<and>
     (conn_type r = Exec \<and> paired_id r = None \<longrightarrow> i \<in> set eq') \<and>
     (\<forall>d. (i, d) \<in> its' \<longrightarrow> (conn_type r = Client \<or> conn_type r = Dead) \<and>
        paired_id r = None \<and> i \<notin> set eq' \<and> wf_task d) \<and>
     (\<forall>d d'. (i, d) \<in> its' \<and> (i, d') \<in> its' \<longrightarrow> d' = d) \<and>
     (\<forall>p. conn_type r = Exec \<and> paired_id r = Some p \<longrightarrow>
        unat p < length rs \<and> unat p \<noteq> i \<and>
        (conn_type (rs ! unat p) = Client \<or> conn_type (rs ! unat p) = Dead) \<and>
        paired_id (rs ! unat p) = Some (word_of_nat i)) \<and>
     (\<forall>e p. e < length rs \<and> e \<noteq> i \<and> conn_type (rs ! e) = Exec \<and> paired_id (rs ! e) = Some p \<and>
        unat p = i \<longrightarrow>
        (conn_type r = Client \<or> conn_type r = Dead) \<and> paired_id r = Some (word_of_nat e)) \<and>
     (conn_type r = Pending \<longrightarrow>
        paired_id r = None \<and> i \<notin> set eq' \<and> (\<forall>d. (i, d) \<notin> its'))"

lemma fitsD:
  assumes "fits rs eq its i r eq' its'"
  shows "i < length rs" "distinct eq'"
    and "e \<noteq> i \<Longrightarrow> e \<in> set eq' \<longleftrightarrow> e \<in> set eq"
    and "c \<noteq> i \<Longrightarrow> (c, d) \<in> its' \<longleftrightarrow> (c, d) \<in> its"
    and "i \<in> set eq' \<Longrightarrow> paired_id r = None \<and>
      (conn_type r = Exec \<or> conn_type r = Dead \<and> \<not> chan_open (send_chan r))"
    and "conn_type r = Exec \<Longrightarrow> paired_id r = None \<Longrightarrow> i \<in> set eq'"
    and "(i, d) \<in> its' \<Longrightarrow> (conn_type r = Client \<or> conn_type r = Dead) \<and>
      paired_id r = None \<and> i \<notin> set eq' \<and> wf_task d"
    and "(i, d) \<in> its' \<Longrightarrow> (i, d') \<in> its' \<Longrightarrow> d' = d"
    and "conn_type r = Exec \<Longrightarrow> paired_id r = Some p \<Longrightarrow>
      unat p < length rs \<and> unat p \<noteq> i \<and>
      (conn_type (rs ! unat p) = Client \<or> conn_type (rs ! unat p) = Dead) \<and>
      paired_id (rs ! unat p) = Some (word_of_nat i)"
    and "e < length rs \<Longrightarrow> e \<noteq> i \<Longrightarrow> conn_type (rs ! e) = Exec \<Longrightarrow>
      paired_id (rs ! e) = Some p \<Longrightarrow> unat p = i \<Longrightarrow>
      (conn_type r = Client \<or> conn_type r = Dead) \<and> paired_id r = Some (word_of_nat e)"
    and "conn_type r = Pending \<Longrightarrow>
      paired_id r = None \<and> i \<notin> set eq' \<and> (\<forall>d. (i, d) \<notin> its')"
  using assms unfolding fits_def by blast+

lemma nth_update: "i < length rs \<Longrightarrow> rs[i := r] ! j = (if j = i then r else rs ! j)"
  by (simp add: nth_list_update)

lemma fits_exec_queue:
  assumes wiring: "wiring_inv rs eq its" and fit: "fits rs eq its i r eq' its'"
  shows "exec_queue_inv (rs[i := r]) eq'"
proof (rule exec_queueI)
  note F = fitsD [OF fit]
  note nth = nth_update [OF F(1)]
  note eqD = exec_queueD [OF wiringD(1) [OF wiring]]
  fix e
  { assume "e \<in> set eq'"
    then show "e < length (rs[i := r]) \<and> paired_id (rs[i := r] ! e) = None \<and>
        (conn_type (rs[i := r] ! e) = Exec \<or>
         conn_type (rs[i := r] ! e) = Dead \<and> \<not> chan_open (send_chan (rs[i := r] ! e)))"
      using eqD(2-4) [of e] F(3) [of e] F(1,5) by (auto simp: nth) }
  assume "e < length (rs[i := r])" "conn_type (rs[i := r] ! e) = Exec" "paired_id (rs[i := r] ! e) = None"
  then show "e \<in> set eq'"
    using eqD(5) [of e] F(3) [of e] F(6) by (simp add: nth split: if_splits)
qed (rule fitsD(2) [OF fit])

lemma fits_task_queue:
  assumes wiring: "wiring_inv rs eq its" and fit: "fits rs eq its i r eq' its'"
  shows "task_queue_inv (rs[i := r]) eq' its'"
proof (rule task_queueI)
  note F = fitsD [OF fit]
  note nth = nth_update [OF F(1)]
  note tqD = task_queueD [OF wiringD(2) [OF wiring]]
  fix c d assume c: "(c, d) \<in> its'"
  show "c < length (rs[i := r]) \<and>
      (conn_type (rs[i := r] ! c) = Client \<or> conn_type (rs[i := r] ! c) = Dead) \<and>
      paired_id (rs[i := r] ! c) = None \<and> c \<notin> set eq' \<and> wf_task d"
  proof (cases "c = i")
    case True
    with c F(7) [of d] F(1) show ?thesis by (simp add: nth)
  next
    case False
    with c tqD(1-5) [of c d] F(4) [of c d] F(3) [of c] show ?thesis by (simp add: nth)
  qed
next
  note F = fitsD [OF fit]
  note tqD = task_queueD [OF wiringD(2) [OF wiring]]
  fix c d d' assume "(c, d) \<in> its'" "(c, d') \<in> its'"
  then show "d' = d"
    using tqD(6) [of c d d'] F(4) [of c] F(8) [of d d'] by (cases "c = i") simp_all
qed

lemma fits_pairing:
  assumes wiring: "wiring_inv rs eq its" and fit: "fits rs eq its i r eq' its'"
  shows "pairing_inv (rs[i := r])"
proof (rule pairingI)
  note F = fitsD [OF fit]
  note nth = nth_update [OF F(1)]
  fix e p assume e: "e < length (rs[i := r])" "conn_type (rs[i := r] ! e) = Exec"
    "paired_id (rs[i := r] ! e) = Some p"
  show "unat p < length (rs[i := r]) \<and>
      (conn_type (rs[i := r] ! unat p) = Client \<or> conn_type (rs[i := r] ! unat p) = Dead) \<and>
      paired_id (rs[i := r] ! unat p) = Some (word_of_nat e)"
  proof (cases "e = i")
    case True
    with e F(9) [of p] show ?thesis by (simp add: nth)
  next
    case False
    with e have e': "e < length rs" "conn_type (rs ! e) = Exec" "paired_id (rs ! e) = Some p"
      by (simp_all add: nth)
    show ?thesis
      using pairingD [OF wiringD(3) [OF wiring] e'] F(10) [OF e'(1) False e'(2,3)]
      by (cases "unat p = i") (simp_all add: nth)
  qed
qed

lemma fits_pending:
  assumes wiring: "wiring_inv rs eq its" and fit: "fits rs eq its i r eq' its'"
  shows "pending_inv (rs[i := r]) eq' its'"
proof (rule pendingI)
  note F = fitsD [OF fit]
  note nth = nth_update [OF F(1)]
  fix j assume j: "j < length (rs[i := r])" "conn_type (rs[i := r] ! j) = Pending"
  show "paired_id (rs[i := r] ! j) = None \<and> j \<notin> set eq' \<and> (\<forall>d. (j, d) \<notin> its')"
  proof (cases "j = i")
    case True
    with j F(11) show ?thesis by (simp add: nth)
  next
    case False
    with j show ?thesis
      using pendingD [OF wiringD(4) [OF wiring], of j] F(3) [of j] F(4) [of j] by (simp add: nth)
  qed
qed

lemma fits_wiring:
  assumes "wiring_inv rs eq its" and "fits rs eq its i r eq' its'"
  shows "wiring_inv (rs[i := r]) eq' its'"
  using fits_exec_queue [OF assms] fits_task_queue [OF assms] fits_pairing [OF assms]
    fits_pending [OF assms] by (simp add: wiring_inv_def)

text \<open>The same for a whole state, with the counters.\<close>

lemma server_inv_update:
  assumes inv: "server_inv items q_ok s"
    and fit: "fits (remotes s) (exec_queue s) (dom (items (task_queue s))) i r
      (exec_queue s') (dom (items (task_queue s')))"
    and rs: "remotes s' = (remotes s)[i := r]" and q: "q_ok (task_queue s')"
    and live: "running_exec_count s' + (if is_live_exec (remotes s ! i) then 1 else 0) =
      running_exec_count s + (if is_live_exec r then 1 else 0)"
    and cnt: "finish_count s' + card (dom (items (task_queue s'))) + (if is_busy_exec r then 1 else 0) +
        submit_count s \<le>
      finish_count s + card (dom (items (task_queue s))) +
        (if is_busy_exec (remotes s ! i) then 1 else 0) + submit_count s'"
  shows "server_inv items q_ok s'"
proof -
  note D = server_invD [OF inv]
  note i = fitsD(1) [OF fit]
  have "running_exec_count s' = length (filter is_live_exec (remotes s'))"
    using length_filter_update [OF i, of is_live_exec r] live D(4) rs by (simp split: if_splits)
  moreover have "finish_count s' + card (dom (items (task_queue s'))) +
      length (filter is_busy_exec (remotes s')) \<le> submit_count s'"
    using length_filter_update [OF i, of is_busy_exec r] cnt D(5) rs by (simp split: if_splits)
  ultimately show ?thesis
    using D(2) q rs fits_wiring [OF D(3) fit] by (simp add: server_inv_def)
qed

text \<open>No executor is paired with a remote that is itself not paired.\<close>

lemma not_pointed:
  assumes "wiring_inv rs eq its" "e < length rs" "conn_type (rs ! e) = Exec" "paired_id (rs ! e) = Some p"
    "paired_id (rs ! i) = None"
  shows "unat p \<noteq> i"
  using pairingD(3) [OF wiringD(3) [OF assms(1)] assms(2-4)] assms(5) by auto

lemma not_pointed_exec:
  assumes "wiring_inv rs eq its" "e < length rs" "conn_type (rs ! e) = Exec" "paired_id (rs ! e) = Some p"
    "conn_type (rs ! i) = Exec"
  shows "unat p \<noteq> i"
  using pairingD(2) [OF wiringD(3) [OF assms(1)] assms(2-4)] assms(5) by auto

section \<open>The transitions of the state\<close>

lemma same_role_busy:
  assumes W: "wiring_inv rs eq its" and i: "i < length rs" and role: "same_role (rs ! i) r"
    and "conn_type r = Exec" and "paired_id r = Some p"
  shows "unat p < length rs \<and> unat p \<noteq> i \<and> (conn_type (rs ! unat p) = Client \<or> conn_type (rs ! unat p) = Dead) \<and>
    paired_id (rs ! unat p) = Some (word_of_nat i)"
proof -
  have "conn_type (rs ! i) = Exec" "paired_id (rs ! i) = Some p"
    using assms(4,5) role by (auto simp: same_role_def)
  then show ?thesis using pairingD [OF wiringD(3) [OF W] i] not_pointed_exec [OF W i] by blast
qed

lemma same_role_pointed:
  assumes "wiring_inv rs eq its" and "same_role (rs ! i) r"
    and "e < length rs" "conn_type (rs ! e) = Exec" "paired_id (rs ! e) = Some p" "unat p = i"
  shows "conn_type r \<in> {Client, Dead}" and "paired_id r = Some (word_of_nat e)"
  using pairingD(2,3) [OF wiringD(3) [OF assms(1)] assms(3-5)] assms(2,6) by (auto simp: same_role_def)

lemma fits_same_role:
  assumes W: "wiring_inv rs eq its" and i: "i < length rs" and role: "same_role (rs ! i) r"
  shows "fits rs eq its i r eq its"
  unfolding fits_def
proof (intro conjI allI impI, goal_cases)
  note eqD = exec_queueD [OF wiringD(1) [OF W]] and tqD = task_queueD [OF wiringD(2) [OF W]]
  {
    case 5
    then show ?case using eqD(3) [of i] role by (simp add: same_role_def)
  next
    case 6
    then show ?case using eqD(4) [of i] role by (auto simp: same_role_def)
  next
    case 7
    then show ?case using eqD(5) [OF i] role by (auto simp: same_role_def)
  next
    case (8 d)
    then show ?case using tqD(2) [of i d] role by (auto simp: same_role_def)
  next
    case (9 d)
    then show ?case using tqD(3) [of i d] role by (simp add: same_role_def)
  next
    case (12 d d')
    then show ?case using tqD(6) [of i d d'] by simp
  next
    case (17 e p)
    then show ?case using same_role_pointed(1) [OF W role, of e p] by simp
  next
    case (18 e p)
    then show ?case using same_role_pointed(2) [OF W role, of e p] by simp
  next
    case 19
    then show ?case using pendingD(1) [OF wiringD(4) [OF W] i] role by (auto simp: same_role_def)
  next
    case 20
    then show ?case using pendingD(2) [OF wiringD(4) [OF W] i] role by (auto simp: same_role_def)
  next
    case (21 d)
    then show ?case using pendingD(3) [OF wiringD(4) [OF W] i] role by (auto simp: same_role_def)
  }
qed (use i exec_queueD(1) [OF wiringD(1) [OF W]] task_queueD(4,5) [OF wiringD(2) [OF W], of i]
      same_role_busy [OF assms] in simp_all)

lemma inv_same_role:
  assumes inv: "server_inv items q_ok s" and i: "i < length (remotes s)"
    and role: "same_role (remotes s ! i) r"
  shows "server_inv items q_ok (set_remote i r s)"
  using fits_same_role [OF server_invD(3) [OF inv] i role]
  by (intro server_inv_update [OF inv, where i = i and r = r])
    (use role server_invD(1) [OF inv] in \<open>auto simp: set_remote_def same_role_def is_live_exec_def is_busy_exec_def\<close>)

text \<open>A pending connection turns out to be a client that submits a task.\<close>

lemma inv_new_client:
  assumes inv: "server_inv items q_ok s" and i: "i < length (remotes s)"
    and pend: "conn_type (remotes s ! i) = Pending"
    and q: "q_ok q" "dom (items q) = insert (i, d) (dom (items (task_queue s)))"
    and fin: "finite (dom (items (task_queue s)))" and wf: "wf_task d"
    and s': "remotes s' = (remotes s)[i := (remotes s ! i)\<lparr>conn_type := Client\<rparr>]" "task_queue s' = q"
      "exec_queue s' = exec_queue s" "submit_count s' = submit_count s + 1"
      "finish_count s' = finish_count s" "running_exec_count s' = running_exec_count s"
  shows "server_inv items q_ok s'"
proof (rule server_inv_update [OF inv _ s'(1)])
  note W = server_invD(3) [OF inv]
  note pD = pendingD [OF wiringD(4) [OF W] i pend]
  show "fits (remotes s) (exec_queue s) (dom (items (task_queue s))) i
      ((remotes s ! i)\<lparr>conn_type := Client\<rparr>) (exec_queue s') (dom (items (task_queue s')))"
    unfolding fits_def s' q(2)
    using i pD wf exec_queueD(1) [OF wiringD(1) [OF W]] not_pointed [OF W _ _ _ pD(1)] by auto
qed (use pend q fin pendingD(3) [OF wiringD(4) [OF server_invD(3) [OF inv]] i pend] in
    \<open>simp_all add: s' is_live_exec_def is_busy_exec_def\<close>)

text \<open>A pending connection turns out to be an executor and becomes idle.\<close>

lemma inv_new_exec:
  assumes inv: "server_inv items q_ok s" and i: "i < length (remotes s)"
    and pend: "conn_type (remotes s ! i) = Pending"
    and s': "remotes s' = (remotes s)[i := (remotes s ! i)\<lparr>conn_type := Exec, paired_id := None\<rparr>]"
      "task_queue s' = task_queue s" "exec_queue s' = exec_queue s @ [i]"
      "submit_count s' = submit_count s" "finish_count s' = finish_count s"
      "running_exec_count s' = running_exec_count s + 1"
  shows "server_inv items q_ok s'"
proof (rule server_inv_update [OF inv _ s'(1)])
  note W = server_invD(3) [OF inv]
  note pD = pendingD [OF wiringD(4) [OF W] i pend]
  show "fits (remotes s) (exec_queue s) (dom (items (task_queue s))) i
      ((remotes s ! i)\<lparr>conn_type := Exec, paired_id := None\<rparr>) (exec_queue s') (dom (items (task_queue s')))"
    unfolding fits_def s'
    using i pD exec_queueD(1) [OF wiringD(1) [OF W]] not_pointed [OF W _ _ _ pD(1)] by auto
qed (use pend server_invD(1) [OF inv] in \<open>simp_all add: s' is_live_exec_def is_busy_exec_def\<close>)

text \<open>A busy executor finishes its task and becomes idle.\<close>

lemma inv_free_exec:
  assumes inv: "server_inv items q_ok s" and i: "i < length (remotes s)"
    and exec: "conn_type (remotes s ! i) = Exec" "paired_id (remotes s ! i) = Some p"
    and s': "remotes s' = (remotes s)[i := (remotes s ! i)\<lparr>paired_id := None\<rparr>]"
      "task_queue s' = task_queue s" "exec_queue s' = exec_queue s @ [i]"
      "submit_count s' = submit_count s" "finish_count s' = finish_count s + 1"
      "running_exec_count s' = running_exec_count s"
  shows "server_inv items q_ok s'"
proof (rule server_inv_update [OF inv _ s'(1)])
  note W = server_invD(3) [OF inv]
  note eqD = exec_queueD [OF wiringD(1) [OF W]]
  have "i \<notin> set (exec_queue s)" "\<And>d. (i, d) \<notin> dom (items (task_queue s))"
    using eqD(3) [of i] task_queueD(2) [OF wiringD(2) [OF W], of i] exec by auto
  then show "fits (remotes s) (exec_queue s) (dom (items (task_queue s))) i
      ((remotes s ! i)\<lparr>paired_id := None\<rparr>) (exec_queue s') (dom (items (task_queue s')))"
    unfolding fits_def s' using i exec eqD(1) not_pointed_exec [OF W _ _ _ exec(1)] by auto
qed (use exec server_invD(1) [OF inv] in \<open>simp_all add: s' is_live_exec_def is_busy_exec_def\<close>)

text \<open>
  A remote dies.  An idle executor leaves a dangling entry in the queue, which is tolerated
  only if the receiver of its channel is gone.
\<close>

lemma inv_dead:
  assumes inv: "server_inv items q_ok s" and i: "i < length (remotes s)"
    and closed: "i \<in> set (exec_queue s) \<Longrightarrow> \<not> chan_open (send_chan (remotes s ! i))"
    and s': "remotes s' = (remotes s)[i := (remotes s ! i)\<lparr>conn_type := Dead\<rparr>]"
      "task_queue s' = task_queue s" "exec_queue s' = exec_queue s"
      "submit_count s' = submit_count s" "finish_count s' = finish_count s"
      "running_exec_count s' + (if is_live_exec (remotes s ! i) then 1 else 0) = running_exec_count s"
  shows "server_inv items q_ok s'"
proof (rule server_inv_update [OF inv _ s'(1)])
  note W = server_invD(3) [OF inv]
  note eqD = exec_queueD [OF wiringD(1) [OF W]] and tqD = task_queueD [OF wiringD(2) [OF W]]
  have "paired_id (remotes s ! i) = Some (word_of_nat e)"
    if "e < length (remotes s)" "conn_type (remotes s ! e) = Exec" "paired_id (remotes s ! e) = Some p"
      "unat p = i" for e p
    using pairingD(3) [OF wiringD(3) [OF W] that(1-3)] that(4) by simp
  then show "fits (remotes s) (exec_queue s) (dom (items (task_queue s))) i
      ((remotes s ! i)\<lparr>conn_type := Dead\<rparr>) (exec_queue s') (dom (items (task_queue s')))"
    unfolding fits_def s'
    using i closed eqD(1) eqD(3) [of i] tqD(3-5) [of i] tqD(6) [of i] by (simp split: if_splits)
qed (use s' server_invD(1) [OF inv] in \<open>auto simp: is_live_exec_def is_busy_exec_def\<close>)

text \<open>The executor at the head of the queue is released: it must be alive to receive the message.\<close>

lemma inv_release:
  assumes inv: "server_inv items q_ok s" and eq: "exec_queue s = e # es"
    and opn: "chan_open (send_chan (remotes s ! e))"
    and s': "remotes s' = (remotes s)[e := (remotes s ! e)\<lparr>conn_type := Dead, send_chan := ch\<rparr>]"
      "task_queue s' = task_queue s" "exec_queue s' = es"
      "submit_count s' = submit_count s" "finish_count s' = finish_count s"
      "running_exec_count s' = running_exec_count s - 1"
  shows "server_inv items q_ok s'" and "1 \<le> running_exec_count s"
proof -
  note W = server_invD(3) [OF inv]
  note eqD = exec_queueD [OF wiringD(1) [OF W]] and tqD = task_queueD [OF wiringD(2) [OF W]]
  have e: "e < length (remotes s)" "conn_type (remotes s ! e) = Exec" "paired_id (remotes s ! e) = None"
    using eqD(2-4) [of e] opn by (auto simp: eq)
  have "is_live_exec (remotes s ! e)" using e by (simp add: is_live_exec_def)
  then have "filter is_live_exec (remotes s) \<noteq> []"
    using e(1) by (auto simp: filter_empty_conv)
  then show pos: "1 \<le> running_exec_count s"
    using server_invD(4) [OF inv] by (cases "filter is_live_exec (remotes s)") auto
  show "server_inv items q_ok s'"
  proof (rule server_inv_update [OF inv _ s'(1)])
    show "fits (remotes s) (exec_queue s) (dom (items (task_queue s))) e
        ((remotes s ! e)\<lparr>conn_type := Dead, send_chan := ch\<rparr>) (exec_queue s') (dom (items (task_queue s')))"
      unfolding fits_def s'
      using e eqD(1) tqD(4) [of e] not_pointed [OF W _ _ _ e(3)] by (auto simp: eq)
  qed (use e pos server_invD(1) [OF inv] in \<open>simp_all add: s' is_live_exec_def is_busy_exec_def\<close>)
qed

text \<open>A queued task is paired with the executor at the head of the queue.\<close>

lemma inv_assign:
  assumes inv: "server_inv items q_ok s" and eq: "exec_queue s = e # es"
    and opn: "chan_open (send_chan (remotes s ! e))"
    and c: "(c, d) \<in> dom (items (task_queue s))"
    and q: "q_ok q" "dom (items q) = dom (items (task_queue s)) - {(c, d)}"
    and fin: "finite (dom (items (task_queue s)))"
    and s': "remotes s' = (remotes s)[c := (remotes s ! c)\<lparr>paired_id := Some (word_of_nat e)\<rparr>,
        e := (remotes s ! e)\<lparr>paired_id := Some (word_of_nat c), send_chan := ch\<rparr>]"
      "task_queue s' = q" "exec_queue s' = es"
      "submit_count s' = submit_count s" "finish_count s' = finish_count s"
      "running_exec_count s' = running_exec_count s"
  shows "server_inv items q_ok s'"
proof -
  let ?rs = "remotes s" and ?rc = "(remotes s ! c)\<lparr>paired_id := Some (word_of_nat e)\<rparr>"
  let ?re = "(remotes s ! e)\<lparr>paired_id := Some (word_of_nat c), send_chan := ch\<rparr>"
  let ?s1 = "s\<lparr>remotes := ?rs[c := ?rc], task_queue := q\<rparr>"
  note W = server_invD(3) [OF inv]
  note eqD = exec_queueD [OF wiringD(1) [OF W]] and tqD = task_queueD [OF wiringD(2) [OF W]]
  have e: "e < length ?rs" "conn_type (?rs ! e) = Exec" "paired_id (?rs ! e) = None"
    using eqD(2-4) [of e] opn by (auto simp: eq)
  have cl: "c < length ?rs" "conn_type (?rs ! c) \<in> {Client, Dead}" "paired_id (?rs ! c) = None"
      "c \<notin> set (exec_queue s)"
    using tqD [OF c] by auto
  have ne: "c \<noteq> e" using cl(4) by (auto simp: eq)
  have wiring1: "wiring_inv (?rs[c := ?rc]) (exec_queue s) (dom (items q))"
  proof (rule fits_wiring [OF W])
    have "\<And>d'. (c, d') \<in> dom (items (task_queue s)) \<Longrightarrow> d' = d" by (rule tqD(6) [OF c])
    then show "fits ?rs (exec_queue s) (dom (items (task_queue s))) c ?rc (exec_queue s) (dom (items q))"
      unfolding fits_def q(2) using cl eqD(1) not_pointed [OF W _ _ _ cl(3)] by auto
  qed
  have wiring2: "wiring_inv (?rs[c := ?rc, e := ?re]) es (dom (items q))"
  proof (rule fits_wiring [OF wiring1])
    have u: "unat (word_of_nat c :: u32) = c"
      using cl(1) server_invD(2) [OF inv] by (intro unat_id) simp
    show "fits (?rs[c := ?rc]) (exec_queue s) (dom (items q)) e ?re es (dom (items q))"
      unfolding fits_def
      using e cl ne eqD(1) tqD(4) [of e] not_pointed [OF wiring1, where i = e]
      by (auto simp: eq u q(2))
  qed
  have "length (filter is_live_exec (?rs[c := ?rc, e := ?re])) = length (filter is_live_exec ?rs)"
    using length_filter_update [of e "?rs[c := ?rc]" is_live_exec ?re]
      length_filter_update [OF cl(1), of is_live_exec ?rc] e cl ne by (auto simp: is_live_exec_def)
  moreover have "length (filter is_busy_exec (?rs[c := ?rc, e := ?re])) = Suc (length (filter is_busy_exec ?rs))"
    using length_filter_update [of e "?rs[c := ?rc]" is_busy_exec ?re]
      length_filter_update [OF cl(1), of is_busy_exec ?rc] e cl ne by (auto simp: is_busy_exec_def)
  moreover have "card (dom (items (task_queue s))) = Suc (card (dom (items q)))"
    using c fin q(2) by (metis card_Suc_Diff1)
  ultimately show ?thesis
    using server_invD [OF inv] wiring2 q(1) by (simp add: server_inv_def s')
qed

text \<open>A new connection is accepted.\<close>

lemma exec_queue_new_pending:
  assumes W: "exec_queue_inv rs eq" and r: "conn_type r = Pending"
  shows "exec_queue_inv (rs @ [r]) eq"
proof (rule exec_queueI)
  show "distinct eq" by (rule exec_queueD(1) [OF W])
next
  fix e assume "e \<in> set eq"
  then show "e < length (rs @ [r]) \<and> paired_id ((rs @ [r]) ! e) = None \<and>
      (conn_type ((rs @ [r]) ! e) = Exec \<or>
       conn_type ((rs @ [r]) ! e) = Dead \<and> \<not> chan_open (send_chan ((rs @ [r]) ! e)))"
    using exec_queueD(2,3,4) [OF W, of e] by (simp add: nth_append less_SucI)
next
  fix e assume "e < length (rs @ [r])" "conn_type ((rs @ [r]) ! e) = Exec"
    "paired_id ((rs @ [r]) ! e) = None"
  then show "e \<in> set eq"
    using exec_queueD(5) [OF W, of e] r by (cases "e = length rs") (auto simp: nth_append)
qed

lemma task_queue_new_pending:
  assumes W: "task_queue_inv rs eq its"
  shows "task_queue_inv (rs @ [r]) eq its"
proof (rule task_queueI)
  fix c d assume cd: "(c, d) \<in> its"
  show "c < length (rs @ [r]) \<and>
      (conn_type ((rs @ [r]) ! c) = Client \<or> conn_type ((rs @ [r]) ! c) = Dead) \<and>
      paired_id ((rs @ [r]) ! c) = None \<and> c \<notin> set eq \<and> wf_task d"
    using task_queueD(1-5) [OF W cd] by (simp add: nth_append less_SucI)
qed (rule task_queueD(6) [OF W])

lemma pairing_new_pending:
  assumes W: "pairing_inv rs" and r: "conn_type r = Pending"
  shows "pairing_inv (rs @ [r])"
proof (rule pairingI)
  fix e p assume e: "e < length (rs @ [r])" "conn_type ((rs @ [r]) ! e) = Exec"
    "paired_id ((rs @ [r]) ! e) = Some p"
  then have "e < length rs" using r by (cases "e = length rs") auto
  then show "unat p < length (rs @ [r]) \<and>
      (conn_type ((rs @ [r]) ! unat p) = Client \<or> conn_type ((rs @ [r]) ! unat p) = Dead) \<and>
      paired_id ((rs @ [r]) ! unat p) = Some (word_of_nat e)"
    using e pairingD [OF W, of e p] by (simp add: nth_append less_SucI)
qed

lemma pending_new_pending:
  assumes W: "wiring_inv rs eq its" and r: "paired_id r = None"
  shows "pending_inv (rs @ [r]) eq its"
proof (rule pendingI)
  fix i assume i: "i < length (rs @ [r])" "conn_type ((rs @ [r]) ! i) = Pending"
  show "paired_id ((rs @ [r]) ! i) = None \<and> i \<notin> set eq \<and> (\<forall>d. (i, d) \<notin> its)"
  proof (cases "i = length rs")
    case True
    then show ?thesis
      using r exec_queueD(2) [OF wiringD(1) [OF W]] task_queueD(1) [OF wiringD(2) [OF W]] by fastforce
  next
    case False
    with i have "i < length rs" "conn_type (rs ! i) = Pending" by (simp_all add: nth_append)
    then show ?thesis using pendingD [OF wiringD(4) [OF W]] by (simp add: nth_append)
  qed
qed

lemma wiring_new_pending:
  assumes W: "wiring_inv rs eq its" and r: "conn_type r = Pending" "paired_id r = None"
  shows "wiring_inv (rs @ [r]) eq its"
  using exec_queue_new_pending [OF wiringD(1) [OF W] r(1)] task_queue_new_pending [OF wiringD(2) [OF W]]
    pairing_new_pending [OF wiringD(3) [OF W] r(1)] pending_new_pending [OF W r(2)]
  by (simp add: wiring_inv_def)

lemma inv_new_pending:
  assumes "server_inv items q_ok s" and "length (remotes s) < 2 ^ 32"
  shows "server_inv items q_ok (fst (add_remote s))"
  using assms wiring_new_pending [OF server_invD(3) [OF assms(1)]]
  by (simp add: server_inv_def add_remote_def is_live_exec_def is_busy_exec_def)

end
