(* ===== verification/Server_Safe.thy ===== *)
theory Server_Safe
  imports Server_Inv
begin

unbundle bit_operations_syntax

text \<open>
  Every operation of the server keeps the invariant and does not panic, provided the remotes
  follow the protocol (\<open>conforms\<close>).  The lemmas are proved once for any priority queue that
  keeps its promises, in the locale \<open>server_queue\<close>.
\<close>

section \<open>Remotes that follow the protocol\<close>

definition is_pending :: "'q server_state \<Rightarrow> nat \<Rightarrow> bool" where
  "is_pending s i \<longleftrightarrow> i < length (remotes s) \<and> conn_type (remotes s ! i) = Pending"

definition is_busy :: "'q server_state \<Rightarrow> nat \<Rightarrow> bool" where
  "is_busy s i \<longleftrightarrow> i < length (remotes s) \<and> is_busy_exec (remotes s ! i)"

text \<open>
  A connection identifies itself once; a client's task names its outputs within its arguments
  and has a priority that is a duration; only an executor that was given a task reports on
  it, with times that can be added up; the receiver of an idle executor's channel is gone when
  the loss of the connection is processed.
\<close>

definition conforms :: "'q server_state \<Rightarrow> nat \<Rightarrow> message \<Rightarrow> bool" where
  "conforms s i msg \<longleftrightarrow>
     (case msg of
        YourObedientServant _ _ \<Rightarrow> is_pending s i
      | Task _ _ d \<Rightarrow>
          is_pending s i \<and>
          (case get_target_id d of
             Inr t \<Rightarrow> returns (task_priority (prior_history s) t (priority_task d))
           | Inl _ \<Rightarrow> False)
      | TaskOutput _ _ \<Rightarrow> is_busy s i
      | TaskFailed _ \<Rightarrow> is_busy s i
      | TaskDone _ _ run_time send_time \<Rightarrow>
          is_busy s i \<and> total_run_time s + run_time \<le> dur_max \<and> total_send_time s + send_time \<le> dur_max
      | Dropped \<Rightarrow>
          i < length (remotes s) \<and>
          (i \<in> set (exec_queue s) \<longrightarrow> \<not> chan_open (send_chan (remotes s ! i)))
      | CancelTask \<Rightarrow> False
      | PissOff \<Rightarrow> False)"

text \<open>Statistics that starting and assigning do not touch.\<close>

definition same_totals :: "'q server_state \<Rightarrow> 'q server_state \<Rightarrow> bool" where
  "same_totals s s' \<longleftrightarrow>
     total_run_time s' = total_run_time s \<and> total_send_time s' = total_send_time s"

lemma same_totals_refl [simp]: "same_totals s s"
  by (simp add: same_totals_def)

lemma same_totals_trans: "same_totals s s' \<Longrightarrow> same_totals s' s'' \<Longrightarrow> same_totals s s''"
  by (simp add: same_totals_def)

lemma wf_task_iff: "wf_task d \<longleftrightarrow> returns (get_target_id d)"
proof (cases "wf_task d")
  case True
  then show ?thesis by (simp add: get_target_id_wf)
next
  case False
  then obtain i where "i \<in> set (output_args d)" "length (td_args d) \<le> unat i"
    by (auto simp: wf_task_def list_all_iff not_less)
  then have "\<not> returns (map_outcome (arg_at d) (output_args d))"
    by (auto simp: returns_def map_outcome_eq_Inr arg_at_def list_all2_conv_all_nth in_set_conv_nth
        split: sum.splits)
  then show ?thesis
    using False
    by (cases "output_args d")
      (auto simp: get_target_id_def wf_task_def returns_def and_then_def arg_at_def index_def
        split: sum.splits if_splits)
qed

section \<open>Operations\<close>

text \<open>One assignment, when no assertion of the source stands in its way.\<close>

lemma assign_one_eq:
  assumes "pq_pop Q (task_queue s) = Some (((c, d), p), q)" and "exec_queue s = e # es"
    and "c < length (remotes s)" and "e < length (remotes s)" and "c \<noteq> e" and "wf_task d"
    and "paired_id (remotes s ! c) = None" and "paired_id (remotes s ! e) = None"
  shows "assign_one Q s =
     and_then (chan_send (send_chan (remotes s ! e)) (Task 0 0 d)) (\<lambda>ch.
       Inr (s\<lparr>task_queue := q, exec_queue := es,
         remotes := (remotes s)[c := (remotes s ! c)\<lparr>paired_id := Some (word_of_nat e)\<rparr>,
           e := (remotes s ! e)\<lparr>paired_id := Some (word_of_nat c), send_chan := ch\<rparr>]\<rparr>))"
  using assms get_target_id_wf [OF assms(6)]
  by (cases "verbose s") (simp_all add: assign_one_def Let_def set_remote_def)

text \<open>What every round of a loop keeps, the loop keeps.\<close>

lemma assign_loop_keeps:
  assumes "\<And>s s'. P s \<Longrightarrow> assign_one Q s = Inr s' \<Longrightarrow> P s'" and "assign_loop Q s = Inr s'" and "P s"
  shows "P s'"
  using assms(2,3)
proof (induction "length (exec_queue s)" arbitrary: s rule: less_induct)
  case less
  from less.prems(1) show ?case
  proof (subst (asm) assign_loop.simps, goal_cases)
    case 1
    then show ?case
      using less.hyps less.prems(2) assms(1) assign_one_shrinks by (fastforce split: if_splits sum.splits)
  qed
qed

lemma release_loop_keeps:
  assumes "\<And>s s'. P s \<Longrightarrow> release_one s = Inr s' \<Longrightarrow> P s'" and "release_loop s = Inr s'" and "P s"
  shows "P s'"
  using assms(2,3)
proof (induction "length (exec_queue s)" arbitrary: s rule: less_induct)
  case less
  from less.prems(1) show ?case
  proof (subst (asm) release_loop.simps, goal_cases)
    case 1
    then show ?case
      using less.hyps less.prems(2) assms(1) release_one_shrinks by (fastforce split: if_splits sum.splits)
  qed
qed

locale server_queue = priority_queue Q items q_ok
  for Q :: "'q task_pq" and items :: "'q \<Rightarrow> (task_item \<rightharpoonup> duration)" and q_ok :: "'q \<Rightarrow> bool"
begin

abbreviation inv where
  "inv \<equiv> server_inv items q_ok"

lemma assign_one_inv:
  assumes "inv s" and "\<not> pq_is_empty Q (task_queue s)" and "exec_queue s \<noteq> []"
  shows "safely (\<lambda>s'. inv s' \<and> same_totals s s') (assign_one Q s)"
proof -
  note D = server_invD [OF assms(1)]
  note eqD = exec_queueD [OF wiringD(1) [OF D(3)]] and tqD = task_queueD [OF wiringD(2) [OF D(3)]]
  obtain e es where eq: "exec_queue s = e # es" using assms(3) by (cases "exec_queue s") auto
  obtain c d p q where pop: "pq_pop Q (task_queue s) = Some (((c, d), p), q)"
    by (rule pop_nonempty [OF D(1) assms(2)]) (metis surj_pair)
  note q = dom_pop [OF D(1) pop]
  have cl: "c < length (remotes s)" "paired_id (remotes s ! c) = None" "c \<noteq> e" "wf_task d"
    using tqD [OF q(2)] by (auto simp: eq)
  have e: "e < length (remotes s)" "paired_id (remotes s ! e) = None"
    using eqD(2,3) [of e] by (auto simp: eq)
  let ?r = "chan_send (send_chan (remotes s ! e)) (Task 0 0 d)"
  have "inv (s\<lparr>task_queue := q, exec_queue := es,
      remotes := (remotes s)[c := (remotes s ! c)\<lparr>paired_id := Some (word_of_nat e)\<rparr>,
        e := (remotes s ! e)\<lparr>paired_id := Some (word_of_nat c), send_chan := ch\<rparr>]\<rparr>)"
    if "chan_open (send_chan (remotes s ! e))" for ch
    by (rule inv_assign [OF assms(1) eq that q(2) pop_ok [OF D(1) pop] q(1) finite_items [OF D(1)]])
      simp_all
  then show ?thesis
    unfolding assign_one_eq [OF pop eq cl(1) e(1) cl(3,4,2) e(2)]
    by (cases "chan_open (send_chan (remotes s ! e))") (simp_all add: chan_send_def same_totals_def)
qed

text \<open>An assignment that returns, in full.\<close>

lemma assign_one_returns:
  assumes "inv s" and "assign_one Q s = Inr s'"
  obtains c d p q e es where "pq_pop Q (task_queue s) = Some (((c, d), p), q)" "exec_queue s = e # es"
    "(c, d) \<in> dom (items (task_queue s))" "c < length (remotes s)" "e < length (remotes s)" "c \<noteq> e"
    "conn_type (remotes s ! c) = Client \<or> conn_type (remotes s ! c) = Dead" "conn_type (remotes s ! e) = Exec"
    "paired_id (remotes s ! e) = None"
    "s' = s\<lparr>task_queue := q, exec_queue := es,
       remotes := (remotes s)[c := (remotes s ! c)\<lparr>paired_id := Some (word_of_nat e)\<rparr>,
         e := (remotes s ! e)\<lparr>paired_id := Some (word_of_nat c), send_chan := (send_chan (remotes s ! e))
           \<lparr>chan_sent := chan_sent (send_chan (remotes s ! e)) @ [Task 0 0 d]\<rparr>\<rparr>]\<rparr>"
proof -
  obtain c d p q e es where pop: "pq_pop Q (task_queue s) = Some (((c, d), p), q)"
    and eq: "exec_queue s = e # es"
    using assms(2) by (auto simp: assign_one_def split: option.splits list.splits)
  note D = server_invD [OF assms(1)] and q = dom_pop [OF server_invD(1) [OF assms(1)] pop]
  note tqD = task_queueD [OF wiringD(2) [OF D(3)] q(2)]
  note eqD = exec_queueD [OF wiringD(1) [OF D(3)]]
  have ce: "c \<noteq> e" and e: "e < length (remotes s)" "paired_id (remotes s ! e) = None"
    using tqD(4) eqD(2,3) [of e] by (auto simp: eq)
  note one = assms(2) [unfolded assign_one_eq [OF pop eq tqD(1) e(1) ce tqD(5,3) e(2)]]
  have "conn_type (remotes s ! e) = Exec" using eqD(4) [of e] one by (auto simp: eq and_then_eq_Inr)
  then show ?thesis using that [OF pop eq q(2) tqD(1) e(1) ce tqD(2) _ e(2)] one
    by (auto simp: and_then_eq_Inr)
qed

lemma release_one_returns:
  assumes "inv s" and "release_one s = Inr s'"
  obtains e es where "exec_queue s = e # es" "e < length (remotes s)" "conn_type (remotes s ! e) = Exec"
    "paired_id (remotes s ! e) = None" "task_queue s' = task_queue s"
    "remotes s' = (remotes s)[e := (remotes s ! e)\<lparr>conn_type := Dead, send_chan := (send_chan (remotes s ! e))
       \<lparr>chan_sent := chan_sent (send_chan (remotes s ! e)) @ [PissOff]\<rparr>\<rparr>]"
proof -
  obtain e es where eq: "exec_queue s = e # es"
    using assms(2) by (auto simp: release_one_def split: list.splits)
  note eqD = exec_queueD(2-4) [OF wiringD(1) [OF server_invD(3) [OF assms(1)]], of e]
  show ?thesis
    by (rule that [OF eq]) (use eqD assms(2) eq in
      \<open>auto simp: release_one_def and_then_eq_Inr index_def set_remote_def split: if_splits\<close>)
qed

lemma assign_loop_inv:
  assumes "inv s"
  shows "safely (\<lambda>s'. inv s' \<and> same_totals s s' \<and>
    (pq_is_empty Q (task_queue s') \<or> exec_queue s' = [])) (assign_loop Q s)"
  using assms
proof (induction "length (exec_queue s)" arbitrary: s rule: less_induct)
  case less
  show ?case
  proof (cases "\<not> pq_is_empty Q (task_queue s) \<and> exec_queue s \<noteq> []")
    case True
    then have one: "safely (\<lambda>s'. inv s' \<and> same_totals s s') (assign_one Q s)"
      using assign_one_inv [OF less.prems] by blast
    show ?thesis
    proof (cases "assign_one Q s")
      case (Inl e)
      then show ?thesis using one True by (subst assign_loop.simps) (cases e; simp)
    next
      case (Inr s')
      with one have "inv s'" "same_totals s s'" by simp_all
      with less.hyps [OF assign_one_shrinks [OF Inr]] Inr True show ?thesis
        by (subst assign_loop.simps) (auto elim!: safely_mono dest: same_totals_trans)
    qed
  next
    case False
    then show ?thesis using less.prems by (subst assign_loop.simps) auto
  qed
qed

lemma release_one_inv:
  assumes "inv s" and "exec_queue s \<noteq> []"
  shows "safely (\<lambda>s'. inv s' \<and> same_totals s s' \<and> task_queue s' = task_queue s) (release_one s)"
proof -
  note eqD = exec_queueD [OF wiringD(1) [OF server_invD(3) [OF assms(1)]]]
  obtain e es where eq: "exec_queue s = e # es" using assms(2) by (cases "exec_queue s") auto
  have e: "e < length (remotes s)" using eqD(2) [of e] by (simp add: eq)
  show ?thesis
  proof (cases "chan_open (send_chan (remotes s ! e))")
    case True
    note rel = inv_release [OF assms(1) eq True]
    have pos: "1 \<le> running_exec_count s"
      by (rule rel(2) [of "s\<lparr>remotes := (remotes s)[e := (remotes s ! e)\<lparr>conn_type := Dead, send_chan := ch\<rparr>],
            exec_queue := es, running_exec_count := running_exec_count s - 1\<rparr>" for ch]) simp_all
    have "inv (set_remote e ((remotes s ! e)\<lparr>conn_type := Dead, send_chan := ch\<rparr>)
        (s\<lparr>exec_queue := es, running_exec_count := running_exec_count s - 1\<rparr>))" for ch
      by (rule rel(1)) (simp_all add: set_remote_def)
    then show ?thesis
      using True e pos by (simp add: release_one_def eq chan_send_def same_totals_def set_remote_def)
  next
    case False
    then show ?thesis using e by (simp add: release_one_def eq chan_send_def)
  qed
qed

lemma release_loop_inv:
  assumes "inv s"
  shows "safely (\<lambda>s'. inv s' \<and> same_totals s s' \<and> task_queue s' = task_queue s \<and> exec_queue s' = [])
    (release_loop s)"
  using assms
proof (induction "length (exec_queue s)" arbitrary: s rule: less_induct)
  case less
  show ?case
  proof (cases "exec_queue s = []")
    case True
    then show ?thesis using less.prems by (subst release_loop.simps) auto
  next
    case False
    note one = release_one_inv [OF less.prems False]
    show ?thesis
    proof (cases "release_one s")
      case (Inl e)
      then show ?thesis using one False by (subst release_loop.simps) (cases e; simp)
    next
      case (Inr s')
      with one have "inv s'" "same_totals s s'" "task_queue s' = task_queue s" by simp_all
      with less.hyps [OF release_one_shrinks [OF Inr]] Inr False show ?thesis
        by (subst release_loop.simps) (auto elim!: safely_mono dest: same_totals_trans)
    qed
  qed
qed

lemma check_queues_inv:
  assumes "inv s"
  shows "safely (\<lambda>s'. inv s' \<and> same_totals s s' \<and>
    (pq_is_empty Q (task_queue s') \<or> exec_queue s' = [])) (check_queues Q now s)"
  unfolding check_queues_def
proof (rule safely_and_then [OF assign_loop_inv [OF assms]], goal_cases)
  case (1 s1)
  then show ?case
    using release_loop_inv [of s1]
    by (auto elim!: safely_mono dest: same_totals_trans)
qed

end

text \<open>Starting executors only changes the pending counters and the log of commands.\<close>

definition only_starts :: "'q server_state \<Rightarrow> 'q server_state \<Rightarrow> bool" where
  "only_starts s s' \<longleftrightarrow>
     (\<exists>n m log. s' = s\<lparr>pending_exec_count := n, second_pending_exec_count := m, launched := log\<rparr>)"

lemma only_starts_keeps:
  assumes "only_starts s s'"
  shows "server_inv items q_ok s' = server_inv items q_ok s" "same_totals s s'"
    "second_start_cmd s' = second_start_cmd s" "task_queue s' = task_queue s"
  using assms by (auto simp: only_starts_def server_inv_def same_totals_def)

lemma only_starts_trans: "only_starts s s' \<Longrightarrow> only_starts s' s'' \<Longrightarrow> only_starts s s''"
  by (fastforce simp: only_starts_def)

lemma only_starts_intros [intro]:
  "only_starts s s"
  "only_starts s (s\<lparr>pending_exec_count := n, launched := log\<rparr>)"
  "only_starts s (s\<lparr>second_pending_exec_count := n, launched := log\<rparr>)"
proof -
  have "s = s\<lparr>pending_exec_count := pending_exec_count s,
      second_pending_exec_count := second_pending_exec_count s, launched := launched s\<rparr>"
    "s\<lparr>pending_exec_count := n, launched := log\<rparr> = s\<lparr>pending_exec_count := n,
      second_pending_exec_count := second_pending_exec_count s, launched := log\<rparr>"
    "s\<lparr>second_pending_exec_count := n, launched := log\<rparr> = s\<lparr>pending_exec_count := pending_exec_count s,
      second_pending_exec_count := n, launched := log\<rparr>"
    by simp_all
  then show "only_starts s s" "only_starts s (s\<lparr>pending_exec_count := n, launched := log\<rparr>)"
    "only_starts s (s\<lparr>second_pending_exec_count := n, launched := log\<rparr>)"
    unfolding only_starts_def by blast+
qed

lemma safely_spawn_loop: "safely (\<lambda>_. True) (spawn_loop wants sp n)"
  by (induction wants sp n rule: spawn_loop.induct) auto

lemma start_execs_in_queue_safe:
  assumes "alt_queue \<Longrightarrow> second_start_cmd s \<noteq> None"
  shows "safely (\<lambda>(s', _). only_starts s s') (start_execs_in_queue Q alt_queue keep sp s)"
  using assms
  by (auto simp: start_execs_in_queue_def
      intro!: safely_and_then [OF safely_spawn_loop] split: option.splits)

lemma start_execs_safe: "safely (\<lambda>(s', _). only_starts s s') (start_execs Q sp s)"
proof -
  have "safely (\<lambda>(s', _). only_starts s s')
      (and_then (start_execs_in_queue Q False keep sp s) (\<lambda>(s, sp). start_execs_in_queue Q True keep sp s))"
    if "second_start_cmd s \<noteq> None" for keep
  proof (rule safely_and_then [OF start_execs_in_queue_safe])
    fix a :: "'a server_state \<times> bool list" assume "case a of (s', _) \<Rightarrow> only_starts s s'"
    then obtain s1 sp1 where a: "a = (s1, sp1)" and s1: "only_starts s s1" by (cases a) auto
    have "safely (\<lambda>(s', _). only_starts s1 s') (start_execs_in_queue Q True keep sp1 s1)"
      using that only_starts_keeps(3) [OF s1] by (intro start_execs_in_queue_safe) simp
    then show "safely (\<lambda>(s', _). only_starts s s')
        (case a of (s, sp) \<Rightarrow> start_execs_in_queue Q True keep sp s)"
      using only_starts_trans [OF s1] by (auto simp: a elim!: safely_mono)
  qed simp
  then show ?thesis
    using start_execs_in_queue_safe [of False s Q]
    by (auto simp: start_execs_def Let_def)
qed

context server_queue
begin

lemma update_inv:
  assumes "inv s"
  shows "safely (\<lambda>s'. inv s' \<and> same_totals s s' \<and>
    (pq_is_empty Q (task_queue s') \<or> exec_queue s' = [])) (update Q sp now s)"
  unfolding update_def
proof (rule safely_and_then [OF start_execs_safe])
  fix a :: "'q server_state \<times> bool list" assume "case a of (s', _) \<Rightarrow> only_starts s s'"
  then obtain s1 sp1 where a: "a = (s1, sp1)" and s1: "only_starts s s1" by (cases a) auto
  have "safely (\<lambda>s'. inv s' \<and> same_totals s1 s' \<and>
      (pq_is_empty Q (task_queue s') \<or> exec_queue s' = [])) (check_queues Q now s1)"
    using check_queues_inv assms only_starts_keeps(1) [OF s1] by blast
  then show "safely (\<lambda>s'. inv s' \<and> same_totals s s' \<and>
      (pq_is_empty Q (task_queue s') \<or> exec_queue s' = [])) (case a of (s, _) \<Rightarrow> check_queues Q now s)"
    using same_totals_trans [OF only_starts_keeps(2) [OF s1]] by (auto simp: a elim!: safely_mono)
qed

text \<open>What every start, assignment and release keeps, \<open>update\<close> keeps.\<close>

lemma update_keeps:
  assumes "inv s" and "update Q sp now s = Inr s'" and "P s"
    and starts: "\<And>t t'. P t \<Longrightarrow> only_starts t t' \<Longrightarrow> P t'"
    and assign: "\<And>t t'. inv t \<Longrightarrow> P t \<Longrightarrow> assign_one Q t = Inr t' \<Longrightarrow> P t'"
    and release: "\<And>t t'. inv t \<Longrightarrow> P t \<Longrightarrow> release_one t = Inr t' \<Longrightarrow> P t'"
  shows "inv s' \<and> P s'"
proof -
  obtain s1 sp1 s2 where 1: "start_execs Q sp s = Inr (s1, sp1)" "assign_loop Q s1 = Inr s2"
      "s' = s2 \<or> release_loop s2 = Inr s'"
    using assms(2) by (auto simp: update_def check_queues_def and_then_eq_Inr split: if_splits)
  have os: "only_starts s s1" using start_execs_safe [of s Q sp] 1(1) by simp
  have "inv s2 \<and> P s2"
  proof (rule assign_loop_keeps [OF _ 1(2), where P = "\<lambda>t. inv t \<and> P t"])
    fix t t' assume t: "inv t \<and> P t" "assign_one Q t = Inr t'"
    then have "\<not> pq_is_empty Q (task_queue t)" "exec_queue t \<noteq> []"
      using server_invD(1) [of items q_ok t] pop_None [of "task_queue t"] is_empty_items [of "task_queue t"]
      by (auto simp: assign_one_def split: option.splits list.splits)
    then show "inv t' \<and> P t'" using t assign_one_inv [of t] assign [of t t'] by auto
  qed (use assms(1,3) starts os only_starts_keeps(1) in blast)
  moreover have "inv t' \<and> P t'" if t: "inv t \<and> P t" "release_loop t = Inr t'" for t t'
  proof (rule release_loop_keeps [OF _ t(2), where P = "\<lambda>t. inv t \<and> P t"])
    fix t t' assume t: "inv t \<and> P t" "release_one t = Inr t'"
    then have "exec_queue t \<noteq> []" by (auto simp: release_one_def)
    then show "inv t' \<and> P t'" using t release_one_inv [of t] release [of t t'] by auto
  qed (rule t(1))
  ultimately show ?thesis using 1(3) by blast
qed

text \<open>The pairing of a busy executor.\<close>

lemma busy_pair:
  assumes "inv s" and "is_busy s i"
  obtains p where "i < length (remotes s)" "conn_type (remotes s ! i) = Exec"
    "paired_id (remotes s ! i) = Some p" "unat p < length (remotes s)" "unat p \<noteq> i"
    "conn_type (remotes s ! unat p) = Client \<or> conn_type (remotes s ! unat p) = Dead"
    "paired_id (remotes s ! unat p) = Some (word_of_nat i)"
proof -
  note W = server_invD(3) [OF assms(1)]
  obtain p where i: "i < length (remotes s)" "conn_type (remotes s ! i) = Exec"
      "paired_id (remotes s ! i) = Some p"
    using assms(2) by (auto simp: is_busy_def is_busy_exec_def)
  then show ?thesis
    using that pairingD [OF wiringD(3) [OF W] i] not_pointed_exec [OF W i i(2)] by blast
qed

lemma send_to_paired_remote_inv:
  assumes "inv s" and "is_busy s i"
  shows "safely (\<lambda>s'. inv s' \<and> same_totals s s' \<and> is_busy s' i) (send_to_paired_remote i msg s)"
proof -
  obtain p where i: "i < length (remotes s)" "paired_id (remotes s ! i) = Some p"
      "unat p < length (remotes s)" "unat p \<noteq> i"
    using busy_pair [OF assms] by metis
  have keep: "inv (set_remote (unat p) r s) \<and> same_totals s (set_remote (unat p) r s) \<and>
      is_busy (set_remote (unat p) r s) i"
    if "same_role (remotes s ! unat p) r" for r
    using inv_same_role [OF assms(1) i(3) that] assms(2) i(4)
    by (simp add: set_remote_def same_totals_def is_busy_def)
  show ?thesis
  proof (cases "conn_type (remotes s ! unat p) = Client")
    case True
    then show ?thesis
      using i keep [of "(remotes s ! unat p)\<lparr>send_chan := (send_chan (remotes s ! unat p))
          \<lparr>chan_sent := chan_sent (send_chan (remotes s ! unat p)) @ [msg]\<rparr>\<rparr>"]
        keep [of "(remotes s ! unat p)\<lparr>conn_type := Dead\<rparr>"]
      by (simp add: send_to_paired_remote_def Let_def chan_send_def same_role_def)
  next
    case False
    then show ?thesis using i assms by (simp add: send_to_paired_remote_def Let_def)
  qed
qed

lemma handle_dropped_inv:
  assumes "inv s" and "conforms s i Dropped"
  shows "safely inv (handle_dropped i s)"
proof -
  have i: "i < length (remotes s)"
    and closed: "i \<in> set (exec_queue s) \<Longrightarrow> \<not> chan_open (send_chan (remotes s ! i))"
    using assms(2) by (auto simp: conforms_def)
  have live: "1 \<le> running_exec_count s" if "conn_type (remotes s ! i) = Exec"
    using i that server_invD(4) [OF assms(1)]
    by (cases "filter is_live_exec (remotes s)") (auto simp: filter_empty_conv is_live_exec_def)
  show ?thesis
  proof (cases "is_busy s i")
    case True
    then obtain p where p: "conn_type (remotes s ! i) = Exec" "paired_id (remotes s ! i) = Some p"
        "unat p < length (remotes s)" "unat p \<noteq> i"
      using busy_pair [OF assms(1)] by metis
    have "inv (set_remote i ((remotes s ! i)\<lparr>conn_type := Dead\<rparr>)
        ((set_remote (unat p) ((remotes s ! unat p)\<lparr>send_chan := ch\<rparr>) s)
          \<lparr>running_exec_count := running_exec_count s - 1\<rparr>))"
      if "chan_open ch \<longrightarrow> chan_open (send_chan (remotes s ! unat p))" for ch
    proof (rule inv_dead)
      show "inv (set_remote (unat p) ((remotes s ! unat p)\<lparr>send_chan := ch\<rparr>) s)"
        using that p(3) by (intro inv_same_role [OF assms(1)]) (simp_all add: same_role_def)
    qed (use i p closed live in \<open>auto simp: set_remote_def is_live_exec_def\<close>)
    then show ?thesis
      using i p live by (auto simp: handle_dropped_def chan_send_def set_remote_def)
  next
    case False
    have "inv (set_remote i ((remotes s ! i)\<lparr>conn_type := Dead\<rparr>)
        (s\<lparr>running_exec_count := running_exec_count s -
          (if conn_type (remotes s ! i) = Exec then 1 else 0)\<rparr>))"
      by (rule inv_dead [OF assms(1) i closed])
        (use live in \<open>auto simp: set_remote_def is_live_exec_def\<close>)
    then show ?thesis
      using False i live
      by (cases "paired_id (remotes s ! i)"; cases "conn_type (remotes s ! i)")
        (auto simp: handle_dropped_def set_remote_def is_busy_def is_busy_exec_def)
  qed
qed

lemma exec_is_ready_inv:
  assumes "inv s" and "is_busy s i"
  shows "safely (\<lambda>s'. inv s' \<and> same_totals s s')
    (exec_is_ready Q E i (s\<lparr>finish_count := finish_count s + 1\<rparr>))"
proof -
  obtain p where i: "i < length (remotes s)" "conn_type (remotes s ! i) = Exec"
      "paired_id (remotes s ! i) = Some p"
    using busy_pair [OF assms] by metis
  let ?s = "(set_remote i ((remotes s ! i)\<lparr>paired_id := None\<rparr>) (s\<lparr>finish_count := finish_count s + 1\<rparr>))
    \<lparr>exec_queue := exec_queue s @ [i]\<rparr>"
  have "inv ?s" by (rule inv_free_exec [OF assms(1) i]) (simp_all add: set_remote_def)
  from update_inv [OF this, of "spawns E" "at_check E"] show ?thesis
    using i by (auto simp: exec_is_ready_def same_totals_def set_remote_def elim!: safely_mono)
qed

lemma remote_is_exec_inv:
  assumes "inv s" and "is_pending s i"
  shows "safely inv (remote_is_exec Q E i second s)"
proof -
  have i: "i < length (remotes s)" "conn_type (remotes s ! i) = Pending"
    using assms(2) by (auto simp: is_pending_def)
  have ok: "safely inv (update Q (spawns E) (at_check E) s')"
    if "remotes s' = (remotes s)[i := (remotes s ! i)\<lparr>conn_type := Exec, paired_id := None\<rparr>]"
      "task_queue s' = task_queue s" "exec_queue s' = exec_queue s @ [i]"
      "submit_count s' = submit_count s" "finish_count s' = finish_count s"
      "running_exec_count s' = running_exec_count s + 1" for s'
    using update_inv [OF inv_new_exec [OF assms(1) i that]] by (blast intro: safely_mono)
  show ?thesis
    using i(1) by (simp add: remote_is_exec_def exec_is_ready_def set_remote_def Let_def ok)
qed

lemma client_pushed_inv:
  assumes "inv s" and "is_pending s i" and "wf_task d"
  shows "inv ((set_remote i ((remotes s ! i)\<lparr>conn_type := Client\<rparr>) (s\<lparr>submit_count := submit_count s + 1\<rparr>))
      \<lparr>task_queue := pq_push Q (i, d) prior (task_queue s), last_submit_time := t\<rparr>)"
proof -
  note D = server_invD [OF assms(1)]
  have i: "i < length (remotes s)" "conn_type (remotes s ! i) = Pending"
    using assms(2) by (auto simp: is_pending_def)
  have "dom (items (pq_push Q (i, d) prior (task_queue s))) = insert (i, d) (dom (items (task_queue s)))"
    by (simp add: items_push [OF D(1)])
  then show ?thesis
    using assms(3)
    by (intro inv_new_client [OF assms(1) i ok_push [OF D(1)] _ finite_items [OF D(1)]])
      (simp_all add: set_remote_def)
qed

lemma remote_is_client_inv:
  assumes "inv s" and "conforms s i (Task a u d)"
  shows "safely inv (remote_is_client Q E i d (s\<lparr>submit_count := submit_count s + 1\<rparr>))"
proof -
  obtain t prior where t: "get_target_id d = Inr t"
      "task_priority (prior_history s) t (priority_task d) = Inr prior"
    using assms(2) by (auto simp: conforms_def returns_def split: sum.splits)
  have i: "i < length (remotes s)" "conn_type (remotes s ! i) = Pending"
    using assms(2) by (auto simp: conforms_def is_pending_def)
  have "is_pending s i" "wf_task d" using i wf_task_iff [of d] t(1) by (simp_all add: is_pending_def)
  note client_pushed_inv [OF assms(1) this, where prior = prior and t = "Some (at_submit E)"]
  from update_inv [OF this, of "spawns E" "at_check E"] show ?thesis
    using i t by (auto simp: remote_is_client_def set_remote_def elim!: safely_mono)
qed

theorem handle_msg_inv:
  assumes "inv s" and "conforms s i msg"
  shows "safely inv (handle_msg Q bytes_add E i msg s)"
proof (cases msg)
  case (TaskOutput ot content)
  let ?s = "s\<lparr>total_bytes := bytes_add (total_bytes s) (length content),
    bytes_this_period := bytes_add (bytes_this_period s) (length content)\<rparr>"
  have "inv ?s" "is_busy ?s i"
    using assms TaskOutput by (simp_all add: server_inv_def conforms_def is_busy_def)
  from send_to_paired_remote_inv [OF this, of "TaskOutput ot content"] show ?thesis
    using TaskOutput by (auto simp: handle_msg_def elim!: safely_mono)
next
  case (TaskFailed e)
  then have b: "is_busy s i" using assms(2) by (simp add: conforms_def)
  have "safely inv (and_then (send_to_paired_remote i msg s)
      (\<lambda>s. exec_is_ready Q E i (s\<lparr>finish_count := finish_count s + 1\<rparr>)))"
    by (rule safely_and_then [OF send_to_paired_remote_inv [OF assms(1) b]])
      (blast intro: safely_mono [OF exec_is_ready_inv])
  then show ?thesis using TaskFailed by (simp add: handle_msg_def)
next
  case (TaskDone code t run_time send_time)
  let ?s = "if code = Some 0 then record_elapsed (at_record E) t run_time s else s"
  have b: "inv ?s" "is_busy ?s i" "same_totals s ?s"
    using assms TaskDone
    by (auto simp: record_elapsed_def server_inv_def conforms_def is_busy_def same_totals_def)
  have fits: "total_run_time s + run_time \<le> dur_max" "total_send_time s + send_time \<le> dur_max"
    using assms(2) TaskDone by (simp_all add: conforms_def)
  let ?K = "\<lambda>s. and_then (dur_add (total_run_time s) run_time) (\<lambda>total_run.
             and_then (dur_add (total_send_time s) send_time) (\<lambda>total_send.
               Inr (s\<lparr>total_run_time := total_run, total_send_time := total_send,
                      peak_send_time := max (peak_send_time s) send_time\<rparr>)))"
  have K: "safely inv (?K s')" if "inv s'" "same_totals s s'" for s'
    using that fits by (simp add: same_totals_def dur_add_def server_inv_def)
  have "safely inv (and_then (send_to_paired_remote i msg ?s) (\<lambda>s.
      and_then (exec_is_ready Q E i (s\<lparr>finish_count := finish_count s + 1\<rparr>)) ?K))"
  proof (rule safely_and_then [OF send_to_paired_remote_inv [OF b(1,2)]], goal_cases)
    case (1 s1)
    then show ?case
      using b(3) by (intro safely_and_then [OF exec_is_ready_inv K]) (auto dest: same_totals_trans)
  qed
  then show ?thesis by (simp add: handle_msg_def TaskDone)
qed (use assms remote_is_exec_inv remote_is_client_inv handle_dropped_inv in
    \<open>auto simp: handle_msg_def conforms_def\<close>)

end

interpretation sq: server_queue alist_queue map_of "\<lambda>q. distinct (map fst q)"
  by unfold_locales

end
