(* ===== verification/Server_Conn.thy ===== *)
theory Server_Conn
  imports Server
begin

unbundle bit_operations_syntax

text \<open>
  The task that serves one socket (\<open>handle_connection\<close> in \<open>src/src/server.rs\<close>), and the choice of
  the access code and the network address with which the server starts.

  The task waits for whichever comes first, a message on the socket or a message from the
  server; the argument \<open>events\<close> is the sequence of these arrivals.  When the message of the
  server wins, the call of \<open>read_message\<close> that was waiting is dropped with what it had done
  so far (\<open>read_abandoned\<close>): bytes it has read stay in the buffer of the connection, but a
  length it has already taken out of the buffer is lost.
\<close>

section \<open>Who may talk to the server\<close>

definition new_access_code :: "u64 \<Rightarrow> u64" where
  "new_access_code rnd = drop_bit 1 rnd AND NOT 1"

text \<open>The network interfaces of the host, or the error of asking for them.\<close>

record iface =
  if_name :: string
  if_ip :: string
  if_loopback :: bool

definition get_network_addr :: "string + iface list \<Rightarrow> string" where
  "get_network_addr ifaces =
     (case ifaces of
        Inr ifs \<Rightarrow>
          (case filter (\<lambda>i. \<not> if_loopback i) ifs of
             [] \<Rightarrow> ''127.0.0.1''
           | i # _ \<Rightarrow> if_ip i)
      | Inl _ \<Rightarrow> ''127.0.0.1'')"

text \<open>The variable \<open>drop\<close>: the message identifies its sender with the wrong codes.\<close>

definition must_drop :: "u64 \<Rightarrow> u64 \<Rightarrow> message \<Rightarrow> bool" where
  "must_drop server_access_code user_key msg \<longleftrightarrow>
     (case msg of
        YourObedientServant code user_code \<Rightarrow>
          code AND NOT 1 \<noteq> server_access_code \<or> user_code \<noteq> user_key
      | Task code user_code _ \<Rightarrow> code \<noteq> server_access_code \<or> user_code \<noteq> user_key
      | _ \<Rightarrow> False)"

definition relayed :: "u64 \<Rightarrow> u64 \<Rightarrow> message \<Rightarrow> message" where
  "relayed server_access_code user_key msg =
     (if must_drop server_access_code user_key msg then Dropped else msg)"

section \<open>Serving a connection\<close>

text \<open>
  The socket in both directions, and the channel to the server.  Every message on that
  channel carries the number of the connection, which is left out here.
\<close>

record conn_task =
  ct_conn :: connection
  ct_out :: out_stream
  ct_tx :: channel

text \<open>
  A call of \<open>read_message\<close> that is dropped after \<open>n\<close> reads of the socket, while it waits for the
  next one; \<open>None\<close> if it does not get to wait there.
\<close>

fun abandon_body :: "nat \<Rightarrow> nat \<Rightarrow> connection \<Rightarrow> connection option" where
  "abandon_body msg_size 0 c = (if length (conn_buf c) < msg_size then Some c else None)"
| "abandon_body msg_size (Suc n) c =
     (if length (conn_buf c) < msg_size then
        (case read_buf c of
           Inr (k, c') \<Rightarrow> if k > 0 then abandon_body msg_size n c' else None
         | Inl _ \<Rightarrow> None)
      else None)"

fun read_abandoned :: "nat \<Rightarrow> connection \<Rightarrow> connection option" where
  "read_abandoned n c =
     (if length (conn_buf c) < 4 then
        (case n of
           0 \<Rightarrow> Some c
         | Suc m \<Rightarrow>
             (case read_buf c of
                Inr (k, c') \<Rightarrow> if k > 0 then read_abandoned m c' else None
              | Inl _ \<Rightarrow> None))
      else
        abandon_body (i32_as_usize (get_i32 (take 4 (conn_buf c)))) n
          (c\<lparr>conn_buf := drop 4 (conn_buf c)\<rparr>))"

declare read_abandoned.simps [simp del]

text \<open>
  \<open>FromServer polled msg\<close>: a message of the server, or \<open>None\<close> when its channel was closed, and
  how many reads the dropped call of \<open>read_message\<close> made, if it ran at all.
\<close>

datatype conn_event =
    SocketReady
  | FromServer "nat option" "message option"

datatype control = Continue | Break | Return fault

definition after_poll :: "nat option \<Rightarrow> connection \<Rightarrow> connection option" where
  "after_poll polled c = (case polled of None \<Rightarrow> Some c | Some n \<Rightarrow> read_abandoned n c)"

definition socket_branch ::
  "(u8 list \<Rightarrow> message option) \<Rightarrow> u64 \<Rightarrow> u64 \<Rightarrow> conn_task \<Rightarrow> conn_task \<times> control" where
  "socket_branch deser code key t =
     (case read_message deser (ct_conn t) of
        Inr (Some msg, c) \<Rightarrow>
          (case chan_send (ct_tx t) (relayed code key msg) of
             Inr tx \<Rightarrow> (t\<lparr>ct_conn := c, ct_tx := tx\<rparr>, Continue)
           | Inl f \<Rightarrow> (t\<lparr>ct_conn := c\<rparr>, Return f))
      | Inr (None, c) \<Rightarrow> (t\<lparr>ct_conn := c\<rparr>, Break)
      | Inl (Panic e) \<Rightarrow> (t, Return (Panic e))
      | Inl _ \<Rightarrow> (t, Break))"

definition server_branch ::
  "(message \<Rightarrow> u8 list option) \<Rightarrow> message option \<Rightarrow> conn_task \<Rightarrow> conn_task \<times> control" where
  "server_branch ser om t =
     (case om of
        None \<Rightarrow> (t, Break)
      | Some msg \<Rightarrow>
          (case write_message ser (ct_out t) msg of
             Inr w \<Rightarrow> (t\<lparr>ct_out := w\<rparr>, Continue)
           | Inl f \<Rightarrow> (t, Return f)))"

text \<open>A read that completes when it is polled wins over the message of the server.\<close>

definition conn_step ::
  "(message \<Rightarrow> u8 list option) \<Rightarrow> (u8 list \<Rightarrow> message option) \<Rightarrow> u64 \<Rightarrow> u64 \<Rightarrow> conn_event \<Rightarrow>
     conn_task \<Rightarrow> conn_task \<times> control" where
  "conn_step ser deser code key ev t =
     (case ev of
        SocketReady \<Rightarrow> socket_branch deser code key t
      | FromServer polled om \<Rightarrow>
          (case after_poll polled (ct_conn t) of
             Some c \<Rightarrow> server_branch ser om (t\<lparr>ct_conn := c\<rparr>)
           | None \<Rightarrow> socket_branch deser code key t))"

definition conn_finish :: "conn_task \<Rightarrow> conn_task \<times> unit outcome" where
  "conn_finish t =
     (case chan_send (ct_tx t) Dropped of
        Inr tx \<Rightarrow> (t\<lparr>ct_tx := tx\<rparr>, Inr ())
      | Inl f \<Rightarrow> (t, Inl f))"

fun conn_loop ::
  "(message \<Rightarrow> u8 list option) \<Rightarrow> (u8 list \<Rightarrow> message option) \<Rightarrow> u64 \<Rightarrow> u64 \<Rightarrow> conn_event list \<Rightarrow>
     conn_task \<Rightarrow> conn_task \<times> unit outcome" where
  "conn_loop ser deser code key [] t = (t, Inl NotDone)"
| "conn_loop ser deser code key (ev # events) t =
     (case conn_step ser deser code key ev t of
        (t', Continue) \<Rightarrow> conn_loop ser deser code key events t'
      | (t', Break) \<Rightarrow> conn_finish t'
      | (t', Return f) \<Rightarrow> (t', Inl f))"

definition handle_connection ::
  "(message \<Rightarrow> u8 list option) \<Rightarrow> (u8 list \<Rightarrow> message option) \<Rightarrow> u64 \<Rightarrow> u64 \<Rightarrow> conn_event list \<Rightarrow>
     read_res list \<Rightarrow> out_stream \<Rightarrow> channel \<Rightarrow> conn_task \<times> unit outcome" where
  "handle_connection ser deser code key events st w tx =
     conn_loop ser deser code key events
       \<lparr>ct_conn = new_connection st, ct_out = w, ct_tx = tx\<rparr>"

section \<open>What a connection relays\<close>

text \<open>A message the server may act on: it carries the right codes wherever it carries any.\<close>

definition authentic :: "u64 \<Rightarrow> u64 \<Rightarrow> message \<Rightarrow> bool" where
  "authentic code key msg \<longleftrightarrow>
     (case msg of
        YourObedientServant a u \<Rightarrow> (a = code \<or> a = code OR 1) \<and> u = key
      | Task a u _ \<Rightarrow> a = code \<and> u = key
      | _ \<Rightarrow> True)"

lemma and_not_1_eq: "(a :: u64) AND NOT 1 = c \<Longrightarrow> a = c \<or> a = c OR 1"
proof -
  assume "a AND NOT 1 = c"
  then have "bit c n = (bit a n \<and> n \<noteq> 0)" if "n < 64" for n
    using that by (auto simp: bit_simps)
  then have c: "\<And>n. n < 64 \<Longrightarrow> n \<noteq> 0 \<Longrightarrow> bit c n = bit a n" "\<not> bit c 0" by auto
  show ?thesis
  proof (cases "bit a 0")
    case True
    then have "a = c OR 1" using c by (intro bit_word_eqI) (auto simp: bit_simps)
    then show ?thesis ..
  next
    case False
    have "a = c"
    proof (rule bit_word_eqI)
      fix n assume "n < LENGTH(64)"
      then show "bit a n = bit c n" using c False by (cases "n = 0") simp_all
    qed
    then show ?thesis ..
  qed
qed

lemma relayed_authentic: "authentic code key (relayed code key msg)"
  using and_not_1_eq
  by (cases msg) (auto simp: authentic_def relayed_def must_drop_def)

text \<open>What a run of the loop appends to the channel.\<close>

lemma conn_step_tx:
  assumes "conn_step ser deser code key ev t = (t', fl)"
  shows "\<exists>ms. chan_sent (ct_tx t') = chan_sent (ct_tx t) @ ms \<and> list_all (authentic code key) ms"
proof -
  have sock: "\<exists>ms. chan_sent (ct_tx (fst (socket_branch deser code key t))) = chan_sent (ct_tx t) @ ms \<and>
      list_all (authentic code key) ms"
    using relayed_authentic [of code key]
    by (auto simp: socket_branch_def chan_send_def
        split: sum.splits prod.splits option.splits fault.splits if_splits)
  have serv: "ct_tx (fst (server_branch ser om t0)) = ct_tx t0" for om t0
    by (auto simp: server_branch_def split: sum.splits option.splits)
  have t': "t' = fst (conn_step ser deser code key ev t)" using assms by simp
  show ?thesis
  proof (cases ev)
    case SocketReady
    then show ?thesis using sock by (simp add: t' conn_step_def)
  next
    case (FromServer polled om)
    show ?thesis
    proof (cases "after_poll polled (ct_conn t)")
      case None
      then show ?thesis using sock by (simp add: t' FromServer conn_step_def)
    next
      case (Some c)
      then show ?thesis
        using serv [of om "t\<lparr>ct_conn := c\<rparr>"] by (simp add: t' FromServer conn_step_def)
    qed
  qed
qed

lemma conn_finish_tx:
  "\<exists>ms. chan_sent (ct_tx (fst (conn_finish t))) = chan_sent (ct_tx t) @ ms \<and>
    list_all (authentic code key) ms"
  by (auto simp: conn_finish_def chan_send_def authentic_def)

lemma conn_loop_tx:
  "\<exists>ms. chan_sent (ct_tx (fst (conn_loop ser deser code key events t))) = chan_sent (ct_tx t) @ ms \<and>
    list_all (authentic code key) ms"
proof (induction events arbitrary: t)
  case (Cons ev events)
  obtain t' fl where step: "conn_step ser deser code key ev t = (t', fl)" by fastforce
  from conn_step_tx [OF this] obtain ms where
    ms: "chan_sent (ct_tx t') = chan_sent (ct_tx t) @ ms" "list_all (authentic code key) ms" by blast
  show ?case
    using step ms Cons.IH [of t'] conn_finish_tx [of t' code key]
    by (cases fl) fastforce+
qed simp

text \<open>
  C20: Whatever a peer sends, the server is only ever given tasks that carry its access code and
  the user's key, and executors that identify themselves with the access code, or with the
  access code with its last bit set, and the user's key.
\<close>

theorem connection_authenticates:
  "list_all (authentic code key)
     (chan_sent (ct_tx (fst (handle_connection ser deser code key events st w
        \<lparr>chan_sent = [], chan_open = True\<rparr>))))"
  using conn_loop_tx [of ser deser code key events
      "\<lparr>ct_conn = new_connection st, ct_out = w, ct_tx = \<lparr>chan_sent = [], chan_open = True\<rparr>\<rparr>"]
  by (auto simp: handle_connection_def)

section \<open>A connection that works relays everything\<close>

text \<open>The messages that the server sends during a run of events.\<close>

fun outbound :: "conn_event list \<Rightarrow> message list" where
  "outbound [] = []"
| "outbound (FromServer _ (Some m) # events) = m # outbound events"
| "outbound (ev # events) = outbound events"

text \<open>
  Events without a failure: the server keeps the channel and every message can be encoded,
  and no read is dropped that has already taken a length out of the buffer.
\<close>

definition good_event :: "(message \<Rightarrow> u8 list option) \<Rightarrow> connection \<Rightarrow> conn_event \<Rightarrow> bool" where
  "good_event ser c ev \<longleftrightarrow>
     (case ev of
        SocketReady \<Rightarrow> True
      | FromServer polled om \<Rightarrow>
          (case om of None \<Rightarrow> False | Some m \<Rightarrow> ser m \<noteq> None) \<and>
          (case after_poll polled c of None \<Rightarrow> False | Some c' \<Rightarrow> unread c' = unread c))"

text \<open>Every event of a run is good when it happens.\<close>

fun good_run ::
  "(message \<Rightarrow> u8 list option) \<Rightarrow> (u8 list \<Rightarrow> message option) \<Rightarrow> u64 \<Rightarrow> u64 \<Rightarrow> conn_event list \<Rightarrow> conn_task \<Rightarrow> bool"
where
  "good_run ser deser code key [] t = True"
| "good_run ser deser code key (ev # events) t =
     (good_event ser (ct_conn t) ev \<and>
      good_run ser deser code key events (fst (conn_step ser deser code key ev t)))"

lemma read_buf_chunks:
  "read_buf c = Inr (k, c') \<Longrightarrow> list_all data_chunk (conn_stream c) \<Longrightarrow> list_all data_chunk (conn_stream c')"
  by (auto simp: read_buf_def split: list.splits read_res.splits)

lemma abandon_body_chunks:
  assumes "abandon_body sz n c = Some c'" and "list_all data_chunk (conn_stream c)"
  shows "list_all data_chunk (conn_stream c')"
  using assms
  by (induction n arbitrary: c) (auto split: if_splits sum.splits dest: read_buf_chunks)

lemma read_abandoned_chunks:
  "read_abandoned n c = Some c' \<Longrightarrow> list_all data_chunk (conn_stream c) \<Longrightarrow> list_all data_chunk (conn_stream c')"
proof (induction n c rule: read_abandoned.induct)
  case (1 n c)
  show ?case
    using "1.prems" "1.IH"
    by (subst (asm) read_abandoned.simps)
      (auto split: if_splits nat.splits sum.splits dest: read_buf_chunks abandon_body_chunks)
qed

lemma after_poll_chunks:
  "after_poll polled c = Some c' \<Longrightarrow> list_all data_chunk (conn_stream c) \<Longrightarrow> list_all data_chunk (conn_stream c')"
  by (auto simp: after_poll_def dest: read_abandoned_chunks split: option.splits)

lemma conn_step_read:
  assumes "codec_ok ser deser m" and "list_all data_chunk (conn_stream (ct_conn t))"
    and "unread (ct_conn t) = frame ser m @ rest" and "chan_open (ct_tx t)"
  shows "\<exists>c. conn_step ser deser code key SocketReady t =
      (t\<lparr>ct_conn := c, ct_tx := (ct_tx t)\<lparr>chan_sent := chan_sent (ct_tx t) @ [relayed code key m]\<rparr>\<rparr>,
       Continue) \<and> unread c = rest \<and> list_all data_chunk (conn_stream c)"
proof -
  obtain c where "read_message deser (ct_conn t) = Inr (Some m, c)" "unread c = rest"
      "list_all data_chunk (conn_stream c)"
    using read_message_codec [OF assms(1-3)] by blast
  then show ?thesis using assms(4) by (auto simp: conn_step_def socket_branch_def chan_send_def)
qed

lemma conn_loop_relays:
  assumes "\<forall>m \<in> set ms. codec_ok ser deser m" and "good_run ser deser code key events t"
    and "length (filter ((=) SocketReady) events) = length ms"
    and "list_all data_chunk (conn_stream (ct_conn t))"
    and "unread (ct_conn t) = concat (map (frame ser) ms)"
    and "chan_open (ct_tx t)" and "room (ct_out t) = None"
  shows "\<exists>t'. conn_loop ser deser code key (events @ [SocketReady]) t = (t', Inr ()) \<and>
     chan_sent (ct_tx t') = chan_sent (ct_tx t) @ map (relayed code key) ms @ [Dropped] \<and>
     written (ct_out t') = written (ct_out t) @ concat (map (frame ser) (outbound events))"
  using assms
proof (induction events arbitrary: t ms)
  case Nil
  then have "unread (ct_conn t) = []" "ms = []" by simp_all
  with Nil read_message_end [of "ct_conn t" deser] show ?case
    by (auto simp: conn_step_def socket_branch_def conn_finish_def chan_send_def)
next
  case (Cons ev events)
  show ?case
  proof (cases ev)
    case SocketReady
    with Cons.prems(3) obtain m ms' where ms: "ms = m # ms'" by (cases ms) auto
    obtain c where step: "conn_step ser deser code key SocketReady t =
        (t\<lparr>ct_conn := c, ct_tx := (ct_tx t)\<lparr>chan_sent := chan_sent (ct_tx t) @ [relayed code key m]\<rparr>\<rparr>,
         Continue)" and c: "unread c = concat (map (frame ser) ms')" "list_all data_chunk (conn_stream c)"
      using conn_step_read [of ser deser m t] Cons.prems ms by fastforce
    show ?thesis
      using Cons.IH [of ms' "t\<lparr>ct_conn := c,
          ct_tx := (ct_tx t)\<lparr>chan_sent := chan_sent (ct_tx t) @ [relayed code key m]\<rparr>\<rparr>"]
        Cons.prems c step ms SocketReady by auto
  next
    case (FromServer polled om)
    with Cons.prems(2) obtain m data c where m: "om = Some m" "ser m = Some data"
        "after_poll polled (ct_conn t) = Some c" "unread c = unread (ct_conn t)"
      by (auto simp: good_event_def split: option.splits)
    have step: "conn_step ser deser code key ev t =
        (t\<lparr>ct_conn := c, ct_out := (ct_out t)\<lparr>written := written (ct_out t) @ frame ser m\<rparr>\<rparr>, Continue)"
      using m Cons.prems(7) by (simp add: FromServer conn_step_def server_branch_def write_message_bytes frame_Some)
    show ?thesis
      using Cons.IH [of ms "t\<lparr>ct_conn := c, ct_out := (ct_out t)\<lparr>written := written (ct_out t) @ frame ser m\<rparr>\<rparr>"]
        Cons.prems step m FromServer after_poll_chunks [OF m(3)] by auto
  qed
qed

text \<open>
  C19: While a connection works, the server receives every message of the peer once and in
  order, those with wrong codes replaced by \<open>Dropped\<close>, and a final \<open>Dropped\<close> when the peer
  closes the socket; and the peer receives every message of the server in order, however the
  two directions interleave and the network cuts the bytes, provided no message of the server
  arrives when exactly a part of the peer's message behind its length has been read.
\<close>

theorem connection_relays_in_order:
  assumes "\<forall>m \<in> set ms. codec_ok ser deser m" and "list_all data_chunk st"
    and "stream_bytes st = concat (map (frame ser) ms)"
    and "good_run ser deser code key events \<lparr>ct_conn = new_connection st,
      ct_out = \<lparr>written = [], room = None\<rparr>, ct_tx = \<lparr>chan_sent = [], chan_open = True\<rparr>\<rparr>"
    and "length (filter ((=) SocketReady) events) = length ms"
  shows "\<exists>t. handle_connection ser deser code key (events @ [SocketReady]) st
       \<lparr>written = [], room = None\<rparr> \<lparr>chan_sent = [], chan_open = True\<rparr> = (t, Inr ()) \<and>
     chan_sent (ct_tx t) = map (relayed code key) ms @ [Dropped] \<and>
     written (ct_out t) = concat (map (frame ser) (outbound events))"
  using conn_loop_relays [OF assms(1,4,5)] assms(2,3)
  by (simp add: handle_connection_def new_connection_def unread_def)

theorem connection_relays_in_order_witness:
  "\<exists>t. handle_connection unit_ser unit_deser 42 7
       ([FromServer (Some 1) (Some PissOff), SocketReady, FromServer None (Some PissOff)] @ [SocketReady])
       [Bytes [0, 0, 0], Bytes [4, 5, 0, 0, 0]]
       \<lparr>written = [], room = None\<rparr> \<lparr>chan_sent = [], chan_open = True\<rparr> = (t, Inr ()) \<and>
     chan_sent (ct_tx t) = map (relayed 42 7) [CancelTask] @ [Dropped] \<and>
     written (ct_out t) = concat (map (frame unit_ser)
       (outbound [FromServer (Some 1) (Some PissOff), SocketReady, FromServer None (Some PissOff)]))"
  by (rule connection_relays_in_order)
    (simp_all add: frame_def unit_ser_def write_u32_def good_event_def after_poll_def read_abandoned.simps
      read_buf_def new_connection_def unread_def)

text \<open>A read that has got past the length when it is dropped.\<close>

lemma abandon_body_reads:
  assumes "list_all data_chunk st1" and "length (buf @ stream_bytes st1) < sz"
  shows "abandon_body sz (length st1) \<lparr>conn_stream = st1 @ st2, conn_buf = buf\<rparr> =
     Some \<lparr>conn_stream = st2, conn_buf = buf @ stream_bytes st1\<rparr>"
  using assms
proof (induction st1 arbitrary: buf)
  case (Cons r st1)
  then obtain bs where "r = Bytes bs" "bs \<noteq> []" by (cases r) auto
  then show ?case using Cons.IH [of "buf @ bs"] Cons.prems by (simp add: read_buf_def)
qed simp

lemma read_abandoned_reads:
  assumes "list_all data_chunk st1" and "4 \<le> length (buf @ stream_bytes st1)"
    and "length (buf @ stream_bytes st1) - 4 < i32_as_usize (get_i32 (take 4 (buf @ stream_bytes st1)))"
  shows "read_abandoned (length st1) \<lparr>conn_stream = st1 @ st2, conn_buf = buf\<rparr> =
     Some \<lparr>conn_stream = st2, conn_buf = drop 4 (buf @ stream_bytes st1)\<rparr>"
  using assms
proof (induction st1 arbitrary: buf)
  case Nil
  then show ?case by (subst read_abandoned.simps) simp
next
  case (Cons r st1)
  then obtain bs where r: "r = Bytes bs" "bs \<noteq> []" by (cases r) auto
  show ?case
  proof (cases "length buf < 4")
    case True
    then show ?thesis
      using r Cons.IH [of "buf @ bs"] Cons.prems by (subst read_abandoned.simps) (simp add: read_buf_def)
  next
    case False
    then have "abandon_body (i32_as_usize (get_i32 (take 4 buf))) (length (r # st1))
        \<lparr>conn_stream = (r # st1) @ st2, conn_buf = drop 4 buf\<rparr> =
        Some \<lparr>conn_stream = st2, conn_buf = drop 4 buf @ stream_bytes (r # st1)\<rparr>"
      using Cons.prems by (intro abandon_body_reads) simp_all
    then show ?thesis using False by (subst read_abandoned.simps) simp
  qed
qed

text \<open>
  C37: A message of the server that arrives while the peer's message has come in only in part,
  but with its length, makes the connection lose its place: the bytes that were read stay,
  the length does not, and the next read takes the rest of the message for the next length.
\<close>

theorem interrupted_read_loses_its_place:
  assumes "codec_ok ser deser m" and "list_all data_chunk st1" and "stream_bytes st1 = take k (frame ser m)"
    and "4 \<le> k" and "k < length (frame ser m)" and "ser out = Some data" and "room w = None"
  shows "\<exists>t. conn_step ser deser code key (FromServer (Some (length st1)) (Some out))
       \<lparr>ct_conn = new_connection (st1 @ st2), ct_out = w, ct_tx = tx\<rparr> = (t, Continue) \<and> ct_tx t = tx \<and>
     unread (ct_conn t) = drop 4 (take k (frame ser m)) @ stream_bytes st2"
proof -
  obtain enc where enc: "ser m = Some enc" "length enc < 2 ^ 31"
    using assms(1) by (auto elim: codec_okE)
  note fr = frame_Some [of ser m, OF enc(1)]
  have k: "take k (frame ser m) = write_u32 (word_of_nat (length enc)) @ take (k - 4) enc"
    using assms(4) by (simp add: fr)
  have "read_abandoned (length st1) (new_connection (st1 @ st2)) =
      Some \<lparr>conn_stream = st2, conn_buf = drop 4 (take k (frame ser m))\<rparr>"
    using read_abandoned_reads [OF assms(2), of "[]" st2] assms(3-5) enc(2) get_i32_write_u32 [where rest = "[]"]
    by (simp add: new_connection_def k fr i32_as_usize_small)
  then show ?thesis
    using assms(6,7)
    by (simp add: conn_step_def after_poll_def server_branch_def write_message_bytes unread_def)
qed

theorem interrupted_read_loses_its_place_witness:
  "\<exists>t. conn_step unit_ser unit_deser 42 7 (FromServer (Some 1) (Some PissOff))
       \<lparr>ct_conn = new_connection [Bytes [0, 0, 0, 4, 5, 0], Bytes [0, 0]],
        ct_out = \<lparr>written = [], room = None\<rparr>, ct_tx = \<lparr>chan_sent = [], chan_open = True\<rparr>\<rparr> = (t, Continue) \<and>
     unread (ct_conn t) = [5, 0, 0, 0]"
  using interrupted_read_loses_its_place [of unit_ser unit_deser CancelTask "[Bytes [0, 0, 0, 4, 5, 0]]" 6
      PissOff "[6, 0, 0, 0]" "\<lparr>written = [], room = None\<rparr>" 42 7 "[Bytes [0, 0]]"
      "\<lparr>chan_sent = [], chan_open = True\<rparr>"]
  by (auto simp: frame_def unit_ser_def write_u32_def)

text \<open>
  When the peer's socket refuses a message of the server, the task of the connection ends
  at once with an error: it has not told the server that the connection was dropped, and it
  relays nothing that the peer may still have sent.
\<close>

theorem write_error_is_silent:
  assumes "ser m = Some data" and "room w = Some r" and "r < 4 + length data"
  shows "\<exists>t. handle_connection ser deser code key (FromServer None (Some m) # events) st w tx =
     (t, Inl (Err ''broken pipe'')) \<and> ct_tx t = tx"
  using assms
  by (cases "4 \<le> r")
    (auto simp: handle_connection_def conn_step_def after_poll_def server_branch_def write_message_def
      write_all_def Let_def)

theorem write_error_is_silent_witness:
  "\<exists>t. handle_connection unit_ser unit_deser 42 7 (FromServer None (Some PissOff) # [SocketReady]) []
     \<lparr>written = [], room = Some 0\<rparr> \<lparr>chan_sent = [], chan_open = True\<rparr> =
     (t, Inl (Err ''broken pipe'')) \<and> ct_tx t = \<lparr>chan_sent = [], chan_open = True\<rparr>"
  by (rule write_error_is_silent [where data = "[6, 0, 0, 0]" and r = 0]) (simp_all add: unit_ser_def)

text \<open>The same holds of a message that cannot be decoded: the task panics.\<close>

lemma read_garbage:
  assumes "deser data = None" and "length data < 2 ^ 31"
  shows "read_message deser (new_connection [Bytes (write_u32 (word_of_nat (length data)) @ data)]) =
     Inl (Panic ''Unable to decode message'')"
proof -
  let ?n = "write_u32 (word_of_nat (length data))"
  have four: "length ?n = 4" by (simp add: write_u32_def)
  have "read_header (new_connection [Bytes (?n @ data)]) = Inr (True, \<lparr>conn_stream = [], conn_buf = ?n @ data\<rparr>)"
    by (subst read_header.simps, subst read_header.simps) (simp add: new_connection_def read_buf_def four)
  moreover have "read_body (length data) \<lparr>conn_stream = [], conn_buf = data\<rparr> =
      Inr \<lparr>conn_stream = [], conn_buf = data\<rparr>"
    by (subst read_body.simps) simp
  ultimately show ?thesis
    using assms four get_i32_write_u32 [of "word_of_nat (length data)" "[]"] i32_as_usize_small [OF assms(2)]
    by (simp add: read_message_def Let_def)
qed

theorem garbage_is_silent:
  assumes "deser data = None" and "length data < 2 ^ 31"
  shows "\<exists>t. handle_connection ser deser code key (SocketReady # events)
       [Bytes (write_u32 (word_of_nat (length data)) @ data)] w tx = (t, Inl (Panic ''Unable to decode message'')) \<and>
     ct_tx t = tx"
  by (simp add: handle_connection_def conn_step_def socket_branch_def read_garbage [of deser data, OF assms])

theorem garbage_is_silent_witness:
  "\<exists>t. handle_connection unit_ser unit_deser 42 7 [SocketReady] [Bytes (write_u32 (word_of_nat (length [9 :: u8])) @ [9])]
     \<lparr>written = [], room = None\<rparr> \<lparr>chan_sent = [], chan_open = True\<rparr> =
     (t, Inl (Panic ''Unable to decode message'')) \<and> ct_tx t = \<lparr>chan_sent = [], chan_open = True\<rparr>"
  by (rule garbage_is_silent) (simp_all add: unit_deser_def)

lemma new_access_code_bit: "bit (new_access_code rnd) n \<longleftrightarrow> bit rnd (Suc n) \<and> n \<noteq> 0"
  by (auto simp: new_access_code_def bit_simps dest: bit_imp_le_length)

lemma new_access_code_even: "new_access_code rnd AND 1 = 0" "NOT 1 AND new_access_code rnd = new_access_code rnd"
  by (auto intro!: bit_word_eqI simp: new_access_code_bit bit_simps)

lemma new_access_code_succ: "new_access_code rnd OR 1 = new_access_code rnd + 1"
  by (simp add: disjunctive_add_eq_or new_access_code_even)

lemma new_access_code_small: "unat (new_access_code rnd) < 2 ^ 63"
proof -
  have "new_access_code rnd = take_bit 63 (new_access_code rnd)"
    by (rule bit_word_eqI) (auto simp: bit_take_bit_iff new_access_code_bit dest: bit_imp_le_length)
  then have "unat (new_access_code rnd) = take_bit 63 (unat (new_access_code rnd))"
    by (metis unsigned_take_bit_eq)
  then show ?thesis by (metis take_bit_nat_less_exp)
qed

lemma exec_code_iff:
  "c AND NOT 1 = new_access_code rnd \<longleftrightarrow> c = new_access_code rnd \<or> c = new_access_code rnd + 1"
proof
  assume "c AND NOT 1 = new_access_code rnd"
  from and_not_1_eq [OF this] show "c = new_access_code rnd \<or> c = new_access_code rnd + 1"
    by (simp add: new_access_code_succ)
next
  assume "c = new_access_code rnd \<or> c = new_access_code rnd + 1"
  then show "c AND NOT 1 = new_access_code rnd"
    by (auto intro!: bit_word_eqI simp: new_access_code_bit bit_simps simp flip: new_access_code_succ)
qed

lemma new_access_code_odd: "(new_access_code rnd + 1) AND 1 \<noteq> 0"
proof
  assume "(new_access_code rnd + 1) AND 1 = 0"
  then have "bit ((new_access_code rnd OR 1) AND 1) 0 = bit (0 :: u64) 0"
    by (simp only: new_access_code_succ)
  then show False by (simp add: bit_simps)
qed

text \<open>
  The access code the server chooses is even and fits the 63 bits that its contact file can
  hold, so that the server's assertion about it holds; an executor is accepted with exactly
  this code or its successor, and only the successor marks it as one of the second queue; a
  client is accepted with the code itself only.
\<close>

theorem access_code_spec:
  "\<not> bit (new_access_code rnd) 0 \<and> unat (new_access_code rnd) < 2 ^ 63 \<and>
   returns (server_new Q cfg hist now \<lparr>addr = a, access_code = new_access_code rnd\<rparr> key cpus alt both verb) \<and>
   (\<not> must_drop (new_access_code rnd) key (YourObedientServant c key) \<longleftrightarrow>
      c = new_access_code rnd \<and> c AND 1 = 0 \<or> c = new_access_code rnd + 1 \<and> c AND 1 \<noteq> 0) \<and>
   (\<not> must_drop (new_access_code rnd) key (Task c key d) \<longleftrightarrow> c = new_access_code rnd)"
  using new_access_code_bit [of rnd 0] new_access_code_small [of rnd] new_access_code_even [of rnd]
    new_access_code_odd [of rnd] exec_code_iff [of c rnd]
  by (auto simp: server_new_def must_drop_def Let_def)

end
