(* ===== verification/Server_Loop.thy ===== *)
theory Server_Loop
  imports Server_Safe Server_Conn
begin

unbundle bit_operations_syntax

text \<open>
  The main loop of the server (\<open>run\<close> in \<open>src/src/server.rs\<close>) and the states it can reach.

  The loop waits for a new connection, a message relayed by a connection task or the
  watchdog.  \<open>Accept\<close>, \<open>Inbound\<close> and \<open>Watchdog\<close> are these three; \<open>Hangup i\<close> is the moment the
  task of connection \<open>i\<close> ends and the receiver of its channel disappears, which is not an
  iteration of the loop.  \<open>server_reachable\<close> are the states reached while the remotes follow
  the protocol.
\<close>

section \<open>The loop\<close>

datatype event =
    Accept
  | Inbound event_env nat message
  | Watchdog event_env
  | Hangup nat

definition hang_up :: "nat \<Rightarrow> 'q server_state \<Rightarrow> 'q server_state" where
  "hang_up i s =
     (if i < length (remotes s) then
        set_remote i ((remotes s ! i)\<lparr>send_chan := (send_chan (remotes s ! i))\<lparr>chan_open := False\<rparr>\<rparr>) s
      else s)"

definition on_event ::
  "'q task_pq \<Rightarrow> (nat \<Rightarrow> nat \<Rightarrow> nat) \<Rightarrow> event \<Rightarrow> 'q server_state \<Rightarrow> 'q server_state outcome" where
  "on_event Q bytes_add ev s =
     (case ev of
        Accept \<Rightarrow> Inr (fst (add_remote s))
      | Inbound E i msg \<Rightarrow>
          and_then (handle_msg Q bytes_add E i msg s) (\<lambda>s. Inr (activity_occurred (at_activity E) s))
      | Watchdog E \<Rightarrow>
          and_then (update Q (spawns E) (at_check E) s) (\<lambda>s.
          and_then (report_status Q s) (\<lambda>_. Inr (s\<lparr>bytes_this_period := 0\<rparr>)))
      | Hangup i \<Rightarrow> Inr (hang_up i s))"

definition ends_iteration :: "event \<Rightarrow> bool" where
  "ends_iteration ev = (case ev of Hangup _ \<Rightarrow> False | _ \<Rightarrow> True)"

text \<open>Each event comes with the time at which the end of its iteration reads the clock.\<close>

fun server_loop ::
  "'q task_pq \<Rightarrow> (nat \<Rightarrow> nat \<Rightarrow> nat) \<Rightarrow> (event \<times> systime) list \<Rightarrow> 'q server_state \<Rightarrow>
     'q server_state outcome" where
  "server_loop Q bytes_add [] s = Inl NotDone"
| "server_loop Q bytes_add ((ev, now) # evs) s =
     and_then (on_event Q bytes_add ev s) (\<lambda>s.
       if ends_iteration ev \<and> ok_to_shutdown Q now s then Inr s
       else server_loop Q bytes_add evs s)"

section \<open>The server process\<close>

text \<open>
  The environment of the process: the libraries that parse and print its files, the random
  numbers, the network, and the results of the system calls it makes.
\<close>

record 'v run_env =
  key_from_toml :: "string \<Rightarrow> user_private_key option"
  key_to_toml :: "user_private_key \<Rightarrow> string"
  key_can_write :: bool
  key_rnd :: u64
  cfg_from_toml :: "string \<Rightarrow> 'v config_wrapper option"
  hist_from_str :: "string \<Rightarrow> history option"
  hist_to_vec :: "history \<Rightarrow> string option"
  hist_tmp :: temp_file
  hist_time :: systime
  contact_to_toml :: "call_me \<Rightarrow> string option"
  env_home :: "string option"
  env_cwd :: "string list"
  code_rnd :: u64
  bound_addr :: "string \<Rightarrow> string outcome"
  net_ifaces :: "string + iface list"
  start_time :: systime
  stats_ok :: bool

text \<open>
  \<open>bound_addr\<close> gives the address a listener on a host ends up with, with the port the system
  chose.  The contact file is removed whenever \<open>run\<close> is left after it was written, also by an
  error or a panic.
\<close>

definition server_run ::
  "'q task_pq \<Rightarrow> (nat \<Rightarrow> nat \<Rightarrow> nat) \<Rightarrow> 'v run_env \<Rightarrow> nat option \<Rightarrow> bool \<Rightarrow> bool \<Rightarrow> bool \<Rightarrow>
     (event \<times> systime) list \<Rightarrow> text_fs \<Rightarrow> 'q server_state outcome \<times> text_fs" where
  "server_run Q bytes_add R max_cpus alt_start_cmd both_queues verb events fs =
     (let (user_key, fs) = load_user_private_key (key_from_toml R) (key_to_toml R) (key_can_write R)
            (key_rnd R) True (env_home R) fs;
          code = new_access_code (code_rnd R)
      in case bound_addr R (get_network_addr (net_ifaces R)) of
           Inl f \<Rightarrow> (Inl f, fs)
         | Inr address \<Rightarrow>
             let callme = \<lparr>addr = address, access_code = code\<rparr>
             in case write_server_contact_info (contact_to_toml R) fs (env_cwd R) callme of
                  Inl f \<Rightarrow> (Inl f, fs)
                | Inr fs \<Rightarrow>
                    (case and_then
                            (server_new Q (load_config_file (cfg_from_toml R) (env_home R) fs)
                               (load_current_history (hist_from_str R) (env_home R) fs) (start_time R)
                               callme user_key max_cpus alt_start_cmd both_queues verb)
                            (server_loop Q bytes_add events) of
                       Inl NotDone \<Rightarrow> (Inl NotDone, fs)
                     | Inl f \<Rightarrow> (Inl f, server_config_cleanup fs (env_cwd R))
                     | Inr s \<Rightarrow>
                         (case shutdown (hist_from_str R) (hist_to_vec R) (hist_tmp R) (hist_time R)
                                 (env_home R) fs s of
                            (s, fs) \<Rightarrow>
                              (if stats_ok R then Inr s else Inl (Err ''process statistics''),
                               server_config_cleanup fs (env_cwd R)))))"

section \<open>Reachable states\<close>

text \<open>What the environment is trusted with when an event arrives in state \<open>s\<close>.\<close>

definition event_ok :: "'q server_state \<Rightarrow> event \<Rightarrow> bool" where
  "event_ok s ev \<longleftrightarrow>
     (case ev of
        Accept \<Rightarrow> length (remotes s) < 2 ^ 32
      | Inbound E i msg \<Rightarrow> conforms s i msg
      | _ \<Rightarrow> True)"

inductive server_reachable ::
  "'q task_pq \<Rightarrow> (nat \<Rightarrow> nat \<Rightarrow> nat) \<Rightarrow> 'q server_state \<Rightarrow> 'q server_state \<Rightarrow> bool"
  for Q bytes_add s0 where
  start: "server_reachable Q bytes_add s0 s0"
| step: "server_reachable Q bytes_add s0 s \<Longrightarrow> event_ok s ev \<Longrightarrow> on_event Q bytes_add ev s = Inr s' \<Longrightarrow>
    server_reachable Q bytes_add s0 s'"

inductive_cases server_reachableE: "server_reachable Q bytes_add s0 s"

definition server_step :: "'q task_pq \<Rightarrow> (nat \<Rightarrow> nat \<Rightarrow> nat) \<Rightarrow> 'q server_state \<Rightarrow> 'q server_state \<Rightarrow> bool" where
  "server_step Q bytes_add s s' \<longleftrightarrow> (\<exists>ev. event_ok s ev \<and> on_event Q bytes_add ev s = Inr s')"

lemma server_reachable_iff: "server_reachable Q bytes_add s0 s \<longleftrightarrow> (server_step Q bytes_add)\<^sup>*\<^sup>* s0 s"
proof
  assume "server_reachable Q bytes_add s0 s"
  then show "(server_step Q bytes_add)\<^sup>*\<^sup>* s0 s"
    by induction (auto simp: server_step_def intro: rtranclp.rtrancl_into_rtrancl)
next
  assume "(server_step Q bytes_add)\<^sup>*\<^sup>* s0 s"
  then show "server_reachable Q bytes_add s0 s"
    by induction (auto simp: server_step_def intro: server_reachable.intros)
qed

definition fresh :: "'q task_pq \<Rightarrow> 'q server_state \<Rightarrow> bool" where
  "fresh Q s \<longleftrightarrow>
     remotes s = [] \<and> task_queue s = pq_new Q \<and> exec_queue s = [] \<and> submit_count s = 0 \<and>
     finish_count s = 0 \<and> running_exec_count s = 0"

lemma server_new_fresh:
  "server_new Q cfg hist now port key cpus alt both verb = Inr s \<Longrightarrow> fresh Q s"
  by (auto simp: server_new_def fresh_def Let_def split: if_splits)

context server_queue
begin

lemma fresh_inv: "fresh Q s \<Longrightarrow> inv s"
  by (auto simp: fresh_def server_inv_def wiring_inv_def exec_queue_inv_def task_queue_inv_def
      pairing_inv_def pending_inv_def ok_new items_new)

lemma hang_up_inv: "inv s \<Longrightarrow> inv (hang_up i s)"
  by (auto simp: hang_up_def same_role_def intro!: inv_same_role)

lemma report_status_safe: "inv s \<Longrightarrow> returns (report_status Q s)"
  using server_invD(1,5) [of items q_ok s] by (simp add: report_status_def len_items)

lemma on_event_inv:
  assumes "inv s" and "event_ok s ev"
  shows "safely inv (on_event Q bytes_add ev s)"
proof (cases ev)
  case Accept
  then show ?thesis using assms inv_new_pending by (simp add: on_event_def event_ok_def)
next
  case (Inbound E i msg)
  have "safely inv (and_then (handle_msg Q bytes_add E i msg s)
      (\<lambda>s. Inr (activity_occurred (at_activity E) s)))"
    by (rule safely_and_then [OF handle_msg_inv])
      (use assms Inbound in \<open>simp_all add: event_ok_def activity_occurred_def server_inv_def\<close>)
  then show ?thesis by (simp add: on_event_def Inbound)
next
  case (Watchdog E)
  have "safely inv (and_then (update Q (spawns E) (at_check E) s) (\<lambda>s.
      and_then (report_status Q s) (\<lambda>_. Inr (s\<lparr>bytes_this_period := 0\<rparr>))))"
  proof (rule safely_and_then [OF update_inv [OF assms(1)]], goal_cases)
    case (1 s')
    then show ?case
      using report_status_safe [of s']
      by (cases "report_status Q s'") (auto simp: server_inv_def)
  qed
  then show ?thesis by (simp add: on_event_def Watchdog)
next
  case (Hangup i)
  then show ?thesis using assms(1) hang_up_inv by (simp add: on_event_def)
qed

lemma server_step_inv:
  assumes "inv s" and "server_step Q bytes_add s s'"
  shows "inv s'"
proof -
  obtain ev where "event_ok s ev" "on_event Q bytes_add ev s = Inr s'"
    using assms(2) by (auto simp: server_step_def)
  with on_event_inv [OF assms(1), of ev bytes_add] show ?thesis by simp
qed

lemma server_steps_inv: "(server_step Q bytes_add)\<^sup>*\<^sup>* s s' \<Longrightarrow> inv s \<Longrightarrow> inv s'"
  by (induction rule: rtranclp_induct) (auto intro: server_step_inv)

lemma reachable_inv: "server_reachable Q bytes_add s0 s \<Longrightarrow> fresh Q s0 \<Longrightarrow> inv s"
  using server_steps_inv fresh_inv by (simp add: server_reachable_iff)

end

end
