(* ===== verification/Server_System.thy ===== *)
theory Server_System
  imports Server_Loop
begin

unbundle bit_operations_syntax

text \<open>
  The server together with remotes that only know their own side of the conversation.

  \<open>conforms\<close> speaks about the state of the server; here a remote is held to a local rule,
  \<open>may_say\<close>, about what it has said and what it was sent: it introduces itself once, as a
  client or as an executor, an executor reports only on tasks it was given, each one once,
  and nothing follows the loss of the connection.  The theory shows that remotes that keep to
  the local rule conform.
\<close>

section \<open>The local rule\<close>

fun is_task_msg :: "message \<Rightarrow> bool" where
  "is_task_msg (Task _ _ _) = True"
| "is_task_msg _ = False"

text \<open>The message that ends the report on a task.\<close>

fun is_final :: "message \<Rightarrow> bool" where
  "is_final (TaskDone _ _ _ _) = True"
| "is_final (TaskFailed _) = True"
| "is_final _ = False"

fun is_report :: "message \<Rightarrow> bool" where
  "is_report (TaskOutput _ _) = True"
| "is_report m = is_final m"

fun is_hello :: "message \<Rightarrow> bool" where
  "is_hello (YourObedientServant _ _) = True"
| "is_hello _ = False"

definition tasks_in :: "message list \<Rightarrow> nat" where
  "tasks_in ms = length (filter is_task_msg ms)"

definition finals_in :: "message list \<Rightarrow> nat" where
  "finals_in ms = length (filter is_final ms)"

text \<open>
  What a remote that received \<open>got\<close> and said \<open>said\<close> may say next.
\<close>

definition may_say :: "message list \<Rightarrow> message list \<Rightarrow> message \<Rightarrow> bool" where
  "may_say got said msg \<longleftrightarrow>
     Dropped \<notin> set said \<and>
     (case msg of
        YourObedientServant _ _ \<Rightarrow> said = []
      | Task _ _ d \<Rightarrow> said = [] \<and> wf_task d
      | Dropped \<Rightarrow> True
      | _ \<Rightarrow> is_report msg \<and> said \<noteq> [] \<and> is_hello (hd said) \<and> finals_in said < tasks_in got)"

section \<open>The system\<close>

text \<open>The server, and per connection the messages of its remote that the server has handled.\<close>

record 'q system =
  srv :: "'q server_state"
  said :: "nat \<Rightarrow> message list"

definition received :: "'q server_state \<Rightarrow> nat \<Rightarrow> message list" where
  "received s i = chan_sent (send_chan (remotes s ! i))"

text \<open>
  Three conditions do not concern the order of messages: durations must not overflow when
  they are added up, there are fewer than \<open>2 ^ 32\<close> connections, and the task of a lost
  connection has ended when the server handles the loss.
\<close>

definition sums_fit :: "'q server_state \<Rightarrow> message \<Rightarrow> bool" where
  "sums_fit s msg \<longleftrightarrow>
     (case msg of
        Task _ _ d \<Rightarrow>
          (case get_target_id d of
             Inr t \<Rightarrow> returns (task_priority (prior_history s) t (priority_task d))
           | Inl _ \<Rightarrow> True)
      | TaskDone _ _ run_time send_time \<Rightarrow>
          total_run_time s + run_time \<le> dur_max \<and> total_send_time s + send_time \<le> dur_max
      | _ \<Rightarrow> True)"

definition honest :: "'q system \<Rightarrow> event \<Rightarrow> bool" where
  "honest y ev \<longleftrightarrow>
     (case ev of
        Accept \<Rightarrow> length (remotes (srv y)) < 2 ^ 32
      | Inbound E i msg \<Rightarrow>
          i < length (remotes (srv y)) \<and> may_say (received (srv y) i) (said y i) msg \<and>
          sums_fit (srv y) msg \<and>
          (msg = Dropped \<longrightarrow> \<not> chan_open (send_chan (remotes (srv y) ! i)))
      | _ \<Rightarrow> True)"

definition system_event ::
  "'q task_pq \<Rightarrow> (nat \<Rightarrow> nat \<Rightarrow> nat) \<Rightarrow> event \<Rightarrow> 'q system \<Rightarrow> 'q system outcome" where
  "system_event Q bytes_add ev y =
     and_then (on_event Q bytes_add ev (srv y)) (\<lambda>s.
       Inr (case ev of
              Inbound E i msg \<Rightarrow> \<lparr>srv = s, said = (said y)(i := said y i @ [msg])\<rparr>
            | _ \<Rightarrow> y\<lparr>srv := s\<rparr>))"

definition system_step ::
  "'q task_pq \<Rightarrow> (nat \<Rightarrow> nat \<Rightarrow> nat) \<Rightarrow> 'q system \<Rightarrow> 'q system \<Rightarrow> bool" where
  "system_step Q bytes_add y y' \<longleftrightarrow> (\<exists>ev. honest y ev \<and> system_event Q bytes_add ev y = Inr y')"

definition system_start :: "'q server_state \<Rightarrow> 'q system" where
  "system_start s0 = \<lparr>srv = s0, said = (\<lambda>_. [])\<rparr>"

section \<open>Tasks given and tasks reported\<close>

text \<open>
  The tasks a remote was given, less the one it is working on: as many as it has reported.
\<close>

definition settled :: "remote \<Rightarrow> int" where
  "settled r = int (tasks_in (chan_sent (send_chan r))) - of_bool (is_busy_exec r)"

definition pending :: "remote \<Rightarrow> bool" where
  "pending r \<longleftrightarrow> conn_type r = Pending"

text \<open>\<open>tracks i s s'\<close>: from \<open>s\<close> to \<open>s'\<close> no remote but \<open>i\<close> has settled a task or introduced itself.\<close>

definition tracks :: "nat option \<Rightarrow> 'q server_state \<Rightarrow> 'q server_state \<Rightarrow> bool" where
  "tracks i s s' \<longleftrightarrow>
     length (remotes s') = length (remotes s) \<and>
     (\<forall>j < length (remotes s). Some j \<noteq> i \<longrightarrow>
        settled (remotes s' ! j) = settled (remotes s ! j) \<and> pending (remotes s' ! j) = pending (remotes s ! j))"

lemma tracks_refl [simp, intro]: "tracks i s s"
  by (simp add: tracks_def)

lemma tracks_trans: "tracks i s s' \<Longrightarrow> tracks i s' s'' \<Longrightarrow> tracks i s s''"
  by (simp add: tracks_def)

lemma tracks_same: "remotes s' = remotes s \<Longrightarrow> tracks i s s'"
  by (simp add: tracks_def)

lemma tracks_weaken: "tracks None s s' \<Longrightarrow> tracks i s s'"
  by (simp add: tracks_def)

lemma tracksD:
  assumes "tracks i s s'" and "j < length (remotes s)" and "Some j \<noteq> i"
  shows "settled (remotes s' ! j) = settled (remotes s ! j)" "pending (remotes s' ! j) = pending (remotes s ! j)"
  using assms by (auto simp: tracks_def)

lemma tasks_in_snoc [simp]: "tasks_in (ms @ [m]) = tasks_in ms + of_bool (is_task_msg m)"
  by (simp add: tasks_in_def)

lemma finals_in_simps [simp]:
  "finals_in [] = 0" "finals_in (m # ms) = of_bool (is_final m) + finals_in ms"
  "finals_in (ms @ ms') = finals_in ms + finals_in ms'"
  by (simp_all add: finals_in_def)

lemma tracks_set_remote:
  assumes "i < length (remotes s)" and "settled r = settled (remotes s ! i)"
    and "pending r = pending (remotes s ! i)"
  shows "tracks k s (set_remote i r s)"
  using assms by (simp add: tracks_def set_remote_def nth_list_update)

lemma tracks_set_self: "tracks (Some i) s (set_remote i r s)"
  by (simp add: tracks_def set_remote_def nth_list_update)

lemma settled_update [simp]:
  "settled (r\<lparr>send_chan := (send_chan r)\<lparr>chan_open := b\<rparr>\<rparr>) = settled r"
  "settled (r\<lparr>send_chan := (send_chan r)\<lparr>chan_sent := ms @ [m]\<rparr>\<rparr>) =
     int (tasks_in ms) + of_bool (is_task_msg m) - of_bool (is_busy_exec r)"
  by (simp_all add: settled_def is_busy_exec_def)

lemma pending_update [simp]:
  "pending (r\<lparr>send_chan := ch\<rparr>) = pending r" "pending (r\<lparr>paired_id := p\<rparr>) = pending r"
  "pending (r\<lparr>conn_type := ct\<rparr>) \<longleftrightarrow> ct = Pending"
  by (simp_all add: pending_def)

lemma send_to_paired_remote_tracks:
  assumes "send_to_paired_remote i msg s = Inr s'" and "\<not> is_task_msg msg"
  shows "tracks None s s'"
  using assms
  by (auto simp: send_to_paired_remote_def Let_def and_then_eq_Inr index_def chan_send_def
      is_busy_exec_def settled_def pending_def
      intro!: tracks_set_remote split: if_splits option.splits)

lemma only_starts_tracks: "only_starts s s' \<Longrightarrow> tracks i s s'"
  by (auto simp: only_starts_def intro: tracks_same)

text \<open>Remote \<open>i\<close> has introduced itself by now and settles \<open>k\<close> tasks; no other remote does either.\<close>

definition advances :: "nat \<Rightarrow> int \<Rightarrow> 'q server_state \<Rightarrow> 'q server_state \<Rightarrow> bool" where
  "advances i k s s' \<longleftrightarrow>
     i < length (remotes s) \<and> tracks (Some i) s s' \<and> \<not> pending (remotes s' ! i) \<and>
     settled (remotes s' ! i) = settled (remotes s ! i) + k"

lemma advances_tracks:
  assumes "advances i k s s'" and "tracks None s' s''"
  shows "advances i k s s''"
  using assms tracks_trans [OF _ tracks_weaken, of "Some i" s s' s'']
  by (auto simp: advances_def tracks_def)

lemma tracks_advances:
  assumes "tracks None s s'" and "advances i k s' s''"
  shows "advances i k s s''"
  using assms tracks_trans [OF tracks_weaken, of s s' "Some i" s'']
  by (auto simp: advances_def tracks_def)

context server_queue
begin

lemma assign_one_tracks:
  assumes "inv s" and "assign_one Q s = Inr s'"
  shows "tracks None s s'"
  by (rule assign_one_returns [OF assms])
    (auto simp: tracks_def nth_list_update settled_def is_busy_exec_def)

lemma release_one_tracks:
  assumes "inv s" and "release_one s = Inr s'"
  shows "tracks None s s'"
  by (rule release_one_returns [OF assms])
    (auto simp: tracks_def nth_list_update settled_def is_busy_exec_def pending_def)

lemma update_tracks:
  assumes "inv s" and "update Q sp now s = Inr s'"
  shows "inv s' \<and> tracks None s s'"
  by (rule update_keeps [OF assms])
    (blast intro: tracks_trans only_starts_tracks assign_one_tracks release_one_tracks)+

lemma exec_is_ready_tracks:
  assumes "inv s" and "is_busy s i"
    and "exec_is_ready Q E i (s\<lparr>finish_count := finish_count s + 1\<rparr>) = Inr s'"
  shows "advances i 1 s s'"
proof -
  obtain p where i: "i < length (remotes s)" "conn_type (remotes s ! i) = Exec"
      "paired_id (remotes s ! i) = Some p"
    using busy_pair [OF assms(1,2)] by metis
  let ?s = "(set_remote i ((remotes s ! i)\<lparr>paired_id := None\<rparr>) (s\<lparr>finish_count := finish_count s + 1\<rparr>))
    \<lparr>exec_queue := exec_queue s @ [i]\<rparr>"
  have "inv ?s" by (rule inv_free_exec [OF assms(1) i]) (simp_all add: set_remote_def)
  moreover have "update Q (spawns E) (at_check E) ?s = Inr s'"
    using assms(3) i by (simp add: exec_is_ready_def set_remote_def)
  ultimately have "tracks None ?s s'" using update_tracks by blast
  moreover have "advances i 1 s ?s"
    using i by (simp add: advances_def tracks_def set_remote_def nth_list_update settled_def
        is_busy_exec_def pending_def)
  ultimately show ?thesis by (rule advances_tracks [rotated])
qed

lemma remote_is_exec_tracks:
  assumes "inv s" and "is_pending s i" and "remote_is_exec Q E i second s = Inr s'"
  shows "advances i 0 s s'"
proof -
  have i: "i < length (remotes s)" "conn_type (remotes s ! i) = Pending"
    using assms(2) by (auto simp: is_pending_def)
  have ok: "advances i 0 s s'"
    if t: "remotes t = (remotes s)[i := (remotes s ! i)\<lparr>conn_type := Exec, paired_id := None\<rparr>]"
      "task_queue t = task_queue s" "exec_queue t = exec_queue s @ [i]"
      "submit_count t = submit_count s" "finish_count t = finish_count s"
      "running_exec_count t = running_exec_count s + 1"
      and u: "update Q (spawns E) (at_check E) t = Inr s'" for t
  proof (rule advances_tracks)
    show "tracks None t s'" using update_tracks [OF inv_new_exec [OF assms(1) i t] u] by blast
    show "advances i 0 s t"
      using i by (simp add: t advances_def tracks_def nth_list_update settled_def is_busy_exec_def pending_def)
  qed
  show ?thesis
    using i assms(3)
    by (auto simp: remote_is_exec_def exec_is_ready_def set_remote_def Let_def
        split: if_splits dest!: ok [rotated -1])
qed

lemma remote_is_client_tracks:
  assumes "inv s" and "is_pending s i" and "wf_task d"
    and "remote_is_client Q E i d (s\<lparr>submit_count := submit_count s + 1\<rparr>) = Inr s'"
  shows "\<exists>k. advances i k s s'"
proof -
  have i: "i < length (remotes s)" using assms(2) by (simp add: is_pending_def)
  obtain prior where u: "update Q (spawns E) (at_check E)
      ((set_remote i ((remotes s ! i)\<lparr>conn_type := Client\<rparr>) (s\<lparr>submit_count := submit_count s + 1\<rparr>))
        \<lparr>task_queue := pq_push Q (i, d) prior (task_queue s), last_submit_time := Some (at_submit E)\<rparr>) = Inr s'"
    (is "update Q _ _ (?t prior) = _")
    using assms(4) i by (auto simp: remote_is_client_def and_then_eq_Inr set_remote_def)
  have "tracks None (?t prior) s'"
    using update_tracks [OF client_pushed_inv [OF assms(1-3)] u] by blast
  moreover have "advances i (settled ((remotes s ! i)\<lparr>conn_type := Client\<rparr>) - settled (remotes s ! i)) s (?t prior)"
    using i by (simp add: advances_def tracks_def set_remote_def nth_list_update pending_def)
  ultimately show ?thesis using advances_tracks by blast
qed

end

lemma handle_dropped_remotes:
  fixes s :: "'q server_state"
  defines "sent_failed p \<equiv> (remotes s)[p := (remotes s ! p)\<lparr>send_chan :=
      (send_chan (remotes s ! p))\<lparr>chan_sent := chan_sent (send_chan (remotes s ! p)) @
        [TaskFailed ''exec dropped connection'']\<rparr>\<rparr>]"
  assumes "handle_dropped i s = Inr s'"
  shows "i < length (remotes s) \<and>
    (remotes s' = (remotes s)[i := (remotes s ! i)\<lparr>conn_type := Dead\<rparr>] \<or>
     (\<exists>p < length (remotes s). remotes s' = (sent_failed p)[i := (sent_failed p ! i)\<lparr>conn_type := Dead\<rparr>]))"
  using assms(2)
  by (auto simp: handle_dropped_def and_then_eq_Inr index_def set_remote_def sent_failed_def
      split: if_splits connection_type.splits option.splits)

lemma handle_dropped_tracks:
  assumes "handle_dropped i s = Inr s'"
  shows "\<exists>k. advances i k s s'"
proof -
  have "i < length (remotes s)" "tracks (Some i) s s'" "\<not> pending (remotes s' ! i)"
    using handle_dropped_remotes [OF assms]
    by (auto simp: tracks_def nth_list_update settled_def is_busy_exec_def pending_def split: if_splits)
  then show ?thesis
    by (intro exI [of _ "settled (remotes s' ! i) - settled (remotes s ! i)"]) (simp add: advances_def)
qed

text \<open>
  What a message does to the remotes: its sender has introduced itself, and if it neither
  submits a task nor leaves, it has settled as many tasks as the message says.
\<close>

definition accounts :: "nat \<Rightarrow> message \<Rightarrow> 'q server_state \<Rightarrow> 'q server_state \<Rightarrow> bool" where
  "accounts i msg s s' \<longleftrightarrow>
     (\<exists>k. advances i k s s' \<and> (is_hello msg \<or> is_report msg \<longrightarrow> k = of_bool (is_final msg)))"

lemma remotes_finish [simp]:
  "remotes (s\<lparr>total_bytes := a, bytes_this_period := b\<rparr>) = remotes s"
  "remotes (record_elapsed now t d s) = remotes s"
  by (simp_all add: record_elapsed_def)

lemma advances_same:
  "remotes t = remotes s \<Longrightarrow> remotes t' = remotes s' \<Longrightarrow> advances i k t t' = advances i k s s'"
  by (simp add: advances_def tracks_def)

context server_queue
begin

lemma report_tracks:
  assumes "inv s" and "is_busy s i" and "\<not> is_task_msg msg"
    and "send_to_paired_remote i msg s = Inr s1"
    and "exec_is_ready Q E i (s1\<lparr>finish_count := finish_count s1 + 1\<rparr>) = Inr s'"
  shows "advances i 1 s s'"
proof -
  have "inv s1" "is_busy s1 i" using send_to_paired_remote_inv [OF assms(1,2), of msg] assms(4) by auto
  with exec_is_ready_tracks [OF _ _ assms(5)] send_to_paired_remote_tracks [OF assms(4,3)]
  show ?thesis by (blast intro: tracks_advances)
qed

lemma handle_msg_accounts:
  assumes "inv s" and "conforms s i msg" and "handle_msg Q bytes_add E i msg s = Inr s'"
  shows "accounts i msg s s'"
proof (cases msg)
  case (YourObedientServant c k)
  then show ?thesis
    using assms remote_is_exec_tracks by (auto simp: handle_msg_def conforms_def accounts_def)
next
  case (Task a u d)
  then have "is_pending s i" "wf_task d"
    using assms(2) wf_task_iff [of d] by (auto simp: conforms_def returns_def split: sum.splits)
  then show ?thesis
    using assms Task remote_is_client_tracks by (auto simp: handle_msg_def accounts_def)
next
  case (TaskOutput ot content)
  let ?s = "s\<lparr>total_bytes := bytes_add (total_bytes s) (length content),
    bytes_this_period := bytes_add (bytes_this_period s) (length content)\<rparr>"
  have "send_to_paired_remote i msg ?s = Inr s'" using assms(3) TaskOutput by (simp add: handle_msg_def)
  then have "tracks None ?s s'" using send_to_paired_remote_tracks TaskOutput by fastforce
  then show ?thesis
    using assms(2) TaskOutput
    by (auto simp: accounts_def advances_def tracks_def conforms_def is_busy_def is_busy_exec_def pending_def)
next
  case (TaskFailed e)
  then show ?thesis
    using assms report_tracks [of s i msg]
    by (auto simp: handle_msg_def conforms_def accounts_def and_then_eq_Inr)
next
  case (TaskDone code t run_time send_time)
  let ?s = "if code = Some 0 then record_elapsed (at_record E) t run_time s else s"
  have s: "inv ?s" "is_busy ?s i" "remotes ?s = remotes s"
    using assms TaskDone by (auto simp: record_elapsed_def server_inv_def conforms_def is_busy_def)
  obtain s1 s2 where 1: "send_to_paired_remote i msg ?s = Inr s1"
      "exec_is_ready Q E i (s1\<lparr>finish_count := finish_count s1 + 1\<rparr>) = Inr s2" "remotes s' = remotes s2"
    using assms(3) by (auto simp: TaskDone handle_msg_def and_then_eq_Inr Let_def)
  have "advances i 1 ?s s2" by (rule report_tracks [OF s(1,2) _ 1(1,2)]) (simp add: TaskDone)
  then have "advances i 1 s s'" using advances_same [OF s(3) 1(3) [symmetric]] by blast
  then show ?thesis by (auto simp: accounts_def TaskDone)
next
  case Dropped
  then show ?thesis
    using assms handle_dropped_tracks by (auto simp: handle_msg_def accounts_def)
qed (use assms(2) in \<open>simp_all add: conforms_def\<close>)

end

section \<open>The invariant of the system\<close>

text \<open>
  A remote that said nothing is pending, and a remote that introduced itself as an executor
  and is still there has settled as many tasks as it reported.
\<close>

definition agrees :: "remote \<Rightarrow> message list \<Rightarrow> bool" where
  "agrees r ms \<longleftrightarrow>
     (ms = [] \<longleftrightarrow> pending r) \<and>
     ((ms = [] \<or> is_hello (hd ms)) \<and> Dropped \<notin> set ms \<longrightarrow> settled r = int (finals_in ms))"

definition system_agrees :: "'q system \<Rightarrow> bool" where
  "system_agrees y \<longleftrightarrow>
     (\<forall>i < length (remotes (srv y)). agrees (remotes (srv y) ! i) (said y i)) \<and>
     (\<forall>i \<ge> length (remotes (srv y)). said y i = [])"

lemma system_agreesD:
  assumes "system_agrees y"
  shows "i < length (remotes (srv y)) \<Longrightarrow> agrees (remotes (srv y) ! i) (said y i)"
    and "length (remotes (srv y)) \<le> i \<Longrightarrow> said y i = []"
  using assms by (auto simp: system_agrees_def)

lemma agrees_tracked:
  assumes "system_agrees y" and "tracks None (srv y) s'"
  shows "system_agrees (y\<lparr>srv := s'\<rparr>)"
  using assms by (simp add: system_agrees_def tracks_def agrees_def)

lemma agrees_accepted:
  assumes "system_agrees y"
  shows "system_agrees (y\<lparr>srv := fst (add_remote (srv y))\<rparr>)"
  using assms
  by (auto simp: system_agrees_def add_remote_def nth_append agrees_def pending_def settled_def
      is_busy_exec_def tasks_in_def finals_in_def less_Suc_eq)

text \<open>The local rule gives what the handlers rely on.\<close>

lemma agrees_conforms:
  assumes "system_agrees y" and "honest y (Inbound E i msg)"
  shows "conforms (srv y) i msg"
proof -
  have i: "i < length (remotes (srv y))" and say: "may_say (received (srv y) i) (said y i) msg"
    and fit: "sums_fit (srv y) msg"
    and lost: "msg = Dropped \<Longrightarrow> \<not> chan_open (send_chan (remotes (srv y) ! i))"
    using assms(2) by (auto simp: honest_def)
  note a = system_agreesD(1) [OF assms(1) i]
  have pend: "is_pending (srv y) i" if "said y i = []"
    using a i that by (simp add: agrees_def is_pending_def pending_def)
  have busy: "is_busy (srv y) i"
    if "is_hello (hd (said y i))" "finals_in (said y i) < tasks_in (received (srv y) i)"
    using a i that say
    by (cases "is_busy_exec (remotes (srv y) ! i)")
      (auto simp: agrees_def may_say_def settled_def received_def is_busy_def)
  show ?thesis
    using say fit i pend busy lost wf_task_iff
    by (cases msg) (auto simp: conforms_def may_say_def sums_fit_def returns_def split: sum.splits)
qed

lemma agrees_handled:
  assumes "system_agrees y" and "honest y (Inbound E i msg)" and "accounts i msg (srv y) s'"
  shows "system_agrees \<lparr>srv = s', said = (said y)(i := said y i @ [msg])\<rparr>"
proof -
  obtain k where k: "advances i k (srv y) s'" "is_hello msg \<or> is_report msg \<longrightarrow> k = of_bool (is_final msg)"
    using assms(3) by (auto simp: accounts_def)
  then have i: "i < length (remotes (srv y))" "tracks (Some i) (srv y) s'"
    by (simp_all add: advances_def)
  have "agrees (remotes s' ! i) (said y i @ [msg])"
    using system_agreesD(1) [OF assms(1) i(1)] k assms(2)
    by (cases msg; cases "said y i") (auto simp: agrees_def advances_def honest_def may_say_def finals_in_def)
  then show ?thesis
    using assms(1) i by (auto simp: system_agrees_def tracks_def agrees_def)
qed

lemma agrees_start: "remotes s0 = [] \<Longrightarrow> system_agrees (system_start s0)"
  by (simp add: system_agrees_def system_start_def)

context server_queue
begin

lemma system_event_agrees:
  assumes "inv (srv y)" and "system_agrees y" and "honest y ev"
    and "system_event Q bytes_add ev y = Inr y'"
  shows "event_ok (srv y) ev" and "on_event Q bytes_add ev (srv y) = Inr (srv y')" and "system_agrees y'"
proof -
  show ok: "event_ok (srv y) ev"
    using agrees_conforms [OF assms(2)] assms(3) by (cases ev) (auto simp: event_ok_def honest_def)
  show on: "on_event Q bytes_add ev (srv y) = Inr (srv y')"
    using assms(4) by (cases ev) (auto simp: system_event_def and_then_eq_Inr)
  show "system_agrees y'"
  proof (cases ev)
    case Accept
    then have "y' = y\<lparr>srv := fst (add_remote (srv y))\<rparr>"
      using assms(4) by (simp add: system_event_def on_event_def)
    then show ?thesis using agrees_accepted [OF assms(2)] by simp
  next
    case (Inbound E i msg)
    obtain s1 where s1: "handle_msg Q bytes_add E i msg (srv y) = Inr s1"
        "y' = \<lparr>srv = activity_occurred (at_activity E) s1, said = (said y)(i := said y i @ [msg])\<rparr>"
      using assms(4) by (auto simp: Inbound system_event_def on_event_def and_then_eq_Inr)
    have "accounts i msg (srv y) s1"
      using ok Inbound by (intro handle_msg_accounts [OF assms(1) _ s1(1)]) (simp add: event_ok_def)
    then have "accounts i msg (srv y) (srv y')"
      by (simp add: s1(2) accounts_def advances_def tracks_def activity_occurred_def)
    with agrees_handled [OF assms(2)] assms(3) Inbound s1(2) show ?thesis by fastforce
  next
    case (Watchdog E)
    obtain s1 where "update Q (spawns E) (at_check E) (srv y) = Inr s1"
        "y' = y\<lparr>srv := s1\<lparr>bytes_this_period := 0\<rparr>\<rparr>"
      using assms(4) by (auto simp: Watchdog system_event_def on_event_def and_then_eq_Inr)
    then show ?thesis
      using agrees_tracked [OF assms(2), of "srv y'"] update_tracks [OF assms(1)] by (auto simp: tracks_def)
  next
    case (Hangup i)
    then have "y' = y\<lparr>srv := hang_up i (srv y)\<rparr>"
      using assms(4) by (simp add: system_event_def on_event_def)
    moreover have "tracks None (srv y) (hang_up i (srv y))"
      by (auto simp: hang_up_def intro!: tracks_set_remote)
    ultimately show ?thesis using agrees_tracked [OF assms(2)] by simp
  qed
qed

lemma system_step_server:
  assumes "inv (srv y) \<and> system_agrees y" and "system_step Q bytes_add y y'"
  shows "server_step Q bytes_add (srv y) (srv y')" and "system_agrees y'"
proof -
  obtain ev where ev: "honest y ev" "system_event Q bytes_add ev y = Inr y'"
    using assms(2) by (auto simp: system_step_def)
  note st = system_event_agrees [OF conjunct1 [OF assms(1)] conjunct2 [OF assms(1)] ev]
  show "server_step Q bytes_add (srv y) (srv y')" using st(1,2) by (auto simp: server_step_def)
  show "system_agrees y'" by (rule st(3))
qed

end

text \<open>Remotes that keep to the local rule drive the server only through states it is built for.\<close>

sublocale server_queue < sys: simulation "system_step Q bytes_add" "\<lambda>y. inv (srv y) \<and> system_agrees y"
    "server_step Q bytes_add" inv srv for bytes_add
proof unfold_locales
  fix y y' assume y: "inv (srv y) \<and> system_agrees y" "system_step Q bytes_add y y'"
  note st = system_step_server [OF y]
  show "inv (srv y') \<and> system_agrees y'" using y(1) st server_step_inv by blast
  show "(server_step Q bytes_add)\<^sup>*\<^sup>* (srv y) (srv y')" using st(1) by (rule r_into_rtranclp)
qed (rule server_step_inv)

context server_queue
begin

lemma system_reached:
  assumes "(system_step Q bytes_add)\<^sup>*\<^sup>* (system_start s0) y" and "fresh Q s0"
  shows "inv (srv y) \<and> system_agrees y"
  using fresh_inv [OF assms(2)] agrees_start [of s0] assms(2)
  by (intro sys.refines(1) [OF assms(1)]) (simp add: fresh_def system_start_def)

end

end
