(* ===== verification/Server_Sched.thy ===== *)
theory Server_Sched
  imports Server_System
begin

unbundle bit_operations_syntax

text \<open>
  An abstract scheduler and the refinement of it by the server.

  The scheduler knows which connections are unidentified, which clients are there, which
  tasks wait, which executors are idle and which client each busy executor works for, and how
  many final answers each client was sent.  It has no queues, channels, priorities, counters
  or clocks.  That every client is answered once is proved of the scheduler; the simulation
  carries it over to the server.
\<close>

section \<open>The scheduler\<close>

record sched =
  unknown :: "nat set"
  clients :: "nat set"
  waiting :: "nat set"
  idle :: "nat set"
  running :: "nat \<rightharpoonup> nat"
  answers :: "nat \<Rightarrow> nat"

inductive sched_step :: "sched \<Rightarrow> sched \<Rightarrow> bool" where
  connect: "i \<notin> unknown a \<union> clients a \<union> waiting a \<union> idle a \<union> dom (running a) \<union> ran (running a) \<Longrightarrow>
    answers a i = 0 \<Longrightarrow> sched_step a (a\<lparr>unknown := insert i (unknown a)\<rparr>)"
| submit: "c \<in> unknown a \<Longrightarrow>
    sched_step a (a\<lparr>unknown := unknown a - {c}, clients := insert c (clients a),
      waiting := insert c (waiting a)\<rparr>)"
| join: "e \<in> unknown a \<Longrightarrow>
    sched_step a (a\<lparr>unknown := unknown a - {e}, idle := insert e (idle a)\<rparr>)"
| assign: "e \<in> idle a \<Longrightarrow> c \<in> waiting a \<Longrightarrow>
    sched_step a (a\<lparr>idle := idle a - {e}, waiting := waiting a - {c}, running := (running a)(e \<mapsto> c)\<rparr>)"
| finish: "running a e = Some c \<Longrightarrow>
    sched_step a (a\<lparr>running := (running a)(e := None), idle := insert e (idle a),
      answers := (answers a)(c := answers a c + of_bool (c \<in> clients a))\<rparr>)"
| lose: "running a e = Some c \<Longrightarrow>
    sched_step a (a\<lparr>running := (running a)(e := None), answers := (answers a)(c := answers a c + 1)\<rparr>)"
| release: "e \<in> idle a \<Longrightarrow> sched_step a (a\<lparr>idle := idle a - {e}\<rparr>)"
| depart: "sched_step a (a\<lparr>unknown := unknown a - {i}, clients := clients a - {i}\<rparr>)"

text \<open>In how many places the task of a client is: waiting, running, answered.\<close>

definition places :: "sched \<Rightarrow> nat \<Rightarrow> nat" where
  "places a c = of_bool (c \<in> waiting a) + of_bool (c \<in> ran (running a)) + answers a c"

definition sched_ok :: "sched \<Rightarrow> bool" where
  "sched_ok a \<longleftrightarrow>
     (\<forall>c. places a c \<le> 1) \<and> (\<forall>c \<in> clients a. places a c = 1) \<and> (\<forall>i \<in> unknown a. places a i = 0) \<and>
     unknown a \<inter> (clients a \<union> idle a) = {} \<and> dom (running a) \<inter> (idle a \<union> unknown a) = {} \<and>
     (\<forall>e e' c. running a e = Some c \<longrightarrow> running a e' = Some c \<longrightarrow> e = e')"

lemma sched_okI:
  assumes "\<And>c. places a c \<le> 1" and "\<And>c. c \<in> clients a \<Longrightarrow> places a c = 1"
    and "\<And>i. i \<in> unknown a \<Longrightarrow> places a i = 0" and "unknown a \<inter> (clients a \<union> idle a) = {}"
    and "dom (running a) \<inter> (idle a \<union> unknown a) = {}"
    and "\<And>e e' c. running a e = Some c \<Longrightarrow> running a e' = Some c \<Longrightarrow> e = e'"
  shows "sched_ok a"
  using assms unfolding sched_ok_def by blast

lemma sched_okD:
  assumes "sched_ok a"
  shows "places a c \<le> 1" and "c \<in> clients a \<Longrightarrow> places a c = 1" and "i \<in> unknown a \<Longrightarrow> places a i = 0"
    and "unknown a \<inter> (clients a \<union> idle a) = {}" and "dom (running a) \<inter> (idle a \<union> unknown a) = {}"
    and "running a e = Some c \<Longrightarrow> running a e' = Some c \<Longrightarrow> e = e'"
  using assms unfolding sched_ok_def by blast+

text \<open>Tasks move or disappear, but not those of clients that are there.\<close>

lemma sched_ok_move:
  assumes "sched_ok a" and "\<And>c. places a' c \<le> places a c"
    and "clients a' \<subseteq> clients a" and "\<And>c. c \<in> clients a' \<Longrightarrow> places a' c = places a c"
    and "unknown a' \<subseteq> unknown a" and "unknown a' \<inter> idle a' = {}"
    and "dom (running a') \<inter> (idle a' \<union> unknown a') = {}"
    and "\<And>e e' c. running a' e = Some c \<Longrightarrow> running a' e' = Some c \<Longrightarrow> e = e'"
  shows "sched_ok a'"
proof (rule sched_okI)
  note D = sched_okD [OF assms(1)]
  show "places a' c \<le> 1" for c using D(1) [of c] assms(2) [of c] by simp
  show "places a' c = 1" if "c \<in> clients a'" for c using that D(2) [of c] assms(3,4) by auto
  show "places a' i = 0" if "i \<in> unknown a'" for i using that D(3) [of i] assms(2) [of i] assms(5) by auto
  show "unknown a' \<inter> (clients a' \<union> idle a') = {}" using D(4) assms(3,5,6) by blast
qed (fact assms(7,8))+

lemma ran_remove:
  assumes "m e = Some c" and "\<And>e'. m e' = Some c \<Longrightarrow> e' = e"
  shows "ran (m(e := None)) = ran m - {c}"
proof -
  have "(\<exists>e'. e' \<noteq> e \<and> m e' = Some x) \<longleftrightarrow> (\<exists>e'. m e' = Some x) \<and> x \<noteq> c" for x
    using assms by (metis option.inject)
  then show ?thesis by (auto simp: ran_def)
qed

text \<open>One lemma for each kind of step that moves a task.\<close>

lemma sched_ok_connect:
  assumes "sched_ok a" and "answers a i = 0"
    and "i \<notin> unknown a \<union> clients a \<union> waiting a \<union> idle a \<union> dom (running a) \<union> ran (running a)"
  shows "sched_ok (a\<lparr>unknown := insert i (unknown a)\<rparr>)"
proof (rule sched_okI, goal_cases)
  case (3 j)
  then show ?case using sched_okD(3) [OF assms(1), of j] assms(2,3) by (auto simp: places_def)
qed (use sched_okD [OF assms(1)] assms(3) in \<open>auto simp: places_def\<close>)

lemma sched_ok_submit:
  assumes "sched_ok a" and c: "c \<in> unknown a"
  shows "sched_ok (a\<lparr>unknown := unknown a - {c}, clients := insert c (clients a),
    waiting := insert c (waiting a)\<rparr>)"
proof (rule sched_okI, goal_cases)
  note D = sched_okD [OF assms(1)]
  {
    case (1 d)
    then show ?case using D(1) [of d] D(3) [OF c] by (auto simp: places_def)
  next
    case (2 d)
    then show ?case using D(2) [of d] D(3) [OF c] by (auto simp: places_def)
  next
    case (3 j)
    then show ?case using D(3) [of j] by (auto simp: places_def)
  }
qed (use sched_okD [OF assms(1)] in auto)

lemma sched_ok_assign:
  assumes "sched_ok a" and "e \<in> idle a" and "c \<in> waiting a"
  shows "sched_ok (a\<lparr>idle := idle a - {e}, waiting := waiting a - {c}, running := (running a)(e \<mapsto> c)\<rparr>)"
proof -
  note D = sched_okD [OF assms(1)]
  have e: "running a e = None" using D(5) assms(2) by auto
  have c: "c \<notin> ran (running a)" "answers a c = 0" using D(1) [of c] assms(3) by (auto simp: places_def)
  have ran: "ran ((running a)(e \<mapsto> c)) = insert c (ran (running a))" using e by simp
  show ?thesis
  proof (rule sched_ok_move [OF assms(1)], goal_cases)
    case (7 f f' d)
    then show ?case using D(6) c(1) by (auto simp: ran_def split: if_splits)
  qed (use D(4,5) assms(2,3) c in \<open>auto simp: places_def ran simp del: fun_upd_apply\<close>)
qed

text \<open>An executor that ran a task of a client no longer runs it.\<close>

lemma sched_ok_stops:
  assumes "sched_ok a" and "running a e = Some c"
  shows "ran ((running a)(e := None)) = ran (running a) - {c}"
    and "c \<notin> waiting a" "answers a c = 0" "c \<in> ran (running a)"
    and "((running a)(e := None)) f = Some d \<Longrightarrow> ((running a)(e := None)) f' = Some d \<Longrightarrow> f = f'"
proof -
  note D = sched_okD [OF assms(1)]
  show "ran ((running a)(e := None)) = ran (running a) - {c}"
    using D(6) [OF _ assms(2)] assms(2) by (intro ran_remove)
  show "c \<notin> waiting a" "answers a c = 0" "c \<in> ran (running a)"
    using D(1) [of c] assms(2) ranI [of "running a" e c] by (auto simp: places_def)
  show "((running a)(e := None)) f = Some d \<Longrightarrow> ((running a)(e := None)) f' = Some d \<Longrightarrow> f = f'"
    using D(6) by (auto split: if_splits)
qed

lemma sched_ok_finish:
  assumes "sched_ok a" and "running a e = Some c"
  shows "sched_ok (a\<lparr>running := (running a)(e := None), idle := insert e (idle a),
    answers := (answers a)(c := answers a c + of_bool (c \<in> clients a))\<rparr>)"
proof (rule sched_ok_move [OF assms(1)], goal_cases)
  case (7 f f' d)
  then show ?case by (intro sched_ok_stops(5) [OF assms, of f d f']) simp_all
qed (use sched_okD(4,5) [OF assms(1)] sched_ok_stops(2-4) [OF assms] assms(2)
     in \<open>auto simp: places_def sched_ok_stops(1) [OF assms]\<close>)

lemma sched_ok_lose:
  assumes "sched_ok a" and "running a e = Some c"
  shows "sched_ok (a\<lparr>running := (running a)(e := None), answers := (answers a)(c := answers a c + 1)\<rparr>)"
proof (rule sched_ok_move [OF assms(1)], goal_cases)
  case (7 f f' d)
  then show ?case by (intro sched_ok_stops(5) [OF assms, of f d f']) simp_all
qed (use sched_okD(4,5) [OF assms(1)] sched_ok_stops(2-4) [OF assms]
     in \<open>auto simp: places_def sched_ok_stops(1) [OF assms]\<close>)

text \<open>The others move no task.\<close>

lemma sched_ok_join:
  assumes "sched_ok a" and "e \<in> unknown a"
  shows "sched_ok (a\<lparr>unknown := unknown a - {e}, idle := insert e (idle a)\<rparr>)"
  by (rule sched_ok_move [OF assms(1)]) (use sched_okD(4-6) [OF assms(1)] assms(2) in \<open>auto simp: places_def\<close>)

lemma sched_ok_release:
  assumes "sched_ok a"
  shows "sched_ok (a\<lparr>idle := idle a - {e}\<rparr>)"
  by (rule sched_ok_move [OF assms]) (use sched_okD(4-6) [OF assms] in \<open>auto simp: places_def\<close>)

lemma sched_ok_depart:
  assumes "sched_ok a"
  shows "sched_ok (a\<lparr>unknown := unknown a - {i}, clients := clients a - {i}\<rparr>)"
  by (rule sched_ok_move [OF assms]) (use sched_okD(4-6) [OF assms] in \<open>auto simp: places_def\<close>)

lemma sched_step_ok:
  assumes "sched_step a a'" and "sched_ok a"
  shows "sched_ok a'"
  using assms
  by (induction rule: sched_step.induct)
     (blast intro: sched_ok_connect sched_ok_submit sched_ok_join sched_ok_assign sched_ok_finish
       sched_ok_lose sched_ok_release sched_ok_depart)+

section \<open>The scheduler in the server\<close>

definition where_is :: "(remote \<Rightarrow> bool) \<Rightarrow> remote list \<Rightarrow> nat set" where
  "where_is P rs = {i. i < length rs \<and> P (rs ! i)}"

definition at_remote :: "(remote \<Rightarrow> 'a) \<Rightarrow> 'a \<Rightarrow> remote list \<Rightarrow> nat \<Rightarrow> 'a" where
  "at_remote f d rs i = (if i < length rs then f (rs ! i) else d)"

definition is_client :: "remote \<Rightarrow> bool" where
  "is_client r \<longleftrightarrow> conn_type r = Client"

definition is_idle_exec :: "remote \<Rightarrow> bool" where
  "is_idle_exec r \<longleftrightarrow> conn_type r = Exec \<and> paired_id r = None"

definition works_for :: "remote \<Rightarrow> nat option" where
  "works_for r = (if conn_type r = Exec then map_option unat (paired_id r) else None)"

definition answers_to :: "remote \<Rightarrow> nat" where
  "answers_to r = finals_in (chan_sent (send_chan r))"

definition sched_of :: "('q \<Rightarrow> (task_item \<rightharpoonup> duration)) \<Rightarrow> 'q server_state \<Rightarrow> sched" where
  "sched_of items s =
     \<lparr>unknown = where_is pending (remotes s), clients = where_is is_client (remotes s),
      waiting = fst ` dom (items (task_queue s)), idle = where_is is_idle_exec (remotes s),
      running = at_remote works_for None (remotes s), answers = at_remote answers_to 0 (remotes s)\<rparr>"

lemmas role_defs = pending_def is_client_def is_idle_exec_def works_for_def answers_to_def

lemmas sched_simps = where_is_def at_remote_def nth_list_update role_defs fun_eq_iff

lemma sched_of_same:
  "remotes s' = remotes s \<Longrightarrow> task_queue s' = task_queue s \<Longrightarrow> sched_of items s' = sched_of items s"
  by (simp add: sched_of_def)

abbreviation sched_steps :: "sched \<Rightarrow> sched \<Rightarrow> bool" where
  "sched_steps \<equiv> sched_step\<^sup>*\<^sup>*"

text \<open>
  Sending \<open>msg\<close> to remote \<open>c\<close>: a dead remote is left alone, a client gets the message or, its
  receiver having gone, is marked as dead.
\<close>

inductive sent_to :: "nat \<Rightarrow> message \<Rightarrow> remote list \<Rightarrow> remote list \<Rightarrow> bool" for c msg rs where
  dead: "conn_type (rs ! c) = Dead \<Longrightarrow> sent_to c msg rs rs"
| delivered: "conn_type (rs ! c) = Client \<Longrightarrow>
    sent_to c msg rs (rs[c := (rs ! c)\<lparr>send_chan :=
      (send_chan (rs ! c))\<lparr>chan_sent := chan_sent (send_chan (rs ! c)) @ [msg]\<rparr>\<rparr>])"
| gone: "conn_type (rs ! c) = Client \<Longrightarrow> \<not> chan_open (send_chan (rs ! c)) \<Longrightarrow>
    sent_to c msg rs (rs[c := (rs ! c)\<lparr>conn_type := Dead\<rparr>])"

context server_queue
begin

lemma assign_one_sched:
  assumes "inv s" and "assign_one Q s = Inr s'"
  shows "sched_step (sched_of items s) (sched_of items s')"
proof -
  note D = server_invD [OF assms(1)]
  obtain c d p q e es where pop: "pq_pop Q (task_queue s) = Some (((c, d), p), q)"
    and cd: "(c, d) \<in> dom (items (task_queue s))" "c < length (remotes s)" "e < length (remotes s)" "c \<noteq> e"
      "conn_type (remotes s ! c) = Client \<or> conn_type (remotes s ! c) = Dead" "conn_type (remotes s ! e) = Exec"
      "paired_id (remotes s ! e) = None"
    and s': "s' = s\<lparr>task_queue := q, exec_queue := es,
       remotes := (remotes s)[c := (remotes s ! c)\<lparr>paired_id := Some (word_of_nat e)\<rparr>,
         e := (remotes s ! e)\<lparr>paired_id := Some (word_of_nat c), send_chan := (send_chan (remotes s ! e))
           \<lparr>chan_sent := chan_sent (send_chan (remotes s ! e)) @ [Task 0 0 d]\<rparr>\<rparr>]\<rparr>"
    by (rule assign_one_returns [OF assms])
  have u: "unat (word_of_nat c :: u32) = c" using cd(2) D(2) by (intro unat_id) simp
  have w: "fst ` dom (items q) = fst ` dom (items (task_queue s)) - {c}"
    using task_queueD(6) [OF wiringD(2) [OF D(3)] cd(1)] unfolding dom_pop(1) [OF D(1) pop] by force
  have "sched_of items s' = (sched_of items s)\<lparr>idle := idle (sched_of items s) - {e},
      waiting := waiting (sched_of items s) - {c}, running := (running (sched_of items s))(e \<mapsto> c)\<rparr>"
    using cd u by (auto simp: sched_of_def s' w sched_simps)
  moreover have "e \<in> idle (sched_of items s)" "c \<in> waiting (sched_of items s)"
    using cd by (auto simp: sched_of_def where_is_def is_idle_exec_def intro: rev_image_eqI)
  ultimately show ?thesis using sched_step.assign by metis
qed

lemma release_one_sched:
  assumes "inv s" and "release_one s = Inr s'"
  shows "sched_step (sched_of items s) (sched_of items s')"
proof -
  obtain e es where e: "e < length (remotes s)" "conn_type (remotes s ! e) = Exec"
      "paired_id (remotes s ! e) = None" and s': "task_queue s' = task_queue s"
      "remotes s' = (remotes s)[e := (remotes s ! e)\<lparr>conn_type := Dead, send_chan := (send_chan (remotes s ! e))
         \<lparr>chan_sent := chan_sent (send_chan (remotes s ! e)) @ [PissOff]\<rparr>\<rparr>]"
    by (rule release_one_returns [OF assms])
  have "sched_of items s' = (sched_of items s)\<lparr>idle := idle (sched_of items s) - {e}\<rparr>"
    using e by (auto simp: sched_of_def s' sched_simps)
  moreover have "e \<in> idle (sched_of items s)"
    using e by (simp add: sched_of_def where_is_def is_idle_exec_def)
  ultimately show ?thesis using sched_step.release by metis
qed

lemma update_sched:
  assumes "inv s" and "update Q sp now s = Inr s'"
  shows "sched_steps (sched_of items s) (sched_of items s')"
proof -
  have "inv s' \<and> sched_steps (sched_of items s) (sched_of items s')"
  proof (rule update_keeps [OF assms])
    fix t t' :: "'q server_state"
    assume "sched_steps (sched_of items s) (sched_of items t)" "only_starts t t'"
    then show "sched_steps (sched_of items s) (sched_of items t')"
      using sched_of_same [of t' t items] by (auto simp: only_starts_def)
  qed (blast intro: rtranclp.rtrancl_into_rtrancl assign_one_sched release_one_sched)+
  then show ?thesis ..
qed

text \<open>What sending to the client of a busy executor does to the remotes.\<close>

lemma send_to_paired_remote_returns:
  assumes "inv s" and "is_busy s i" and "send_to_paired_remote i msg s = Inr s'"
  obtains c where "i < length (remotes s)" "c < length (remotes s)" "c \<noteq> i"
    "conn_type (remotes s ! i) = Exec" "works_for (remotes s ! i) = Some c"
    "task_queue s' = task_queue s" "sent_to c msg (remotes s) (remotes s')"
proof -
  obtain p where p: "i < length (remotes s)" "conn_type (remotes s ! i) = Exec"
      "paired_id (remotes s ! i) = Some p" "unat p < length (remotes s)" "unat p \<noteq> i"
      "conn_type (remotes s ! unat p) = Client \<or> conn_type (remotes s ! unat p) = Dead"
    by (rule busy_pair [OF assms(1,2)])
  show ?thesis
    by (rule that [of "unat p"]) (use p assms(3) in
      \<open>auto simp: send_to_paired_remote_def Let_def set_remote_def chan_send_def works_for_def
        split: if_splits intro: sent_to.intros\<close>)
qed

lemma output_sched:
  assumes "inv s" and "is_busy s i" and "\<not> is_final msg" and "send_to_paired_remote i msg s = Inr s'"
  shows "sched_steps (sched_of items s) (sched_of items s')"
proof -
  obtain c where c: "c < length (remotes s)" and q: "task_queue s' = task_queue s"
    and sent: "sent_to c msg (remotes s) (remotes s')"
    by (rule send_to_paired_remote_returns [OF assms(1,2,4)])
  from sent show ?thesis
  proof cases
    case dead
    then show ?thesis using q by (simp add: sched_of_def)
  next
    case delivered
    then have "sched_of items s' = sched_of items s"
      using c q assms(3) by (auto simp: sched_of_def sched_simps)
    then show ?thesis by simp
  next
    case gone
    then have "sched_of items s' = (sched_of items s)
        \<lparr>unknown := unknown (sched_of items s) - {c}, clients := clients (sched_of items s) - {c}\<rparr>"
      using c q by (auto simp: sched_of_def sched_simps)
    then show ?thesis using sched_step.depart [of "sched_of items s" c] by simp
  qed
qed

lemma finish_sched:
  assumes "inv s" and "is_busy s i" and "is_final msg" and "send_to_paired_remote i msg s = Inr s1"
    and t: "remotes t = (remotes s1)[i := (remotes s1 ! i)\<lparr>paired_id := None\<rparr>]" "task_queue t = task_queue s1"
  shows "sched_steps (sched_of items s) (sched_of items t)"
proof -
  let ?a = "sched_of items s"
  obtain c where c: "i < length (remotes s)" "c < length (remotes s)" "c \<noteq> i"
      "conn_type (remotes s ! i) = Exec" "works_for (remotes s ! i) = Some c"
    and q: "task_queue s1 = task_queue s" and sent: "sent_to c msg (remotes s) (remotes s1)"
    by (rule send_to_paired_remote_returns [OF assms(1,2,4)])
  define f where "f a = a\<lparr>running := (running a)(i := None), idle := insert i (idle a),
      answers := (answers a)(c := answers a c + of_bool (c \<in> clients a))\<rparr>" for a :: sched
  let ?b = "?a\<lparr>unknown := unknown ?a - {c}, clients := clients ?a - {c}\<rparr>"
  have run: "running ?a i = Some c" "running ?b i = Some c"
    using c(1,5) by (simp_all add: sched_of_def at_remote_def)
  from run have fa: "sched_steps ?a (f ?a)" and fb: "sched_steps ?a (f ?b)"
    unfolding f_def
    using sched_step.finish [OF run(1)] sched_step.finish [OF run(2)] sched_step.depart [of ?a c]
    by (blast intro: r_into_rtranclp, blast intro: converse_rtranclp_into_rtranclp r_into_rtranclp)
  from sent show ?thesis
  proof cases
    case dead
    then have "sched_of items t = f ?a"
      using c t q by (auto simp: f_def sched_of_def sched_simps)
    then show ?thesis using fa by simp
  next
    case delivered
    then have "sched_of items t = f ?a"
      using c t q assms(3) by (auto simp: f_def sched_of_def sched_simps)
    then show ?thesis using fa by simp
  next
    case gone
    then have "sched_of items t = f ?b"
      using c t q by (auto simp: f_def sched_of_def sched_simps)
    then show ?thesis using fb by simp
  qed
qed

lemma dropped_sched:
  assumes "inv s" and "i < length (remotes s)" and "handle_dropped i s = Inr s'"
  shows "sched_steps (sched_of items s) (sched_of items s')"
proof (cases "is_busy s i")
  case True
  let ?a = "sched_of items s"
  obtain p where p: "conn_type (remotes s ! i) = Exec" "paired_id (remotes s ! i) = Some p"
      "unat p < length (remotes s)" "unat p \<noteq> i"
    by (rule busy_pair [OF assms(1) True])
  let ?c = "unat p"
  have s': "task_queue s' = task_queue s" "remotes s' = (remotes s)[?c := (remotes s ! ?c)\<lparr>send_chan :=
      (send_chan (remotes s ! ?c))\<lparr>chan_sent := chan_sent (send_chan (remotes s ! ?c)) @
        [TaskFailed ''exec dropped connection'']\<rparr>\<rparr>, i := (remotes s ! i)\<lparr>conn_type := Dead\<rparr>]"
    using assms(2,3) p by (auto simp: handle_dropped_def and_then_eq_Inr set_remote_def)
  have run: "running ?a i = Some ?c"
    using assms(2) p by (simp add: sched_of_def at_remote_def works_for_def)
  have "sched_of items s' = ?a\<lparr>running := (running ?a)(i := None), answers := (answers ?a)(?c := answers ?a ?c + 1)\<rparr>"
    using assms(2) p by (auto simp: sched_of_def s' sched_simps)
  then show ?thesis using sched_step.lose [OF run] by (metis r_into_rtranclp)
next
  case False
  let ?a = "sched_of items s"
  have s': "task_queue s' = task_queue s" "remotes s' = (remotes s)[i := (remotes s ! i)\<lparr>conn_type := Dead\<rparr>]"
    using assms(2,3) False
    by (auto simp: handle_dropped_def and_then_eq_Inr set_remote_def is_busy_def is_busy_exec_def
        split: connection_type.splits option.splits if_splits)
  show ?thesis
  proof (cases "conn_type (remotes s ! i) = Exec")
    case exec: True
    then have "i \<in> idle ?a" "sched_of items s' = ?a\<lparr>idle := idle ?a - {i}\<rparr>"
      using assms(2) False by (auto simp: sched_of_def s' sched_simps is_busy_def is_busy_exec_def)
    then show ?thesis using sched_step.release [of i ?a] by simp
  next
    case other: False
    then have "sched_of items s' = ?a\<lparr>unknown := unknown ?a - {i}, clients := clients ?a - {i}\<rparr>"
      using assms(2) by (auto simp: sched_of_def s' sched_simps)
    then show ?thesis using sched_step.depart [of ?a i] by simp
  qed
qed

lemma exec_is_ready_sched:
  assumes "inv s" and "is_busy s i" and "is_final msg" and "send_to_paired_remote i msg s = Inr s1"
    and "exec_is_ready Q E i (s1\<lparr>finish_count := finish_count s1 + 1\<rparr>) = Inr s'"
  shows "sched_steps (sched_of items s) (sched_of items s')"
proof -
  have s1: "inv s1" "is_busy s1 i" using send_to_paired_remote_inv [OF assms(1,2), of msg] assms(4) by auto
  obtain p where i: "i < length (remotes s1)" "conn_type (remotes s1 ! i) = Exec"
      "paired_id (remotes s1 ! i) = Some p"
    using busy_pair [OF s1] by metis
  let ?t = "(set_remote i ((remotes s1 ! i)\<lparr>paired_id := None\<rparr>) (s1\<lparr>finish_count := finish_count s1 + 1\<rparr>))
    \<lparr>exec_queue := exec_queue s1 @ [i]\<rparr>"
  have "inv ?t" by (rule inv_free_exec [OF s1(1) i]) (simp_all add: set_remote_def)
  moreover have "update Q (spawns E) (at_check E) ?t = Inr s'"
    using assms(5) i by (simp add: exec_is_ready_def set_remote_def)
  ultimately have "sched_steps (sched_of items ?t) (sched_of items s')" by (rule update_sched)
  moreover have "sched_steps (sched_of items s) (sched_of items ?t)"
    by (rule finish_sched [OF assms(1-4)]) (simp_all add: set_remote_def)
  ultimately show ?thesis by simp
qed

lemma new_exec_sched:
  assumes "is_pending s i"
    and "remotes t = (remotes s)[i := (remotes s ! i)\<lparr>conn_type := Exec, paired_id := None\<rparr>]"
    and "task_queue t = task_queue s"
  shows "sched_step (sched_of items s) (sched_of items t)"
proof -
  let ?a = "sched_of items s"
  have "sched_of items t = ?a\<lparr>unknown := unknown ?a - {i}, idle := insert i (idle ?a)\<rparr>" "i \<in> unknown ?a"
    using assms by (auto simp: sched_of_def sched_simps is_pending_def)
  then show ?thesis using sched_step.join [of i ?a] by simp
qed

lemma remote_is_exec_sched:
  assumes "inv s" and "is_pending s i" and "remote_is_exec Q E i second s = Inr s'"
  shows "sched_steps (sched_of items s) (sched_of items s')"
proof -
  have i: "i < length (remotes s)" "conn_type (remotes s ! i) = Pending"
    using assms(2) by (auto simp: is_pending_def)
  have ok: "sched_steps (sched_of items s) (sched_of items s')"
    if t: "remotes t = (remotes s)[i := (remotes s ! i)\<lparr>conn_type := Exec, paired_id := None\<rparr>]"
      "task_queue t = task_queue s" "exec_queue t = exec_queue s @ [i]"
      "submit_count t = submit_count s" "finish_count t = finish_count s"
      "running_exec_count t = running_exec_count s + 1"
      and u: "update Q (spawns E) (at_check E) t = Inr s'" for t
    using update_sched [OF inv_new_exec [OF assms(1) i t] u] new_exec_sched [OF assms(2) t(1,2)]
    by (rule converse_rtranclp_into_rtranclp [rotated])
  show ?thesis
    using i assms(3)
    by (auto simp: remote_is_exec_def exec_is_ready_def set_remote_def Let_def
        split: if_splits dest!: ok [rotated -1])
qed

lemma new_client_sched:
  assumes "inv s" and "is_pending s i" and "remotes t = (remotes s)[i := (remotes s ! i)\<lparr>conn_type := Client\<rparr>]"
    and "task_queue t = pq_push Q (i, d) prior (task_queue s)"
  shows "sched_step (sched_of items s) (sched_of items t)"
proof -
  let ?a = "sched_of items s"
  have "sched_of items t = ?a\<lparr>unknown := unknown ?a - {i}, clients := insert i (clients ?a),
      waiting := insert i (waiting ?a)\<rparr>" "i \<in> unknown ?a"
    using assms server_invD(1) [OF assms(1)] by (auto simp: sched_of_def sched_simps is_pending_def items_push)
  then show ?thesis using sched_step.submit [of i ?a] by simp
qed

text \<open>A client that submits a task reaches \<open>update\<close> with its task queued.\<close>

lemma remote_is_client_returns:
  assumes "inv s" and "is_pending s i" and "wf_task d"
    and "remote_is_client Q E i d (s\<lparr>submit_count := submit_count s + 1\<rparr>) = Inr s'"
  obtains t prior where "inv t" "update Q (spawns E) (at_check E) t = Inr s'"
    "remotes t = (remotes s)[i := (remotes s ! i)\<lparr>conn_type := Client\<rparr>]"
    "task_queue t = pq_push Q (i, d) prior (task_queue s)"
proof -
  have i: "i < length (remotes s)" using assms(2) by (simp add: is_pending_def)
  obtain prior where u: "update Q (spawns E) (at_check E)
      ((set_remote i ((remotes s ! i)\<lparr>conn_type := Client\<rparr>) (s\<lparr>submit_count := submit_count s + 1\<rparr>))
        \<lparr>task_queue := pq_push Q (i, d) prior (task_queue s), last_submit_time := Some (at_submit E)\<rparr>) = Inr s'"
    using assms(4) i by (auto simp: remote_is_client_def and_then_eq_Inr set_remote_def)
  show ?thesis by (rule that [OF client_pushed_inv [OF assms(1-3)] u]) (simp_all add: set_remote_def)
qed

lemma remote_is_client_sched:
  assumes "inv s" and "is_pending s i" and "wf_task d"
    and "remote_is_client Q E i d (s\<lparr>submit_count := submit_count s + 1\<rparr>) = Inr s'"
  shows "sched_steps (sched_of items s) (sched_of items s')"
  by (rule remote_is_client_returns [OF assms])
    (blast intro: converse_rtranclp_into_rtranclp update_sched new_client_sched [OF assms(1,2)])

lemma handle_msg_sched:
  assumes "inv s" and "conforms s i msg" and "handle_msg Q bytes_add E i msg s = Inr s'"
  shows "sched_steps (sched_of items s) (sched_of items s')"
proof (cases msg)
  case (YourObedientServant c k)
  then show ?thesis
    using assms remote_is_exec_sched by (auto simp: handle_msg_def conforms_def)
next
  case (Task a u d)
  then have "is_pending s i" "wf_task d"
    using assms(2) wf_task_iff [of d] by (auto simp: conforms_def returns_def split: sum.splits)
  then show ?thesis
    using assms Task remote_is_client_sched by (auto simp: handle_msg_def)
next
  case (TaskOutput ot content)
  let ?s = "s\<lparr>total_bytes := bytes_add (total_bytes s) (length content),
    bytes_this_period := bytes_add (bytes_this_period s) (length content)\<rparr>"
  have s: "inv ?s" "is_busy ?s i" "send_to_paired_remote i msg ?s = Inr s'"
    using assms TaskOutput by (simp_all add: handle_msg_def server_inv_def conforms_def is_busy_def)
  have "sched_steps (sched_of items ?s) (sched_of items s')"
    by (rule output_sched [OF s(1,2) _ s(3)]) (simp add: TaskOutput)
  then show ?thesis using sched_of_same [of ?s s items] by simp
next
  case (TaskFailed e)
  then show ?thesis
    using assms exec_is_ready_sched [of s i msg]
    by (auto simp: handle_msg_def conforms_def and_then_eq_Inr)
next
  case (TaskDone code t run_time send_time)
  let ?s = "if code = Some 0 then record_elapsed (at_record E) t run_time s else s"
  have s: "inv ?s" "is_busy ?s i" "sched_of items ?s = sched_of items s"
    using assms TaskDone by (auto simp: record_elapsed_def server_inv_def conforms_def is_busy_def sched_of_def)
  obtain s1 s2 where 1: "send_to_paired_remote i msg ?s = Inr s1"
      "exec_is_ready Q E i (s1\<lparr>finish_count := finish_count s1 + 1\<rparr>) = Inr s2"
      "remotes s' = remotes s2" "task_queue s' = task_queue s2"
    using assms(3) by (auto simp: TaskDone handle_msg_def and_then_eq_Inr Let_def)
  have "sched_steps (sched_of items ?s) (sched_of items s2)"
    by (rule exec_is_ready_sched [OF s(1,2) _ 1(1,2)]) (simp add: TaskDone)
  then show ?thesis using s(3) sched_of_same [OF 1(3,4), of items] by simp
next
  case Dropped
  then show ?thesis
    using assms dropped_sched by (auto simp: handle_msg_def conforms_def)
qed (use assms(2) in \<open>simp_all add: conforms_def\<close>)

lemma accept_sched:
  assumes "inv s"
  shows "sched_step (sched_of items s) (sched_of items (fst (add_remote s)))"
proof -
  let ?a = "sched_of items s" and ?i = "length (remotes s)"
  note W = server_invD(3) [OF assms]
  have "?i \<notin> waiting ?a"
    using task_queueD(1) [OF wiringD(2) [OF W]] by (force simp: sched_of_def)
  moreover have "?i \<notin> ran (running ?a)"
    using pairingD(1) [OF wiringD(3) [OF W]]
    by (fastforce simp: sched_of_def ran_def at_remote_def works_for_def split: if_splits)
  moreover have "?i \<notin> unknown ?a \<union> clients ?a \<union> idle ?a \<union> dom (running ?a)" "answers ?a ?i = 0"
    by (auto simp: sched_of_def where_is_def at_remote_def split: if_splits)
  moreover have "sched_of items (fst (add_remote s)) = ?a\<lparr>unknown := insert ?i (unknown ?a)\<rparr>"
    by (auto simp: sched_of_def add_remote_def sched_simps nth_append finals_in_def)
  ultimately show ?thesis using sched_step.connect [of ?i ?a] by simp
qed

lemma on_event_sched:
  assumes "inv s" and "event_ok s ev" and "on_event Q bytes_add ev s = Inr s'"
  shows "sched_steps (sched_of items s) (sched_of items s')"
proof (cases ev)
  case Accept
  then show ?thesis using assms accept_sched by (auto simp: on_event_def)
next
  case (Inbound E i msg)
  then obtain s1 where s1: "handle_msg Q bytes_add E i msg s = Inr s1" "s' = activity_occurred (at_activity E) s1"
    using assms(3) by (auto simp: on_event_def and_then_eq_Inr)
  have "sched_of items s' = sched_of items s1" by (simp add: s1(2) activity_occurred_def sched_of_def)
  then show ?thesis
    using handle_msg_sched [OF assms(1) _ s1(1)] assms(2) Inbound by (simp add: event_ok_def)
next
  case (Watchdog E)
  then obtain s1 where s1: "update Q (spawns E) (at_check E) s = Inr s1" "s' = s1\<lparr>bytes_this_period := 0\<rparr>"
    using assms(3) by (auto simp: on_event_def and_then_eq_Inr)
  then show ?thesis using update_sched [OF assms(1) s1(1)] by (simp add: sched_of_def)
next
  case (Hangup i)
  then have "sched_of items s' = sched_of items s"
    using assms(3)
    by (cases "i < length (remotes s)")
      (auto simp: on_event_def hang_up_def set_remote_def sched_of_def sched_simps split: if_splits)
  then show ?thesis by simp
qed

lemma fresh_sched: "fresh Q s \<Longrightarrow> sched_ok (sched_of items s)"
  by (simp add: fresh_def sched_ok_def sched_of_def where_is_def at_remote_def items_new places_def)

end

sublocale server_queue < sched: simulation "server_step Q bytes_add" inv sched_step sched_ok
    "sched_of items" for bytes_add
proof unfold_locales
  fix s s' assume "inv s" "server_step Q bytes_add s s'"
  then show "sched_steps (sched_of items s) (sched_of items s')"
    using on_event_sched by (auto simp: server_step_def)
qed (use server_step_inv sched_step_ok in blast)+

context server_queue
begin

lemma reachable_sched:
  assumes "server_reachable Q bytes_add s0 s" and "fresh Q s0"
  shows "sched_ok (sched_of items s)"
  using assms(1) unfolding server_reachable_iff
  by (rule sched.transfers [OF _ fresh_inv [OF assms(2)] fresh_sched [OF assms(2)]])

end

end
