(* ===== verification/Server_Props.thy ===== *)
theory Server_Props
  imports Server_Loop
begin

unbundle bit_operations_syntax

text \<open>
  What the server guarantees: the properties of its operations and of every state its loop
  reaches, for any priority queue that keeps the promises of \<open>priority_queue\<close>.
\<close>

section \<open>Concrete executions\<close>

text \<open>
  Running a list of events, checking that the environment keeps its side; the states that
  result are reachable.
\<close>

fun run_trace ::
  "'q task_pq \<Rightarrow> (nat \<Rightarrow> nat \<Rightarrow> nat) \<Rightarrow> event list \<Rightarrow> 'q server_state \<Rightarrow> 'q server_state option" where
  "run_trace Q bytes_add [] s = Some s"
| "run_trace Q bytes_add (ev # evs) s =
     (if event_ok s ev then
        (case on_event Q bytes_add ev s of
           Inr s' \<Rightarrow> run_trace Q bytes_add evs s'
         | Inl _ \<Rightarrow> None)
      else None)"

lemma run_trace_reachable:
  assumes "run_trace Q bytes_add evs s = Some s'" and "server_reachable Q bytes_add s0 s"
  shows "server_reachable Q bytes_add s0 s'"
  using assms
  by (induction evs arbitrary: s)
    (auto split: if_splits sum.splits intro: server_reachable.step)

type_synonym demo_state = "(task_item \<times> duration) list server_state"

definition demo_queue :: "(task_item \<times> duration) list task_pq" where
  "demo_queue = alist_queue"

definition demo_port :: call_me where
  "demo_port = \<lparr>addr = ''10.0.0.1:7'', access_code = 42\<rparr>"

definition demo_env :: event_env where
  "demo_env = \<lparr>at_record = 5, at_submit = 5, at_check = 5, at_activity = 5, spawns = []\<rparr>"

definition demo_task :: task_details where
  "demo_task = \<lparr>working_dir = ''/w'', td_cmd = ''/bin/gcc'', td_args = [''gcc'', ''-o'', ''a.o''],
     output_args = [2], td_env = Mapping.empty, priority_task = False\<rparr>"

definition demo_new :: "demo_state outcome" where
  "demo_new = server_new demo_queue exec_config_default history_default 0 demo_port 7 None False False False"

definition demo_start :: demo_state where
  "demo_start = (case demo_new of Inr s \<Rightarrow> s | Inl _ \<Rightarrow> undefined)"

definition demo_run :: "event list \<Rightarrow> demo_state option" where
  "demo_run evs = run_trace demo_queue (+) evs demo_start"

text \<open>An executor and a client connect and identify themselves; the task is assigned.\<close>

definition demo_busy :: "event list" where
  "demo_busy = [Accept, Accept, Inbound demo_env 0 (YourObedientServant 42 7),
     Inbound demo_env 1 (Task 42 7 demo_task)]"

lemmas demo_defs = demo_queue_def demo_port_def demo_env_def demo_task_def demo_new_def
  demo_start_def demo_run_def demo_busy_def alist_queue_def server_new_def exec_config_default_def
  history_default_def Let_def

lemmas server_simps = event_ok_def conforms_def is_pending_def is_busy_def is_busy_exec_def
  on_event_def handle_msg_def remote_is_exec_def exec_is_ready_def remote_is_client_def
  update_def start_execs_def start_execs_in_queue_def wants_exec_def check_queues_def
  assign_loop.simps assign_one_def release_loop.simps release_one_def ok_to_release_def
  add_remote_def set_remote_def chan_send_def index_def get_target_id_def arg_at_def
  task_priority_def history_get_def from_secs_def nanos_per_sec_def dur_max_def dur_add_def
  hang_up_def activity_occurred_def elapsed_secs_def duration_since_def as_secs_def

lemma demo_priority_queue:
  "priority_queue demo_queue map_of (\<lambda>q. distinct (map fst q))"
  unfolding demo_queue_def by (rule alq.priority_queue_axioms)

lemma demo_new_start: "server_new demo_queue exec_config_default history_default 0 demo_port 7
    None False False False = Inr demo_start"
  by (simp add: demo_defs)

lemma demo_reachable:
  "demo_run evs = Some s \<Longrightarrow> server_reachable demo_queue (+) demo_start s"
  unfolding demo_run_def by (rule run_trace_reachable [OF _ server_reachable.start])

definition demo_state :: demo_state where
  "demo_state = the (demo_run demo_busy)"

lemma demo_state_run: "demo_run demo_busy = Some demo_state"
  by (simp add: demo_state_def demo_defs server_simps)

section \<open>Every reachable state\<close>





text \<open>Assigning stops only when one of the queues is empty, and nothing else refills them.\<close>

definition work_conserving :: "'q task_pq \<Rightarrow> 'q server_state \<Rightarrow> bool" where
  "work_conserving Q s \<longleftrightarrow> pq_is_empty Q (task_queue s) \<or> exec_queue s = []"

lemma work_conserving_update [simp]:
  "work_conserving Q (s\<lparr>remotes := rs\<rparr>) = work_conserving Q s"
  "work_conserving Q (s\<lparr>last_activity_time := t\<rparr>) = work_conserving Q s"
  "work_conserving Q (s\<lparr>bytes_this_period := n\<rparr>) = work_conserving Q s"
  by (simp_all add: work_conserving_def)

lemma assign_loop_done: "assign_loop Q s = Inr s' \<Longrightarrow> work_conserving Q s'"
proof (induction Q s rule: assign_loop.induct)
  case (1 Q s)
  then show ?case
    by (subst (asm) (2) assign_loop.simps) (auto simp: work_conserving_def split: if_splits sum.splits)
qed

lemma release_loop_empty: "release_loop s = Inr s' \<Longrightarrow> exec_queue s' = []"
proof (induction s rule: release_loop.induct)
  case (1 s)
  then show ?case
    by (subst (asm) (2) release_loop.simps) (auto split: if_splits sum.splits)
qed

lemma update_done: "update Q sp now s = Inr s' \<Longrightarrow> work_conserving Q s'"
  by (auto simp: update_def check_queues_def and_then_eq_Inr work_conserving_def
      dest: assign_loop_done release_loop_empty split: if_splits)

lemma handle_msg_done:
  assumes "handle_msg Q bytes_add E i msg s = Inr s'" and "work_conserving Q s"
  shows "work_conserving Q s'"
  using assms
  by (cases msg)
    (auto simp: handle_msg_def remote_is_exec_def exec_is_ready_def remote_is_client_def
      handle_dropped_def send_to_paired_remote_def Let_def and_then_eq_Inr set_remote_def
      work_conserving_def dest!: update_done
      split: if_splits sum.splits option.splits connection_type.splits)

lemma on_event_done:
  assumes "on_event Q bytes_add ev s = Inr s'" and "work_conserving Q s"
  shows "work_conserving Q s'"
  using assms handle_msg_done
  by (auto simp: on_event_def add_remote_def hang_up_def set_remote_def activity_occurred_def
      and_then_eq_Inr split: event.splits if_splits dest: update_done)

text \<open>
  C10: In every state between two events, no executor sits idle while a task waits.
\<close>

theorem no_idle_exec_while_tasks_wait:
  assumes "priority_queue Q items q_ok"
    and "server_new Q cfg hist now port key cpus alt both verb = Inr s0"
    and "server_reachable Q bytes_add s0 s"
  shows "pq_is_empty Q (task_queue s) \<or> exec_queue s = []"
proof -
  have "work_conserving Q s"
    using assms(3)
  proof (induction rule: server_reachable.induct)
    case start
    show ?case using server_new_fresh [OF assms(2)] by (simp add: fresh_def work_conserving_def)
  next
    case (step s ev s')
    then show ?case using on_event_done by blast
  qed
  then show ?thesis by (simp add: work_conserving_def)
qed

theorem no_idle_exec_while_tasks_wait_witness:
  "pq_is_empty demo_queue (task_queue demo_state) \<or> exec_queue demo_state = []"
  by (rule no_idle_exec_while_tasks_wait
      [OF demo_priority_queue demo_new_start demo_reachable [OF demo_state_run]])

section \<open>Assigning tasks\<close>

text \<open>
  C12: When a task is assigned, it is one of greatest priority among those that wait, it goes to
  the executor that has been idle longest, this executor is sent the whole task and nothing
  else, and the two remotes point at each other; all other remotes are left alone.
\<close>

theorem assign_best_task:
  assumes "priority_queue Q items q_ok" and "server_inv items q_ok s"
    and "\<not> pq_is_empty Q (task_queue s)" and "exec_queue s = e # es"
    and "chan_open (send_chan (remotes s ! e))"
  shows "\<exists>c d p s'. assign_one Q s = Inr s' \<and> items (task_queue s) (c, d) = Some p \<and>
     (\<forall>j r. items (task_queue s) j = Some r \<longrightarrow> r \<le> p) \<and>
     items (task_queue s') = (items (task_queue s))((c, d) := None) \<and> exec_queue s' = es \<and>
     chan_sent (send_chan (remotes s' ! e)) = chan_sent (send_chan (remotes s ! e)) @ [Task 0 0 d] \<and>
     paired_id (remotes s' ! e) = Some (word_of_nat c) \<and>
     paired_id (remotes s' ! c) = Some (word_of_nat e) \<and>
     (\<forall>i. i \<noteq> c \<and> i \<noteq> e \<longrightarrow> remotes s' ! i = remotes s ! i)"
proof -
  note sq = server_queue.intro [OF assms(1)]
  note D = server_invD [OF assms(2)]
  obtain c d p q where pop: "pq_pop Q (task_queue s) = Some (((c, d), p), q)"
    by (rule priority_queue.pop_nonempty [OF assms(1) D(1) assms(3)]) (metis surj_pair)
  have cd: "(c, d) \<in> dom (items (task_queue s))"
    using priority_queue.dom_pop(2) [OF assms(1) D(1) pop] .
  have c: "c < length (remotes s)" "paired_id (remotes s ! c) = None" "c \<noteq> e" "wf_task d"
    using task_queueD [OF wiringD(2) [OF D(3)] cd] assms(4) by auto
  have e: "e < length (remotes s)" "paired_id (remotes s ! e) = None"
    using exec_queueD(2,3) [OF wiringD(1) [OF D(3)], of e] assms(4) by auto
  note one = assign_one_eq [OF pop assms(4) c(1) e(1) c(3,4,2) e(2)]
  show ?thesis
    unfolding one
    using assms(5) c e priority_queue.pop_in [OF assms(1) D(1) pop]
      priority_queue.pop_max [OF assms(1) D(1) pop] priority_queue.pop_items [OF assms(1) D(1) pop]
    by (intro exI [of _ c] exI [of _ d] exI [of _ p]) (simp add: chan_send_def nth_list_update)
qed

text \<open>An idle executor and a waiting task, as they meet inside \<open>update\<close>.\<close>

definition demo_remote :: "connection_type \<Rightarrow> remote" where
  "demo_remote ct = \<lparr>conn_type = ct, send_chan = \<lparr>chan_sent = [], chan_open = True\<rparr>, paired_id = None\<rparr>"

definition demo_waiting :: demo_state where
  "demo_waiting = demo_start\<lparr>remotes := [demo_remote Exec, demo_remote Client],
     task_queue := [((1, demo_task), from_secs 1)], exec_queue := [0], submit_count := 1,
     running_exec_count := 1\<rparr>"

lemmas inv_defs = server_inv_def wiring_inv_def exec_queue_inv_def task_queue_inv_def
  pairing_inv_def pending_inv_def wf_task_def is_live_exec_def is_busy_exec_def

lemma demo_waiting_inv: "server_inv map_of (\<lambda>q. distinct (map fst q)) demo_waiting"
  by (simp add: demo_waiting_def demo_remote_def demo_defs inv_defs less_Suc_eq all_conj_distrib)

theorem assign_best_task_witness:
  "\<exists>c d p s'. assign_one demo_queue demo_waiting = Inr s' \<and>
     map_of (task_queue demo_waiting) (c, d) = Some p \<and>
     (\<forall>j r. map_of (task_queue demo_waiting) j = Some r \<longrightarrow> r \<le> p) \<and>
     map_of (task_queue s') = (map_of (task_queue demo_waiting))((c, d) := None) \<and> exec_queue s' = [] \<and>
     chan_sent (send_chan (remotes s' ! 0)) = chan_sent (send_chan (remotes demo_waiting ! 0)) @ [Task 0 0 d] \<and>
     paired_id (remotes s' ! 0) = Some (word_of_nat c) \<and>
     paired_id (remotes s' ! c) = Some (word_of_nat 0) \<and>
     (\<forall>i. i \<noteq> c \<and> i \<noteq> 0 \<longrightarrow> remotes s' ! i = remotes demo_waiting ! i)"
  by (rule assign_best_task [OF demo_priority_queue demo_waiting_inv])
    (simp_all add: demo_waiting_def demo_remote_def demo_queue_def alist_queue_def)

section \<open>Results, losses and the end\<close>

text \<open>
  Output of a busy executor is delivered, unchanged and behind everything sent before, to
  the client that submitted its task and to nobody else; only the byte counters change
  besides.
\<close>

theorem output_goes_to_client:
  assumes "server_inv items q_ok s" and "is_busy s e" and "paired_id (remotes s ! e) = Some c"
    and "conn_type (remotes s ! unat c) = Client" and "chan_open (send_chan (remotes s ! unat c))"
  shows "handle_msg Q bytes_add E e (TaskOutput ot content) s =
     Inr (s\<lparr>remotes := (remotes s)[unat c := (remotes s ! unat c)\<lparr>send_chan :=
              (send_chan (remotes s ! unat c))
                \<lparr>chan_sent := chan_sent (send_chan (remotes s ! unat c)) @ [TaskOutput ot content]\<rparr>\<rparr>],
            total_bytes := bytes_add (total_bytes s) (length content),
            bytes_this_period := bytes_add (bytes_this_period s) (length content)\<rparr>)"
proof -
  have e: "e < length (remotes s)" "conn_type (remotes s ! e) = Exec"
    using assms(2) by (auto simp: is_busy_def is_busy_exec_def)
  have "unat c < length (remotes s)"
    using pairingD(1) [OF wiringD(3) [OF server_invD(3) [OF assms(1)]] e assms(3)] .
  then show ?thesis
    using e assms(3-5)
    by (simp add: handle_msg_def send_to_paired_remote_def set_remote_def chan_send_def Let_def)
qed

lemma demo_state_inv: "server_inv map_of (\<lambda>q. distinct (map fst q)) demo_state"
  by (rule server_queue.reachable_inv [OF server_queue.intro [OF demo_priority_queue]
      demo_reachable [OF demo_state_run] server_new_fresh [OF demo_new_start]])

lemma demo_state_eq:
  "remotes demo_state =
     [\<lparr>conn_type = Exec, send_chan = \<lparr>chan_sent = [Task 0 0 demo_task], chan_open = True\<rparr>, paired_id = Some 1\<rparr>,
      \<lparr>conn_type = Client, send_chan = \<lparr>chan_sent = [], chan_open = True\<rparr>, paired_id = Some 0\<rparr>]"
  "task_queue demo_state = []" "exec_queue demo_state = []" "running_exec_count demo_state = 1"
  "total_bytes demo_state = 0" "in_the_making demo_state = history_default"
  by (simp_all add: demo_state_def demo_defs server_simps)

theorem output_goes_to_client_witness:
  "\<exists>s'. handle_msg demo_queue (+) demo_env 0 (TaskOutput (File 0) [1, 2, 3]) demo_state = Inr s' \<and>
     chan_sent (send_chan (remotes s' ! 1)) = [TaskOutput (File 0) [1, 2, 3]] \<and> total_bytes s' = 3"
  using output_goes_to_client [OF demo_state_inv, where e = 0 and c = 1]
  by (simp add: demo_state_eq is_busy_def is_busy_exec_def)

text \<open>
  When the connection to a busy executor is lost, its client is sent \<open>TaskFailed\<close>, the
  executor is dead and no longer counted as running, and no other remote is touched.
\<close>

theorem lost_exec_fails_its_task:
  assumes "server_inv items q_ok s" and "is_busy s e" and "paired_id (remotes s ! e) = Some c"
    and "chan_open (send_chan (remotes s ! unat c))"
  shows "\<exists>s'. handle_msg Q bytes_add E e Dropped s = Inr s' \<and>
     chan_sent (send_chan (remotes s' ! unat c)) =
       chan_sent (send_chan (remotes s ! unat c)) @ [TaskFailed ''exec dropped connection''] \<and>
     conn_type (remotes s' ! e) = Dead \<and> running_exec_count s' + 1 = running_exec_count s \<and>
     (\<forall>i. i \<noteq> e \<and> i \<noteq> unat c \<longrightarrow> remotes s' ! i = remotes s ! i)"
proof -
  note W = server_invD(3) [OF assms(1)]
  have e: "e < length (remotes s)" "conn_type (remotes s ! e) = Exec"
    using assms(2) by (auto simp: is_busy_def is_busy_exec_def)
  have c: "unat c < length (remotes s)" "unat c \<noteq> e"
    using pairingD(1) [OF wiringD(3) [OF W] e assms(3)] not_pointed_exec [OF W e assms(3) e(2)] by auto
  have "running_exec_count s > 0"
    using e server_invD(4) [OF assms(1)]
    by (cases "filter is_live_exec (remotes s)") (auto simp: filter_empty_conv is_live_exec_def)
  then show ?thesis
    using e c assms(3,4)
    by (simp add: handle_msg_def handle_dropped_def chan_send_def set_remote_def nth_list_update)
qed

theorem lost_exec_fails_its_task_witness:
  "\<exists>s'. handle_msg demo_queue (+) demo_env 0 Dropped demo_state = Inr s' \<and>
     chan_sent (send_chan (remotes s' ! 1)) = [TaskFailed ''exec dropped connection''] \<and>
     conn_type (remotes s' ! 0) = Dead"
  using lost_exec_fails_its_task [OF demo_state_inv, of 0 1 demo_queue "(+)" demo_env]
  by (auto simp: demo_state_eq is_busy_def is_busy_exec_def)

text \<open>Starting, assigning and releasing do not touch the record of elapsed times.\<close>

lemma assign_one_record: "assign_one Q s = Inr s' \<Longrightarrow> in_the_making s' = in_the_making s"
  by (auto simp: assign_one_def set_remote_def and_then_eq_Inr Let_def
      split: option.splits list.splits prod.splits if_splits)

lemma assign_loop_record: "assign_loop Q s = Inr s' \<Longrightarrow> in_the_making s' = in_the_making s"
  by (rule assign_loop_keeps [where P = "\<lambda>t. in_the_making t = in_the_making s"])
    (simp_all add: assign_one_record)

lemma release_one_record: "release_one s = Inr s' \<Longrightarrow> in_the_making s' = in_the_making s"
  by (auto simp: release_one_def set_remote_def and_then_eq_Inr split: list.splits)

lemma release_loop_record: "release_loop s = Inr s' \<Longrightarrow> in_the_making s' = in_the_making s"
  by (rule release_loop_keeps [where P = "\<lambda>t. in_the_making t = in_the_making s"])
    (simp_all add: release_one_record)

lemma start_execs_record: "start_execs Q sp s = Inr (s', sp') \<Longrightarrow> in_the_making s' = in_the_making s"
  using start_execs_safe [of s Q sp] by (auto simp: only_starts_def)

lemma update_record: "update Q sp now s = Inr s' \<Longrightarrow> in_the_making s' = in_the_making s"
  by (auto simp: update_def check_queues_def and_then_eq_Inr split: if_splits
      dest!: start_execs_record assign_loop_record release_loop_record)

lemma exec_is_ready_record: "exec_is_ready Q E e s = Inr s' \<Longrightarrow> in_the_making s' = in_the_making s"
  by (auto simp: exec_is_ready_def and_then_eq_Inr set_remote_def dest!: update_record)

lemma send_to_paired_remote_record:
  "send_to_paired_remote e msg s = Inr s' \<Longrightarrow> in_the_making s' = in_the_making s"
  by (auto simp: send_to_paired_remote_def and_then_eq_Inr set_remote_def Let_def
      split: option.splits if_splits sum.splits)

text \<open>
  The elapsed time of a task is recorded exactly when it finished with exit code zero:
  then under its target, replacing what was recorded before, and nothing else changes in the
  record.
\<close>

theorem only_successes_are_recorded:
  assumes "handle_msg Q bytes_add E e (TaskDone code t run_time send_time) s = Inr s'"
  shows "history_get (in_the_making s') k =
     (if code = Some 0 \<and> k = t then Some run_time else history_get (in_the_making s) k)"
  using assms
  by (auto simp: handle_msg_def Let_def and_then_eq_Inr record_elapsed_def hist.get_update
      dest!: exec_is_ready_record send_to_paired_remote_record split: if_splits)

theorem only_successes_are_recorded_witness:
  "\<exists>s'. handle_msg demo_queue (+) demo_env 0 (TaskDone (Some 0) ''a.o'' 9 2) demo_state = Inr s' \<and>
     history_get (in_the_making s') ''a.o'' = Some 9"
proof -
  obtain s' where "handle_msg demo_queue (+) demo_env 0 (TaskDone (Some 0) ''a.o'' 9 2) demo_state = Inr s'"
    by (simp add: demo_state_def demo_defs server_simps send_to_paired_remote_def record_elapsed_def)
  with only_successes_are_recorded [OF this, of "''a.o''"] show ?thesis by simp
qed

section \<open>Releasing executors and shutting down\<close>

text \<open>Releasing the executors of the queue one by one.\<close>

definition released :: "nat list \<Rightarrow> 'q server_state \<Rightarrow> 'q server_state \<Rightarrow> bool" where
  "released es s s' \<longleftrightarrow>
     running_exec_count s' + length es = running_exec_count s \<and>
     (\<forall>i. remotes s' ! i =
        (if i \<in> set es then
           (remotes s ! i)\<lparr>conn_type := Dead, send_chan := (send_chan (remotes s ! i))
              \<lparr>chan_sent := chan_sent (send_chan (remotes s ! i)) @ [PissOff]\<rparr>\<rparr>
         else remotes s ! i))"

lemma release_loop_all:
  assumes "exec_queue s = es" and "distinct es" and "length es \<le> running_exec_count s"
    and "\<forall>e \<in> set es. e < length (remotes s) \<and> chan_open (send_chan (remotes s ! e))"
  shows "\<exists>s'. release_loop s = Inr s' \<and> exec_queue s' = [] \<and> task_queue s' = task_queue s \<and> released es s s'"
  using assms
proof (induction es arbitrary: s)
  case Nil
  then show ?case by (subst release_loop.simps) (simp add: released_def)
next
  case (Cons e es)
  let ?s = "(set_remote e ((remotes s ! e)\<lparr>conn_type := Dead, send_chan := (send_chan (remotes s ! e))
      \<lparr>chan_sent := chan_sent (send_chan (remotes s ! e)) @ [PissOff]\<rparr>\<rparr>) s)
    \<lparr>exec_queue := es, running_exec_count := running_exec_count s - 1\<rparr>"
  have one: "release_one s = Inr ?s"
    using Cons.prems by (simp add: release_one_def chan_send_def set_remote_def)
  have "\<exists>s'. release_loop ?s = Inr s' \<and> exec_queue s' = [] \<and> task_queue s' = task_queue ?s \<and> released es ?s s'"
    using Cons.prems by (intro Cons.IH) (auto simp: set_remote_def nth_list_update)
  then obtain s' where s': "release_loop ?s = Inr s'" "exec_queue s' = []" "task_queue s' = task_queue s"
      "released es ?s s'"
    by (auto simp: set_remote_def)
  have "released (e # es) s s'"
    using s'(4) Cons.prems by (auto simp: released_def set_remote_def nth_list_update)
  then show ?case
    using Cons.prems(1) one s' by (subst release_loop.simps) simp
qed

text \<open>
  Once no task has arrived for longer than the release delay and none waits, checking the
  queues tells every idle executor to leave, counts all of them off, marks them dead and
  touches no other remote.
\<close>

theorem idle_execs_are_released:
  assumes "priority_queue Q items q_ok" and "server_inv items q_ok s"
    and "pq_is_empty Q (task_queue s)" and "ok_to_release now s"
    and "\<forall>e \<in> set (exec_queue s). conn_type (remotes s ! e) = Exec \<and> chan_open (send_chan (remotes s ! e))"
  shows "\<exists>s'. check_queues Q now s = Inr s' \<and> exec_queue s' = [] \<and> released (exec_queue s) s s'"
proof -
  note eqD = exec_queueD [OF wiringD(1) [OF server_invD(3) [OF assms(2)]]]
  have "set (exec_queue s) \<subseteq> {i. i < length (remotes s) \<and> is_live_exec (remotes s ! i)}"
    using eqD(2) assms(5) by (auto simp: is_live_exec_def)
  then have "card (set (exec_queue s)) \<le> card {i. i < length (remotes s) \<and> is_live_exec (remotes s ! i)}"
    by (intro card_mono) auto
  then have "length (exec_queue s) \<le> running_exec_count s"
    using server_invD(4) [OF assms(2)] distinct_card [OF eqD(1)] by (simp add: length_filter_conv_card)
  with release_loop_all [of s "exec_queue s"] eqD(1,2) assms(5)
  obtain s' where "release_loop s = Inr s'" "exec_queue s' = []" "released (exec_queue s) s s'" by auto
  then show ?thesis
    using assms(3,4) by (auto simp: check_queues_def assign_loop.simps [of Q s])
qed

definition demo_idle :: demo_state where
  "demo_idle = demo_start\<lparr>remotes := [demo_remote Exec], exec_queue := [0], running_exec_count := 1,
     last_submit_time := Some 0\<rparr>"

lemma demo_idle_inv: "server_inv map_of (\<lambda>q. distinct (map fst q)) demo_idle"
  by (simp add: demo_idle_def demo_remote_def demo_defs inv_defs)

theorem idle_execs_are_released_witness:
  "\<exists>s'. check_queues demo_queue (31 * 10 ^ 9) demo_idle = Inr s' \<and> exec_queue s' = [] \<and>
     released (exec_queue demo_idle) demo_idle s'"
  by (rule idle_execs_are_released [OF demo_priority_queue demo_idle_inv])
    (simp_all add: demo_idle_def demo_remote_def demo_defs ok_to_release_def elapsed_secs_def
      duration_since_def as_secs_def nanos_per_sec_def)

text \<open>A run of the loop in which the environment keeps its side at every event.\<close>

fun loop_ok ::
  "'q task_pq \<Rightarrow> (nat \<Rightarrow> nat \<Rightarrow> nat) \<Rightarrow> (event \<times> systime) list \<Rightarrow> 'q server_state \<Rightarrow> bool" where
  "loop_ok Q bytes_add [] s = True"
| "loop_ok Q bytes_add ((ev, now) # evs) s \<longleftrightarrow>
     event_ok s ev \<and>
     (case on_event Q bytes_add ev s of Inr s' \<Rightarrow> loop_ok Q bytes_add evs s' | Inl _ \<Rightarrow> True)"

lemma no_live_exec: "length (filter is_live_exec rs) = 0 \<longleftrightarrow> list_all (\<lambda>r. conn_type r \<noteq> Exec) rs"
  by (auto simp: filter_empty_conv list_all_iff is_live_exec_def)

lemma loop_ends_idle:
  assumes "priority_queue Q items q_ok" and "server_inv items q_ok s" and "loop_ok Q bytes_add evs s"
  shows "safely (\<lambda>s. items (task_queue s) = Map.empty \<and> list_all (\<lambda>r. conn_type r \<noteq> Exec) (remotes s))
     (server_loop Q bytes_add evs s)"
  using assms(2,3)
proof (induction evs arbitrary: s)
  case (Cons e evs)
  obtain ev now where e: "e = (ev, now)" by fastforce
  have ok: "event_ok s ev" using Cons.prems(2) by (simp add: e)
  have ends: "items (task_queue s') = Map.empty \<and> list_all (\<lambda>r. conn_type r \<noteq> Exec) (remotes s')"
    if "server_inv items q_ok s'" "ok_to_shutdown Q now s'" for s'
    using that server_invD(1,4) [OF that(1)] priority_queue.is_empty_items [OF assms(1)]
    by (simp add: ok_to_shutdown_def flip: no_live_exec)
  show ?case
    unfolding e server_loop.simps
    by (rule safely_and_then [OF server_queue.on_event_inv [OF server_queue.intro [OF assms(1)]
          Cons.prems(1) ok]])
      (use ends Cons.IH Cons.prems(2) e in auto)
qed simp



text \<open>A closed channel at the head of the idle executors.\<close>

lemma assign_to_closed:
  assumes "priority_queue Q items q_ok" and "server_inv items q_ok s"
    and "\<not> pq_is_empty Q (task_queue s)" and "exec_queue s = e # es"
    and "\<not> chan_open (send_chan (remotes s ! e))"
  shows "check_queues Q now s = Inl (Err ''channel closed'')"
proof -
  note D = server_invD [OF assms(2)]
  obtain c d p q where pop: "pq_pop Q (task_queue s) = Some (((c, d), p), q)"
    by (rule priority_queue.pop_nonempty [OF assms(1) D(1) assms(3)]) (metis surj_pair)
  have c: "c < length (remotes s)" "paired_id (remotes s ! c) = None" "c \<noteq> e" "wf_task d"
    using task_queueD [OF wiringD(2) [OF D(3)] priority_queue.dom_pop(2) [OF assms(1) D(1) pop]] assms(4)
    by auto
  have e: "e < length (remotes s)" "paired_id (remotes s ! e) = None"
    using exec_queueD(2,3) [OF wiringD(1) [OF D(3)], of e] assms(4) by auto
  show ?thesis
    using assms(3,4,5) assign_one_eq [OF pop assms(4) c(1) e(1) c(3,4,2) e(2)]
    by (simp add: check_queues_def assign_loop.simps [of Q s] chan_send_def)
qed

lemma update_to_closed:
  assumes "priority_queue Q items q_ok" and "server_inv items q_ok s"
    and "\<not> pq_is_empty Q (task_queue s)" and "exec_queue s = e # es"
    and "\<not> chan_open (send_chan (remotes s ! e))"
  shows "\<not> returns (update Q sp now s)"
proof (cases "start_execs Q sp s")
  case (Inr r)
  then obtain s' sp' where r: "start_execs Q sp s = Inr (s', sp')" by (cases r) auto
  then have os: "only_starts s s'" using start_execs_safe [of s Q sp] by simp
  then have "task_queue s' = task_queue s" "exec_queue s' = exec_queue s" "remotes s' = remotes s"
    by (auto simp: only_starts_def)
  moreover have "server_inv items q_ok s'" using assms(2) only_starts_keeps(1) [OF os] by simp
  ultimately show ?thesis
    using assign_to_closed [OF assms(1), of s' e es now] assms(3-5) r by (simp add: update_def)
qed (simp add: update_def)

lemma task_to_closed:
  assumes "priority_queue Q items q_ok" and "server_inv items q_ok s" and "exec_queue s = e # es"
    and "\<not> chan_open (send_chan (remotes s ! e))" and "conforms s i (Task a u d)"
  shows "\<not> returns (on_event Q bytes_add (Inbound E i (Task a u d)) s)"
proof -
  note D = server_invD [OF assms(2)]
  obtain t prior where t: "get_target_id d = Inr t"
      "task_priority (prior_history s) t (priority_task d) = Inr prior"
    using assms(5) by (auto simp: conforms_def returns_def split: sum.splits)
  have i: "i < length (remotes s)" "conn_type (remotes s ! i) = Pending"
    using assms(5) by (auto simp: conforms_def is_pending_def)
  have "i \<noteq> e" using pendingD(2) [OF wiringD(4) [OF D(3)] i] assms(3) by auto
  let ?q = "pq_push Q (i, d) prior (task_queue s)"
  let ?s = "(set_remote i ((remotes s ! i)\<lparr>conn_type := Client\<rparr>) (s\<lparr>submit_count := submit_count s + 1\<rparr>))
      \<lparr>task_queue := ?q, last_submit_time := Some (at_submit E)\<rparr>"
  have q: "items ?q = (items (task_queue s))((i, d) \<mapsto> prior)" "q_ok ?q"
    using priority_queue.items_push [OF assms(1) D(1)] priority_queue.ok_push [OF assms(1) D(1)] by auto
  have inv: "server_inv items q_ok ?s"
    using wf_task_iff [of d] t(1) i
    by (intro server_queue.client_pushed_inv [OF server_queue.intro [OF assms(1)] assms(2)])
      (simp_all add: is_pending_def)
  have "\<not> returns (update Q (spawns E) (at_check E) ?s)"
  proof (rule update_to_closed [OF assms(1) inv, of e es])
    show "\<not> pq_is_empty Q (task_queue ?s)"
      using priority_queue.is_empty_items [OF assms(1) q(2)] q(1) by (simp add: fun_eq_iff) metis
  qed (use assms(3,4) \<open>i \<noteq> e\<close> in \<open>simp_all add: set_remote_def\<close>)
  then show ?thesis
    using i t
    by (auto simp: on_event_def handle_msg_def remote_is_client_def set_remote_def returns_def
        and_then_def split: sum.splits)
qed



text \<open>
  The connection task of a lost executor sends \<open>Dropped\<close> and only then gives up its channel.  When
  the server is quicker, the next task is sent to nobody and its client is not told; or, when the
  idle executors are released before that, the executor is counted off a second time.
\<close>

lemma early_loss_swallows_a_task:
  "\<exists>s. and_then (on_event demo_queue (+) (Inbound demo_env 0 Dropped) demo_idle) (\<lambda>s.
         and_then (on_event demo_queue (+) Accept s)
           (on_event demo_queue (+) (Inbound (demo_env\<lparr>spawns := [True]\<rparr>) 1 (Task 42 7 demo_task)))) = Inr s \<and>
     map conn_type (remotes s) = [Dead, Client] \<and>
     map (\<lambda>r. chan_sent (send_chan r)) (remotes s) = [[Task 0 0 demo_task], []] \<and>
     paired_id (remotes s ! 1) = Some 0 \<and> task_queue s = []"
  by (simp add: demo_idle_def demo_remote_def demo_defs server_simps handle_dropped_def ok_to_shutdown_def)

lemma early_loss_breaks_the_count:
  "panics (and_then (on_event demo_queue (+) (Inbound demo_env 0 Dropped) demo_idle)
     (on_event demo_queue (+) (Watchdog (demo_env\<lparr>at_check := 31 * 10 ^ 9\<rparr>))))"
  by (simp add: demo_idle_def demo_remote_def demo_defs server_simps handle_dropped_def usub_def)
text \<open>
  C39: A peer that has never identified itself, and whose message therefore passes the check of
  codes, makes the server panic with a single report about a task.
\<close>

theorem stranger_panics_the_server:
  assumes "msg = TaskFailed m \<or> msg = TaskOutput ot content \<or> msg = TaskDone code t run_time send_time"
    and "is_pending s i" and "server_inv items q_ok s"
  shows "relayed server_code key msg = msg \<and> panics (on_event Q bytes_add (Inbound E i msg) s)"
proof -
  have "i < length (remotes s)" "paired_id (remotes s ! i) = None"
    using assms(2) pendingD(1) [OF wiringD(4) [OF server_invD(3) [OF assms(3)]]]
    by (auto simp: is_pending_def)
  then show ?thesis
    using assms(1)
    by (auto simp: relayed_def must_drop_def on_event_def handle_msg_def send_to_paired_remote_def
        record_elapsed_def Let_def)
qed

theorem stranger_panics_the_server_witness:
  "relayed 42 7 (TaskFailed []) = TaskFailed [] \<and>
   panics (on_event demo_queue (+) (Inbound demo_env 1 (TaskFailed []))
     (demo_idle\<lparr>remotes := [demo_remote Exec, demo_remote Pending]\<rparr>))"
  by (rule stranger_panics_the_server [where items = map_of and q_ok = "\<lambda>q. distinct (map fst q)"])
    (simp_all add: is_pending_def demo_idle_def demo_remote_def demo_defs inv_defs less_Suc_eq)

section \<open>The contact file\<close>

lemma load_key_files:
  assumes "\<forall>home. home_dir = Some home \<longrightarrow> path_join home ''.spraycc.private'' \<noteq> p"
  shows "files (snd (load_user_private_key from_toml to_toml can_write rnd create home_dir fs)) p = files fs p"
  using assms
  by (auto simp: load_user_private_key_def write_user_private_key_def Let_def
      split: option.splits sum.splits)


definition demo_run_env :: "unit run_env" where
  "demo_run_env = \<lparr>key_from_toml = (\<lambda>_. None), key_to_toml = (\<lambda>_. []), key_can_write = False, key_rnd = 0,
     cfg_from_toml = (\<lambda>_. None), hist_from_str = (\<lambda>_. None), hist_to_vec = (\<lambda>_. None),
     hist_tmp = \<lparr>tmp_new = True, tmp_write = True, tmp_persist = True, tmp_mode = octal 6 0 0\<rparr>, hist_time = 0,
     contact_to_toml = (\<lambda>c. Some (addr c)), env_home = None, env_cwd = [''w''], code_rnd = 84,
     bound_addr = (\<lambda>h. Inr (h @ '':7'')), net_ifaces = Inl [], start_time = 0, stats_ok = True\<rparr>"


end
