(* ===== verification/Server_Spawns.thy ===== *)
theory Server_Spawns
  imports Server_Props
begin

unbundle bit_operations_syntax

text \<open>
  Starting executors (\<open>start_execs\<close> and \<open>start_execs_in_queue\<close> in \<open>src/src/server.rs\<close>): how many are
  launched, the bounds that are kept, and when the loop ends.
\<close>

section \<open>Starting executors\<close>

text \<open>
  The number of executors that the loop for one queue aims at, given those of the other queue.
\<close>

definition exec_target :: "'q task_pq \<Rightarrow> 'q server_state \<Rightarrow> nat \<Rightarrow> nat \<Rightarrow> nat" where
  "exec_target Q s other keep =
     min keep (min (pq_len Q (task_queue s)) (max_count (user_config s)) - (running_exec_count s + other))"

lemma wants_exec_target: "wants_exec Q s other keep n \<longleftrightarrow> n < exec_target Q s other keep"
  by (auto simp: wants_exec_def exec_target_def)

lemma exec_target_le:
  "running_exec_count s + max n (exec_target Q s other keep) + other \<le>
     max (running_exec_count s + n + other) (min (pq_len Q (task_queue s)) (max_count (user_config s)))"
  by (auto simp: exec_target_def max_def min_def)

lemma max_chain:
  "r + m + n \<le> max (r + q + n) l \<Longrightarrow> r + n + q \<le> max (r + p + q) l \<Longrightarrow> r + n + m \<le> max (r + p + q) (l :: nat)"
  by (cases "r + q + n \<le> l"; cases "r + p + q \<le> l") (simp_all add: max_def)

lemma spawn_loop_reaches:
  assumes "T - n \<le> length (filter id sp)"
  shows "\<exists>sp'. spawn_loop (\<lambda>k. k < T) sp n = Inr (max n T, sp')"
  using assms
  by (induction "\<lambda>k. k < T" sp n rule: spawn_loop.induct) (auto simp: max_def split: if_splits)

lemma spawn_loop_bound:
  assumes "spawn_loop (\<lambda>k. k < T) sp n = Inr (n', sp')"
  shows "n' = max n T"
  using assms
  by (induction "\<lambda>k. k < T" sp n rule: spawn_loop.induct) (auto simp: max_def split: if_splits)

lemma spawn_loop_starved:
  assumes "length (filter id sp) < T - n"
  shows "spawn_loop (\<lambda>k. k < T) sp n = Inl NotDone"
  using assms
  by (induction "\<lambda>k. k < T" sp n rule: spawn_loop.induct) (auto split: if_splits)

lemma start_queue_eq:
  "start_execs_in_queue Q False keep sp s =
     and_then (spawn_loop (\<lambda>k. k < exec_target Q s (second_pending_exec_count s) keep) sp (pending_exec_count s))
       (\<lambda>(n, sp'). Inr (s\<lparr>pending_exec_count := n,
          launched := launched s @ replicate (n - pending_exec_count s) (start_cmd s)\<rparr>, sp'))"
  by (simp add: start_execs_in_queue_def wants_exec_target [abs_def])

lemma start_second_queue_eq:
  "second_start_cmd s = Some cmd \<Longrightarrow> start_execs_in_queue Q True keep sp s =
     and_then (spawn_loop (\<lambda>k. k < exec_target Q s (pending_exec_count s) keep) sp (second_pending_exec_count s))
       (\<lambda>(n, sp'). Inr (s\<lparr>second_pending_exec_count := n,
          launched := launched s @ replicate (n - second_pending_exec_count s) cmd\<rparr>, sp'))"
  by (simp add: start_execs_in_queue_def wants_exec_target [abs_def])

text \<open>A task of the only client waits and there is no executor.\<close>

definition demo_alone :: demo_state where
  "demo_alone = demo_start\<lparr>remotes := [demo_remote Client],
     task_queue := [((0, demo_task), from_secs 1)], submit_count := 1\<rparr>"

text \<open>How many executors \<open>start_execs\<close> keeps pending.\<close>

definition keep_target :: "'q server_state \<Rightarrow> nat" where
  "keep_target s =
     max (keep_pending (user_config s))
       (max (initial_count (user_config s)) (running_exec_count s) - running_exec_count s)"

text \<open>
  C25: With one start command and enough successful attempts, the server launches exactly the
  executors missing to the smallest of three limits: one per waiting task, the configured
  maximum, both less the executors already there, and the number to keep pending; and it
  stops there.
\<close>

theorem start_execs_reaches_target:
  assumes "second_start_cmd s = None" and "\<not> pq_is_empty Q (task_queue s)"
    and "exec_target Q s (second_pending_exec_count s) (keep_target s) - pending_exec_count s
      \<le> length (filter id sp)"
  shows "\<exists>sp'. start_execs Q sp s =
     Inr (s\<lparr>pending_exec_count := max (pending_exec_count s)
              (exec_target Q s (second_pending_exec_count s) (keep_target s)),
            launched := launched s @
              replicate (exec_target Q s (second_pending_exec_count s) (keep_target s) - pending_exec_count s)
                (start_cmd s)\<rparr>, sp')"
proof -
  let ?T = "exec_target Q s (second_pending_exec_count s) (keep_target s)"
  have "max (pending_exec_count s) ?T - pending_exec_count s = ?T - pending_exec_count s"
    by (simp add: max_def)
  then show ?thesis
    using spawn_loop_reaches [OF assms(3)] assms(1,2)
    by (auto simp: start_execs_def start_queue_eq Let_def simp flip: keep_target_def)
qed

theorem start_execs_reaches_target_witness:
  "\<exists>s' sp'. start_execs demo_queue [False, True, True] demo_alone = Inr (s', sp') \<and>
     pending_exec_count s' = 1 \<and> launched s' = [start_cmd demo_alone]"
proof -
  have "exec_target demo_queue demo_alone (second_pending_exec_count demo_alone) (keep_target demo_alone) = 1"
    "second_start_cmd demo_alone = None" "\<not> pq_is_empty demo_queue (task_queue demo_alone)"
    "pending_exec_count demo_alone = 0" "launched demo_alone = []"
    by (simp_all add: demo_alone_def demo_defs exec_target_def keep_target_def)
  with start_execs_reaches_target [of demo_alone demo_queue "[False, True, True]"]
  show ?thesis by auto
qed

text \<open>The state after a call that returns, with one queue and with two.\<close>

lemma start_execs_one:
  fixes Q s
  defines "n \<equiv> max (pending_exec_count s) (exec_target Q s (second_pending_exec_count s) (keep_target s))"
  assumes "start_execs Q sp s = Inr (s', sp')" and "second_start_cmd s = None"
  shows "s' = s \<or> s' = s\<lparr>pending_exec_count := n,
      launched := launched s @ replicate (n - pending_exec_count s) (start_cmd s)\<rparr>"
  using assms(2,3)
  by (auto simp: start_execs_def start_queue_eq Let_def and_then_eq_Inr n_def
      simp flip: keep_target_def dest!: spawn_loop_bound split: if_splits)

lemma start_execs_two:
  fixes Q s
  defines "half \<equiv> (keep_target s + 1) div 2"
  defines "n \<equiv> max (pending_exec_count s) (exec_target Q s (second_pending_exec_count s) half)"
  defines "m \<equiv> max (second_pending_exec_count s) (exec_target Q s n half)"
  assumes "start_execs Q sp s = Inr (s', sp')" and "second_start_cmd s = Some cmd"
  shows "s' = s \<or> s' = s\<lparr>pending_exec_count := n, second_pending_exec_count := m,
      launched := launched s @ replicate (n - pending_exec_count s) (start_cmd s) @
        replicate (m - second_pending_exec_count s) cmd\<rparr>"
proof (cases "pq_is_empty Q (task_queue s)")
  case True
  then show ?thesis using assms(4) by (simp add: start_execs_def)
next
  case False
  obtain s1 sp1 where 1: "start_execs_in_queue Q False half sp s = Inr (s1, sp1)"
      "start_execs_in_queue Q True half sp1 s1 = Inr (s', sp')"
    using assms(4,5) False
    by (auto simp: start_execs_def Let_def and_then_eq_Inr half_def simp flip: keep_target_def)
  have s1: "s1 = s\<lparr>pending_exec_count := n,
      launched := launched s @ replicate (n - pending_exec_count s) (start_cmd s)\<rparr>"
    using 1(1) unfolding n_def start_queue_eq by (auto simp: and_then_eq_Inr dest: spawn_loop_bound)
  have "second_start_cmd s1 = Some cmd" "pending_exec_count s1 = n"
    "second_pending_exec_count s1 = second_pending_exec_count s"
    "exec_target Q s1 n half = exec_target Q s n half"
    by (simp_all add: s1 assms(5) exec_target_def)
  then have "s' = s1\<lparr>second_pending_exec_count := m,
      launched := launched s1 @ replicate (m - second_pending_exec_count s) cmd\<rparr>"
    using 1(2) unfolding m_def
    by (auto simp: start_second_queue_eq and_then_eq_Inr dest: spawn_loop_bound)
  then show ?thesis by (simp add: s1)
qed

lemma start_execs_two_le:
  fixes Q s
  defines "half \<equiv> (keep_target s + 1) div 2"
  defines "n \<equiv> max (pending_exec_count s) (exec_target Q s (second_pending_exec_count s) half)"
  defines "m \<equiv> max (second_pending_exec_count s) (exec_target Q s n half)"
  shows "running_exec_count s + n + m \<le>
      max (running_exec_count s + pending_exec_count s + second_pending_exec_count s)
        (min (pq_len Q (task_queue s)) (max_count (user_config s)))"
    "pending_exec_count s \<le> n" "second_pending_exec_count s \<le> m"
  unfolding m_def by (rule max_chain [OF exec_target_le], unfold n_def, rule exec_target_le) simp_all

text \<open>
  C26: Whatever the spawns return, starting executors never takes the total of running and
  pending executors above the number of waiting tasks or the configured maximum, unless it
  already was; no pending executor is forgotten; and exactly the executors that are counted
  as pending in addition were launched, each with the command of its queue.
\<close>

theorem executors_bounded:
  assumes "start_execs Q sp s = Inr (s', sp')"
  shows "running_exec_count s' = running_exec_count s \<and>
     pending_exec_count s \<le> pending_exec_count s' \<and>
     second_pending_exec_count s \<le> second_pending_exec_count s' \<and>
     running_exec_count s' + pending_exec_count s' + second_pending_exec_count s' \<le>
       max (running_exec_count s + pending_exec_count s + second_pending_exec_count s)
         (min (pq_len Q (task_queue s)) (max_count (user_config s))) \<and>
     launched s' = launched s @
       replicate (pending_exec_count s' - pending_exec_count s) (start_cmd s) @
       (case second_start_cmd s of
          None \<Rightarrow> []
        | Some cmd \<Rightarrow> replicate (second_pending_exec_count s' - second_pending_exec_count s) cmd)"
proof (cases "second_start_cmd s")
  case None
  obtain n where "s' = s \<or> s' = s\<lparr>pending_exec_count := n,
        launched := launched s @ replicate (n - pending_exec_count s) (start_cmd s)\<rparr>"
      "running_exec_count s + n + second_pending_exec_count s \<le>
        max (running_exec_count s + pending_exec_count s + second_pending_exec_count s)
          (min (pq_len Q (task_queue s)) (max_count (user_config s)))"
      "pending_exec_count s \<le> n"
    using start_execs_one [OF assms None] exec_target_le max.cobounded1 by blast
  then show ?thesis using None by auto
next
  case (Some cmd)
  obtain n m where "s' = s \<or> s' = s\<lparr>pending_exec_count := n, second_pending_exec_count := m,
        launched := launched s @ replicate (n - pending_exec_count s) (start_cmd s) @
          replicate (m - second_pending_exec_count s) cmd\<rparr>"
      "running_exec_count s + n + m \<le>
        max (running_exec_count s + pending_exec_count s + second_pending_exec_count s)
          (min (pq_len Q (task_queue s)) (max_count (user_config s)))"
      "pending_exec_count s \<le> n" "second_pending_exec_count s \<le> m"
    using start_execs_two [OF assms Some] start_execs_two_le by blast
  then show ?thesis using Some by auto
qed

theorem executors_bounded_witness:
  "\<exists>s' sp'. start_execs demo_queue [False, True] demo_alone = Inr (s', sp') \<and>
     running_exec_count s' + pending_exec_count s' + second_pending_exec_count s' \<le> max 0 (min 1 1000)"
proof -
  obtain s' sp' where r: "start_execs demo_queue [False, True] demo_alone = Inr (s', sp')"
    by (auto simp: demo_alone_def demo_defs start_execs_def start_execs_in_queue_def wants_exec_def)
  have "running_exec_count demo_alone + pending_exec_count demo_alone +
      second_pending_exec_count demo_alone = 0" "pq_len demo_queue (task_queue demo_alone) = 1"
    "max_count (user_config demo_alone) = 1000"
    by (simp_all add: demo_alone_def demo_defs)
  with executors_bounded [OF r] r show ?thesis by auto
qed

text \<open>
  If an executor is wanted and every attempt to start one fails, the server never gets out
  of its start loop, however often it tries: it handles no further message.
\<close>

theorem failing_spawns_block_the_server:
  assumes "second_start_cmd s = None" and "\<not> pq_is_empty Q (task_queue s)"
    and "pending_exec_count s < exec_target Q s (second_pending_exec_count s) (keep_target s)"
  shows "update Q (replicate n False) now s = Inl NotDone"
  using assms spawn_loop_starved [of "replicate n False"
      "exec_target Q s (second_pending_exec_count s) (keep_target s)" "pending_exec_count s"]
  by (simp add: update_def start_execs_def start_queue_eq Let_def filter_replicate flip: keep_target_def)

theorem failing_spawns_block_the_server_witness:
  "update demo_queue (replicate 1000 False) 5 demo_alone = Inl NotDone"
  by (rule failing_spawns_block_the_server)
    (simp_all add: demo_alone_def demo_defs exec_target_def keep_target_def)

end
