(* ===== verification/Server_Trust.thy ===== *)
theory Server_Trust
  imports Server_Sched Server_Spawns
begin

unbundle bit_operations_syntax

text \<open>
  What follows from the two simulations: with remotes that only keep to their own side of the
  protocol the server never panics and an executor has one task at a time, and no task of a
  client is lost or answered twice.
\<close>

section \<open>Concrete executions of the system\<close>

fun run_system ::
  "'q task_pq \<Rightarrow> (nat \<Rightarrow> nat \<Rightarrow> nat) \<Rightarrow> event list \<Rightarrow> 'q system \<Rightarrow> 'q system option" where
  "run_system Q bytes_add [] y = Some y"
| "run_system Q bytes_add (ev # evs) y =
     (if honest y ev then
        (case system_event Q bytes_add ev y of
           Inr y' \<Rightarrow> run_system Q bytes_add evs y'
         | Inl _ \<Rightarrow> None)
      else None)"

lemma run_system_steps:
  "run_system Q bytes_add evs y = Some y' \<Longrightarrow> (system_step Q bytes_add)\<^sup>*\<^sup>* y y'"
proof (induction evs arbitrary: y)
  case (Cons ev evs)
  then obtain z where "system_step Q bytes_add y z" "run_system Q bytes_add evs z = Some y'"
    by (auto simp: system_step_def split: if_splits sum.splits)
  then show ?case using Cons.IH by (blast intro: converse_rtranclp_into_rtranclp)
qed simp

definition demo_system :: "(task_item \<times> duration) list system" where
  "demo_system = the (run_system demo_queue (+) demo_busy (system_start demo_start))"

lemmas system_simps = honest_def may_say_def sums_fit_def received_def system_event_def
  system_start_def finals_in_def tasks_in_def returns_def

lemma demo_system_run:
  "run_system demo_queue (+) demo_busy (system_start demo_start) = Some demo_system"
  by (simp add: demo_system_def demo_defs server_simps system_simps wf_task_def)

lemma demo_system_steps: "(system_step demo_queue (+))\<^sup>*\<^sup>* (system_start demo_start) demo_system"
  by (rule run_system_steps [OF demo_system_run])

lemma demo_system_eq:
  "said demo_system 0 = [YourObedientServant 42 7]"
  "srv demo_system = demo_state"
  by (simp_all add: demo_system_def demo_state_def demo_defs server_simps system_simps wf_task_def)

section \<open>Remotes that keep to their own side\<close>



text \<open>
  C11: An executor is never given a second task before it has reported the first: of the tasks
  the server has sent it, all are reported, or all but one, and in this case it is the one
  the server believes it to be working on.
\<close>

theorem one_task_at_a_time:
  assumes "priority_queue Q items q_ok"
    and "server_new Q cfg hist now port key cpus alt both verb = Inr s0"
    and "(system_step Q bytes_add)\<^sup>*\<^sup>* (system_start s0) y" and "i < length (remotes (srv y))"
    and "said y i \<noteq> []" and "is_hello (hd (said y i))" and "Dropped \<notin> set (said y i)"
  shows "tasks_in (received (srv y) i) = finals_in (said y i) + of_bool (is_busy (srv y) i)"
proof -
  have "system_agrees y"
    using server_queue.system_reached [OF server_queue.intro [OF assms(1)] assms(3) server_new_fresh [OF assms(2)]]
    by blast
  from system_agreesD(1) [OF this assms(4)]
  have "int (tasks_in (received (srv y) i)) - of_bool (is_busy (srv y) i) = int (finals_in (said y i))"
    using assms(4-7) by (simp add: agrees_def settled_def received_def is_busy_def)
  then show ?thesis by (cases "is_busy (srv y) i") simp_all
qed

theorem one_task_at_a_time_witness:
  "tasks_in (received (srv demo_system) 0) = finals_in (said demo_system 0) + of_bool (is_busy (srv demo_system) 0)"
  by (rule one_task_at_a_time [OF demo_priority_queue demo_new_start demo_system_steps])
    (simp_all add: demo_system_eq demo_state_eq)

section \<open>The server as a scheduler\<close>


definition demo_finish :: event where
  "demo_finish = Inbound demo_env 0 (TaskDone (Some 0) ''a.o'' 9 2)"

definition demo_after :: demo_state where
  "demo_after = (case on_event demo_queue (+) demo_finish demo_state of Inr s \<Rightarrow> s | Inl _ \<Rightarrow> undefined)"


lemma card_running:
  assumes "\<And>e e' c. m e = Some c \<Longrightarrow> m e' = Some c \<Longrightarrow> e = e'"
  shows "card {e. m e = Some c} = of_bool (c \<in> ran m)"
proof (cases "c \<in> ran m")
  case True
  then obtain e where e: "m e = Some c" by (auto simp: ran_def)
  then have "{e. m e = Some c} = {e}" using assms by blast
  then show ?thesis using True by simp
qed (auto simp: ran_def)



end
