(* ===== verification/Server_Relay.thy ===== *)
theory Server_Relay
  imports Server_Trust "HOL-Library.Sublist"
begin

unbundle bit_operations_syntax

text \<open>
  Whose report a client receives.  The messages of an executor are cut at the final ones into
  reports, the \<open>k\<close>-th report being on the \<open>k\<close>-th task it was given; the server relays to a client
  exactly the report on the task this client submitted.
\<close>

section \<open>Reports in a conversation\<close>

text \<open>The reports that were ended, and the one that has not been ended yet.\<close>

definition cut_reports :: "message list \<Rightarrow> message list list \<times> message list" where
  "cut_reports ms =
     foldl (\<lambda>(ended, cur) m.
       if is_final m then (ended @ [cur @ [m]], []) else if is_report m then (ended, cur @ [m]) else (ended, cur))
     ([], []) ms"

definition reports :: "message list \<Rightarrow> message list list" where
  "reports ms = fst (cut_reports ms)"

definition current :: "message list \<Rightarrow> message list" where
  "current ms = snd (cut_reports ms)"

lemma reports_simps [simp]:
  "reports [] = []" "reports (ms @ [m]) = (if is_final m then reports ms @ [current ms @ [m]] else reports ms)"
  "current [] = []" "current (ms @ [m]) = (if is_final m then [] else if is_report m then current ms @ [m] else current ms)"
  by (simp_all add: reports_def current_def cut_reports_def split: prod.splits)

lemma length_reports: "length (reports ms) = finals_in ms"
  by (induction ms rule: rev_induct) (simp_all add: finals_in_def)

lemma finals_current [simp]: "finals_in (current ms) = 0"
  by (induction ms rule: rev_induct) auto

lemma finals_reports: "r \<in> set (reports ms) \<Longrightarrow> finals_in r = 1"
  by (induction ms rule: rev_induct) (auto split: if_splits)

text \<open>A report ends with its only final message, so no proper prefix of it has one.\<close>

lemma reports_ended: "r \<in> set (reports ms) \<Longrightarrow> \<exists>xs m. r = xs @ [m] \<and> finals_in xs = 0"
  by (induction ms rule: rev_induct) (auto split: if_splits)

lemma prefix_to_final:
  assumes "prefix xs (ys @ [m])" and "finals_in ys = 0" and "finals_in xs \<noteq> 0"
  shows "xs = ys @ [m]"
proof (rule ccontr)
  assume "xs \<noteq> ys @ [m]"
  then have "prefix xs ys" using assms(1) by simp
  then show False using assms(2,3) by (auto simp: finals_in_def elim: prefixE)
qed

definition task_msgs :: "remote \<Rightarrow> message list" where
  "task_msgs r = filter is_task_msg (chan_sent (send_chan r))"

definition submitted :: "(nat \<Rightarrow> message list) \<Rightarrow> nat \<Rightarrow> task_details \<Rightarrow> bool" where
  "submitted sd c d \<longleftrightarrow> sd c \<noteq> [] \<and> (\<exists>a u. hd (sd c) = Task a u d)"

definition introduced :: "(nat \<Rightarrow> message list) \<Rightarrow> nat \<Rightarrow> bool" where
  "introduced sd e \<longleftrightarrow> sd e \<noteq> [] \<and> is_hello (hd (sd e))"

section \<open>Where the task of a client is, and what the client was sent\<close>

text \<open>It waits, executor \<open>e\<close> works on it, or it was the \<open>k\<close>-th task of executor \<open>e\<close>.\<close>

definition waits ::
  "('q \<Rightarrow> (task_item \<rightharpoonup> duration)) \<Rightarrow> (nat \<Rightarrow> message list) \<Rightarrow> 'q server_state \<Rightarrow> nat \<Rightarrow> task_details \<Rightarrow> bool" where
  "waits items sd s c d \<longleftrightarrow>
     (c, d) \<in> dom (items (task_queue s)) \<and> chan_sent (send_chan (remotes s ! c)) = []"

definition in_work ::
  "(nat \<Rightarrow> message list) \<Rightarrow> 'q server_state \<Rightarrow> nat \<Rightarrow> task_details \<Rightarrow> nat \<Rightarrow> bool" where
  "in_work sd s c d e \<longleftrightarrow>
     e < length (remotes s) \<and> works_for (remotes s ! e) = Some c \<and> task_msgs (remotes s ! e) \<noteq> [] \<and>
     last (task_msgs (remotes s ! e)) = Task 0 0 d \<and>
     chan_sent (send_chan (remotes s ! c)) = current (sd e)"

definition reported ::
  "(nat \<Rightarrow> message list) \<Rightarrow> 'q server_state \<Rightarrow> nat \<Rightarrow> task_details \<Rightarrow> nat \<Rightarrow> nat \<Rightarrow> bool" where
  "reported sd s c d e k \<longleftrightarrow>
     e < length (remotes s) \<and> k < length (task_msgs (remotes s ! e)) \<and>
     task_msgs (remotes s ! e) ! k = Task 0 0 d \<and>
     (k < length (reports (sd e)) \<and> chan_sent (send_chan (remotes s ! c)) = reports (sd e) ! k \<or>
      Dropped \<in> set (sd e) \<and> chan_sent (send_chan (remotes s ! c)) =
        current (sd e) @ [TaskFailed ''exec dropped connection''])"

definition delivery ::
  "('q \<Rightarrow> (task_item \<rightharpoonup> duration)) \<Rightarrow> (nat \<Rightarrow> message list) \<Rightarrow> 'q server_state \<Rightarrow> nat \<Rightarrow> bool" where
  "delivery items sd s c \<longleftrightarrow>
     (\<exists>d. submitted sd c d \<and>
        (waits items sd s c d \<or> (\<exists>e. in_work sd s c d e) \<or> (\<exists>e k. reported sd s c d e k)))"

definition delivers ::
  "('q \<Rightarrow> (task_item \<rightharpoonup> duration)) \<Rightarrow> (nat \<Rightarrow> message list) \<Rightarrow> 'q server_state \<Rightarrow> bool" where
  "delivers items sd s \<longleftrightarrow>
     (\<forall>c < length (remotes s). is_client (remotes s ! c) \<longrightarrow> delivery items sd s c) \<and>
     (\<forall>e < length (remotes s). is_idle_exec (remotes s ! e) \<longrightarrow> current (sd e) = []) \<and>
     (\<forall>i < length (remotes s). pending (remotes s ! i) \<longrightarrow> chan_sent (send_chan (remotes s ! i)) = []) \<and>
     (\<forall>e < length (remotes s). conn_type (remotes s ! e) = Exec \<longrightarrow> introduced sd e)"

lemma deliversI:
  assumes "\<And>c. c < length (remotes s) \<Longrightarrow> is_client (remotes s ! c) \<Longrightarrow> delivery items sd s c"
    and "\<And>e. e < length (remotes s) \<Longrightarrow> is_idle_exec (remotes s ! e) \<Longrightarrow> current (sd e) = []"
    and "\<And>i. i < length (remotes s) \<Longrightarrow> pending (remotes s ! i) \<Longrightarrow> chan_sent (send_chan (remotes s ! i)) = []"
    and "\<And>e. e < length (remotes s) \<Longrightarrow> conn_type (remotes s ! e) = Exec \<Longrightarrow> introduced sd e"
  shows "delivers items sd s"
  using assms by (simp add: delivers_def)

lemma deliversD:
  assumes "delivers items sd s"
  shows "c < length (remotes s) \<Longrightarrow> is_client (remotes s ! c) \<Longrightarrow> delivery items sd s c"
    and "e < length (remotes s) \<Longrightarrow> is_idle_exec (remotes s ! e) \<Longrightarrow> current (sd e) = []"
    and "i < length (remotes s) \<Longrightarrow> pending (remotes s ! i) \<Longrightarrow> chan_sent (send_chan (remotes s ! i)) = []"
    and "e < length (remotes s) \<Longrightarrow> conn_type (remotes s ! e) = Exec \<Longrightarrow> introduced sd e"
  using assms by (auto simp: delivers_def)

lemma delivers_same:
  "remotes s' = remotes s \<Longrightarrow> task_queue s' = task_queue s \<Longrightarrow> delivers items sd s' = delivers items sd s"
  by (simp add: delivers_def delivery_def waits_def in_work_def reported_def)

text \<open>
  What a step may do to an executor without harm to what clients were told of its reports,
  and when it leaves a client alone.
\<close>

definition unconcerned ::
  "(nat \<Rightarrow> message list) \<Rightarrow> 'q server_state \<Rightarrow> (nat \<Rightarrow> message list) \<Rightarrow> 'q server_state \<Rightarrow> nat \<Rightarrow> bool" where
  "unconcerned sd s sd' s' e \<longleftrightarrow>
     e < length (remotes s') \<and> prefix (task_msgs (remotes s ! e)) (task_msgs (remotes s' ! e)) \<and>
     prefix (reports (sd e)) (reports (sd' e)) \<and>
     (Dropped \<in> set (sd e) \<longrightarrow> Dropped \<in> set (sd' e) \<and> current (sd' e) = current (sd e))"

definition untouched ::
  "('q \<Rightarrow> (task_item \<rightharpoonup> duration)) \<Rightarrow> (nat \<Rightarrow> message list) \<Rightarrow> 'q server_state \<Rightarrow> (nat \<Rightarrow> message list) \<Rightarrow>
     'q server_state \<Rightarrow> nat \<Rightarrow> bool" where
  "untouched items sd s sd' s' c \<longleftrightarrow>
     c < length (remotes s) \<and> is_client (remotes s ! c) \<and>
     chan_sent (send_chan (remotes s' ! c)) = chan_sent (send_chan (remotes s ! c)) \<and>
     (\<forall>d. (c, d) \<in> dom (items (task_queue s)) \<longrightarrow> (c, d) \<in> dom (items (task_queue s'))) \<and>
     (\<forall>e < length (remotes s). works_for (remotes s ! e) = Some c \<longrightarrow>
        works_for (remotes s' ! e) = Some c \<and> task_msgs (remotes s' ! e) = task_msgs (remotes s ! e) \<and>
        current (sd' e) = current (sd e))"

lemma delivery_cases:
  assumes "delivery items sd s c"
  obtains (waits) d where "submitted sd c d" "waits items sd s c d"
    | (in_work) d e where "submitted sd c d" "in_work sd s c d e"
    | (reported) d e k where "submitted sd c d" "reported sd s c d e k"
  using assms by (auto simp: delivery_def)

lemma deliveryI:
  "submitted sd c d \<Longrightarrow> waits items sd s c d \<Longrightarrow> delivery items sd s c"
  "submitted sd c d \<Longrightarrow> in_work sd s c d e \<Longrightarrow> delivery items sd s c"
  "submitted sd c d \<Longrightarrow> reported sd s c d e k \<Longrightarrow> delivery items sd s c"
  by (auto simp: delivery_def)

lemma untouched_delivery:
  assumes "delivery items sd s c" and "untouched items sd s sd' s' c"
    and unc: "\<And>e. e < length (remotes s) \<Longrightarrow> unconcerned sd s sd' s' e"
    and sub: "\<And>d. submitted sd c d \<Longrightarrow> submitted sd' c d"
  shows "delivery items sd' s' c"
  using assms(1)
proof (cases rule: delivery_cases)
  case (waits d)
  have "waits items sd' s' c d" using waits(2) assms(2) by (simp add: waits_def untouched_def)
  then show ?thesis by (rule deliveryI(1) [OF sub [OF waits(1)]])
next
  case (in_work d e)
  then have "e < length (remotes s)" by (simp add: in_work_def)
  then have "in_work sd' s' c d e"
    using in_work(2) assms(2) unc [of e] by (simp add: in_work_def untouched_def unconcerned_def)
  then show ?thesis by (rule deliveryI(2) [OF sub [OF in_work(1)]])
next
  case (reported d e k)
  then have "e < length (remotes s)" by (simp add: reported_def)
  then have "reported sd' s' c d e k"
    using reported(2) assms(2) unc [of e]
    by (auto simp: reported_def untouched_def unconcerned_def prefix_def nth_append)
  then show ?thesis by (rule deliveryI(3) [OF sub [OF reported(1)]])
qed

text \<open>A step that leaves every client alone, or for which delivery is shown otherwise.\<close>

lemma delivers_step:
  assumes "delivers items sd s"
    and "\<And>c. c < length (remotes s') \<Longrightarrow> is_client (remotes s' ! c) \<Longrightarrow>
      delivery items sd' s' c \<or> untouched items sd s sd' s' c"
    and "\<And>e. e < length (remotes s) \<Longrightarrow> unconcerned sd s sd' s' e"
    and "\<And>c d. submitted sd c d \<Longrightarrow> submitted sd' c d"
    and "\<And>e. e < length (remotes s') \<Longrightarrow> is_idle_exec (remotes s' ! e) \<Longrightarrow> current (sd' e) = []"
    and "\<And>i. i < length (remotes s') \<Longrightarrow> pending (remotes s' ! i) \<Longrightarrow> chan_sent (send_chan (remotes s' ! i)) = []"
    and "\<And>e. e < length (remotes s') \<Longrightarrow> conn_type (remotes s' ! e) = Exec \<Longrightarrow> introduced sd' e"
  shows "delivers items sd' s'"
proof (rule deliversI)
  fix c assume "c < length (remotes s')" "is_client (remotes s' ! c)"
  then show "delivery items sd' s' c"
    using assms(2) [of c] untouched_delivery [OF deliversD(1) [OF assms(1)] _ assms(3,4), of c]
    by (auto simp: untouched_def)
qed (fact assms(5-7))+

text \<open>The scheduler knows in which of the three places the task is.\<close>

lemma reported_final: "reported sd s c d e k \<Longrightarrow> finals_in (chan_sent (send_chan (remotes s ! c))) = 1"
  by (auto simp: reported_def dest: finals_reports [OF nth_mem])

lemma in_work_running: "in_work sd s c d e \<Longrightarrow> running (sched_of items s) e = Some c"
  by (simp add: in_work_def sched_of_def at_remote_def)

lemma delivery_ended:
  assumes "delivery items sd s c" and "finals_in (received s c) \<noteq> 0"
  shows "\<exists>xs m. received s c = xs @ [m] \<and> finals_in xs = 0"
  using assms(1)
proof (cases rule: delivery_cases)
  case (reported d e k)
  then have "received s c \<in> set (reports (sd e)) \<or>
      received s c = current (sd e) @ [TaskFailed ''exec dropped connection'']"
    by (auto simp: reported_def received_def)
  then show ?thesis using reports_ended finals_current by blast
qed (use assms(2) in \<open>simp_all add: waits_def in_work_def received_def\<close>)

lemma delivery_waits:
  assumes "sched_ok (sched_of items s)" and "delivery items sd s c" and "c < length (remotes s)"
    and "(c, d) \<in> dom (items (task_queue s))"
  shows "\<exists>d. submitted sd c d \<and> waits items sd s c d"
proof -
  have "c \<in> waiting (sched_of items s)" using assms(4) by (force simp: sched_of_def)
  then have "c \<notin> ran (running (sched_of items s))" "answers (sched_of items s) c = 0"
    using sched_okD(1) [OF assms(1), of c] by (auto simp: places_def)
  then have "\<not> in_work sd s c d' e" "\<not> reported sd s c d' e k" for d' e k
    using assms(3) in_work_running [of sd s c d' e items] ranI [of "running (sched_of items s)" e c]
      reported_final [of sd s c d' e k]
    by (auto simp: sched_of_def at_remote_def answers_to_def)
  then show ?thesis using assms(2) by (auto elim!: delivery_cases)
qed

lemma delivery_in_work:
  assumes "sched_ok (sched_of items s)" and "delivery items sd s c" and "c < length (remotes s)"
    and "e < length (remotes s)" and "works_for (remotes s ! e) = Some c"
  shows "\<exists>d. submitted sd c d \<and> in_work sd s c d e"
proof -
  have run: "running (sched_of items s) e = Some c"
    using assms(4,5) by (simp add: sched_of_def at_remote_def)
  then have "c \<in> ran (running (sched_of items s))" by (rule ranI)
  then have "c \<notin> waiting (sched_of items s)" "answers (sched_of items s) c = 0"
    using sched_okD(1) [OF assms(1), of c] by (auto simp: places_def)
  then have "(c, d) \<notin> dom (items (task_queue s))" "finals_in (chan_sent (send_chan (remotes s ! c))) = 0" for d
    using assms(3) by (force simp: sched_of_def at_remote_def answers_to_def)+
  moreover have "e' = e" if "in_work sd s c d e'" for d e'
    by (rule sched_okD(6) [OF assms(1) in_work_running [OF that] run])
  ultimately show ?thesis
    using assms(2) by (auto elim!: delivery_cases simp: waits_def dest: reported_final)
qed

context server_queue
begin

lemma assign_one_delivers:
  assumes "inv s" and "sched_ok (sched_of items s)" and "delivers items sd s" and "assign_one Q s = Inr s'"
  shows "delivers items sd s'"
proof -
  note D = server_invD [OF assms(1)]
  obtain c0 d0 p q e0 es where pop: "pq_pop Q (task_queue s) = Some (((c0, d0), p), q)"
    and cd: "(c0, d0) \<in> dom (items (task_queue s))" "c0 < length (remotes s)" "e0 < length (remotes s)" "c0 \<noteq> e0"
      "conn_type (remotes s ! c0) = Client \<or> conn_type (remotes s ! c0) = Dead" "conn_type (remotes s ! e0) = Exec"
      "paired_id (remotes s ! e0) = None"
    and s': "s' = s\<lparr>task_queue := q, exec_queue := es,
       remotes := (remotes s)[c0 := (remotes s ! c0)\<lparr>paired_id := Some (word_of_nat e0)\<rparr>,
         e0 := (remotes s ! e0)\<lparr>paired_id := Some (word_of_nat c0), send_chan := (send_chan (remotes s ! e0))
           \<lparr>chan_sent := chan_sent (send_chan (remotes s ! e0)) @ [Task 0 0 d0]\<rparr>\<rparr>]\<rparr>"
    by (rule assign_one_returns [OF assms(1,4)])
  have u: "unat (word_of_nat c0 :: u32) = c0" using cd(2) D(2) by (intro unat_id) simp
  note q = dom_pop(1) [OF D(1) pop] and same = task_queueD(6) [OF wiringD(2) [OF D(3)] cd(1)]
  have c0: "delivery items sd s' c0" if cl: "is_client (remotes s ! c0)"
  proof -
    obtain d where d: "submitted sd c0 d" "waits items sd s c0 d"
      using delivery_waits [OF assms(2) deliversD(1) [OF assms(3) cd(2) cl] cd(2,1)] by blast
    then have "d = d0" using same [of d] by (simp add: waits_def)
    then have "in_work sd s' c0 d e0"
      using cd d(2) u deliversD(2) [OF assms(3) cd(3)]
      by (simp add: in_work_def waits_def s' works_for_def task_msgs_def is_idle_exec_def nth_list_update)
    then show ?thesis by (rule deliveryI(2) [OF d(1)])
  qed
  show ?thesis
  proof (rule delivers_step [OF assms(3)])
    fix c assume "c < length (remotes s')" "is_client (remotes s' ! c)"
    then show "delivery items sd s' c \<or> untouched items sd s sd s' c"
      using c0 cd
      by (cases "c = c0") (auto simp: s' q untouched_def is_client_def nth_list_update works_for_def task_msgs_def split: if_splits)
  qed (use cd deliversD(2-4) [OF assms(3)] in
      \<open>auto simp: s' unconcerned_def task_msgs_def nth_list_update is_idle_exec_def pending_def split: if_splits\<close>)
qed

lemma release_one_delivers:
  assumes "inv s" and "delivers items sd s" and "release_one s = Inr s'"
  shows "delivers items sd s'"
proof -
  obtain e0 es where e0: "e0 < length (remotes s)" "conn_type (remotes s ! e0) = Exec"
      "paired_id (remotes s ! e0) = None" and s': "task_queue s' = task_queue s"
      "remotes s' = (remotes s)[e0 := (remotes s ! e0)\<lparr>conn_type := Dead, send_chan := (send_chan (remotes s ! e0))
         \<lparr>chan_sent := chan_sent (send_chan (remotes s ! e0)) @ [PissOff]\<rparr>\<rparr>]"
    by (rule release_one_returns [OF assms(1,3)])
  show ?thesis
  proof (rule delivers_step [OF assms(2)])
    fix c assume "c < length (remotes s')" "is_client (remotes s' ! c)"
    then have "untouched items sd s sd s' c"
      using e0 by (auto simp: s' untouched_def is_client_def nth_list_update works_for_def split: if_splits)
    then show "delivery items sd s' c \<or> untouched items sd s sd s' c" ..
  qed (use e0 deliversD(2-4) [OF assms(2)] in
      \<open>auto simp: s' unconcerned_def task_msgs_def nth_list_update is_idle_exec_def pending_def split: if_splits\<close>)
qed

lemma update_delivers:
  assumes "inv s" and "update Q sp now s = Inr s'" and "sched_ok (sched_of items s) \<and> delivers items sd s"
  shows "inv s' \<and> sched_ok (sched_of items s') \<and> delivers items sd s'"
proof (rule update_keeps [where P = "\<lambda>t. sched_ok (sched_of items t) \<and> delivers items sd t", OF assms])
  fix t t' :: "'q server_state" assume "sched_ok (sched_of items t) \<and> delivers items sd t" "only_starts t t'"
  then show "sched_ok (sched_of items t') \<and> delivers items sd t'"
    using delivers_same [of t' t items sd] sched_of_same [of t' t items] by (auto simp: only_starts_def)
next
  fix t t' :: "'q server_state"
  assume t: "inv t" "sched_ok (sched_of items t) \<and> delivers items sd t"
  { assume "assign_one Q t = Inr t'"
    then show "sched_ok (sched_of items t') \<and> delivers items sd t'"
      using t assign_one_delivers assign_one_sched sched_step_ok by blast }
  { assume "release_one t = Inr t'"
    then show "sched_ok (sched_of items t') \<and> delivers items sd t'"
      using t release_one_delivers release_one_sched sched_step_ok by blast }
qed

end

text \<open>Messages that report nothing change nothing for the clients.\<close>

lemma submitted_snoc: "submitted sd c d \<Longrightarrow> submitted (sd(i := sd i @ [msg])) c d"
  by (auto simp: submitted_def)

lemma delivers_quiet:
  assumes "delivers items sd s" and "\<not> is_report msg"
  shows "delivers items (sd(i := sd i @ [msg])) s"
proof (rule delivers_step [OF assms(1) _ _ submitted_snoc])
  have "\<not> is_final msg" using assms(2) by (cases msg) simp_all
  note quiet = this assms(2)
  { fix c assume "c < length (remotes s)" "is_client (remotes s ! c)"
    then have "untouched items sd s (sd(i := sd i @ [msg])) s c" using quiet by (simp add: untouched_def)
    then show "delivery items (sd(i := sd i @ [msg])) s c \<or> untouched items sd s (sd(i := sd i @ [msg])) s c" .. }
  { fix e assume "e < length (remotes s)"
    then show "unconcerned sd s (sd(i := sd i @ [msg])) s e" using quiet by (simp add: unconcerned_def) }
  { fix e assume "e < length (remotes s)" "is_idle_exec (remotes s ! e)"
    then show "current ((sd(i := sd i @ [msg])) e) = []" using deliversD(2) [OF assms(1), of e] quiet by auto }
  { fix e assume "e < length (remotes s)" "conn_type (remotes s ! e) = Exec"
    then show "introduced (sd(i := sd i @ [msg])) e"
      using deliversD(4) [OF assms(1), of e] by (auto simp: introduced_def) }
qed (simp, rule deliversD(3) [OF assms(1)])

text \<open>A remote changes its role without having been a client or worked for one.\<close>

lemma delivers_role:
  assumes "delivers items sd s" and "i < length (remotes s)" and "works_for (remotes s ! i) = None"
    and t: "remotes t = (remotes s)[i := r]" "send_chan r = send_chan (remotes s ! i)"
      "dom (items (task_queue s)) \<subseteq> dom (items (task_queue t))"
    and "is_client r \<Longrightarrow> delivery items sd t i" and "is_idle_exec r \<Longrightarrow> current (sd i) = []" and "\<not> pending r"
    and "conn_type r = Exec \<Longrightarrow> introduced sd i"
  shows "delivers items sd t"
proof (rule delivers_step [OF assms(1)])
  fix c assume c: "c < length (remotes t)" "is_client (remotes t ! c)"
  show "delivery items sd t c \<or> untouched items sd s sd t c"
  proof (cases "c = i")
    case True
    then show ?thesis using assms(2,7) c(2) by (simp add: t)
  next
    case False
    then have "untouched items sd s sd t c"
      using c assms(2,3) t(2,3) by (auto simp: untouched_def t(1) nth_list_update task_msgs_def)
    then show ?thesis ..
  qed
qed (use assms(2,8-10) t(2) deliversD(2-4) [OF assms(1)] in
    \<open>auto simp: t(1) unconcerned_def task_msgs_def nth_list_update split: if_splits\<close>)

text \<open>Executor \<open>i\<close> is at work for \<open>c\<close>, on the last of its tasks.\<close>

definition at_work ::
  "('q \<Rightarrow> (task_item \<rightharpoonup> duration)) \<Rightarrow> (nat \<Rightarrow> message list) \<Rightarrow> 'q server_state \<Rightarrow> nat \<Rightarrow> nat \<Rightarrow> bool" where
  "at_work items sd s i c \<longleftrightarrow>
     delivers items sd s \<and> sched_ok (sched_of items s) \<and> i < length (remotes s) \<and> c < length (remotes s) \<and>
     c \<noteq> i \<and> conn_type (remotes s ! i) = Exec \<and> works_for (remotes s ! i) = Some c \<and> Dropped \<notin> set (sd i) \<and>
     length (task_msgs (remotes s ! i)) = Suc (finals_in (sd i))"

lemma at_workD:
  assumes "at_work items sd s i c"
  shows "delivers items sd s" "sched_ok (sched_of items s)" "i < length (remotes s)" "c < length (remotes s)"
    "c \<noteq> i" "conn_type (remotes s ! i) = Exec" "works_for (remotes s ! i) = Some c" "Dropped \<notin> set (sd i)"
    "length (task_msgs (remotes s ! i)) = Suc (finals_in (sd i))"
  using assms by (simp_all add: at_work_def)

lemma at_work_same:
  assumes "remotes t = remotes s" and "task_queue t = task_queue s"
  shows "at_work items sd t i c = at_work items sd s i c"
  using delivers_same [OF assms, of items sd] sched_of_same [OF assms, of items] assms(1)
  by (simp add: at_work_def)

lemma at_work_only:
  assumes "at_work items sd s i c" and "e < length (remotes s)" and "works_for (remotes s ! e) = Some c"
  shows "e = i"
  using sched_okD(6) [OF at_workD(2) [OF assms(1)], of e c i] assms(2,3) at_workD(3,7) [OF assms(1)]
  by (simp add: sched_of_def at_remote_def)

lemma at_work_client:
  assumes "at_work items sd s i c" and "is_client (remotes s ! c)"
  obtains d where "submitted sd c d" "in_work sd s c d i"
proof -
  note W = at_workD [OF assms(1)]
  show ?thesis
    using that delivery_in_work [OF W(2) deliversD(1) [OF W(1,4) assms(2)] W(4,3,7)] by blast
qed

lemma in_work_nth:
  "in_work sd s c d e \<Longrightarrow> length (task_msgs (remotes s ! e)) = Suc n \<Longrightarrow> task_msgs (remotes s ! e) ! n = Task 0 0 d"
  by (auto simp: in_work_def last_conv_nth)

text \<open>
  Executor \<open>i\<close> says \<open>msg\<close> and is replaced, its client is sent something or turns out to be gone;
  it is enough to see to this client.
\<close>

lemma at_work_step:
  assumes W: "at_work items sd s i c" and t: "length (remotes t) = length (remotes s)" "task_queue t = task_queue s"
      "\<And>j. j \<noteq> c \<Longrightarrow> j \<noteq> i \<Longrightarrow> remotes t ! j = remotes s ! j"
    and i: "task_msgs (remotes t ! i) = task_msgs (remotes s ! i)"
      "conn_type (remotes t ! i) = Exec \<or> conn_type (remotes t ! i) = Dead"
      "is_idle_exec (remotes t ! i) \<Longrightarrow> current (sd i @ [msg]) = []"
    and c: "task_msgs (remotes t ! c) = task_msgs (remotes s ! c)"
      "conn_type (remotes s ! c) = Client \<or> conn_type (remotes s ! c) = Dead"
      "conn_type (remotes t ! c) = Client \<or> conn_type (remotes t ! c) = Dead"
      "is_client (remotes t ! c) \<Longrightarrow> delivery items (sd(i := sd i @ [msg])) t c"
  shows "delivers items (sd(i := sd i @ [msg])) t"
proof (rule delivers_step [OF at_workD(1) [OF W] _ _ submitted_snoc])
  note D = at_workD [OF W]
  let ?sd = "sd(i := sd i @ [msg])"
  { fix k assume k: "k < length (remotes t)" "is_client (remotes t ! k)"
    show "delivery items ?sd t k \<or> untouched items sd s ?sd t k"
    proof (cases "k = c")
      case True
      then show ?thesis using c(4) k(2) by simp
    next
      case False
      then have "k \<noteq> i" using i(2) k(2) by (auto simp: is_client_def)
      have "e \<noteq> i \<and> remotes t ! e = remotes s ! e" if "works_for (remotes s ! e) = Some k" for e
        using that False D(7) t(3) [of e] c(2) by (cases "e = c"; cases "e = i") (auto simp: works_for_def)
      then have "untouched items sd s ?sd t k"
        using False \<open>k \<noteq> i\<close> k t by (simp add: untouched_def)
      then show ?thesis ..
    qed }
  { fix e assume e: "e < length (remotes s)"
    show "unconcerned sd s ?sd t e"
      using e D(8) t i(1) c(1) by (cases "e = i"; cases "e = c") (auto simp: unconcerned_def) }
  { fix e assume e: "e < length (remotes t)" "is_idle_exec (remotes t ! e)"
    then have "e \<noteq> c" using c(3) by (auto simp: is_idle_exec_def)
    then show "current (?sd e) = []"
      using e t deliversD(2) [OF D(1), of e] i(3) by (cases "e = i") simp_all }
  { fix j assume j: "j < length (remotes t)" "pending (remotes t ! j)"
    then have "j \<noteq> c" "j \<noteq> i" using c(3) i(2) by (auto simp: pending_def)
    then show "chan_sent (send_chan (remotes t ! j)) = []"
      using j t deliversD(3) [OF D(1), of j] by simp }
  { fix e assume e: "e < length (remotes t)" "conn_type (remotes t ! e) = Exec"
    then have "e = i \<or> remotes t ! e = remotes s ! e" using c(3) t(3) [of e] by (cases "e = c") auto
    then show "introduced ?sd e"
      using e t(1) D(3,6) deliversD(4) [OF D(1), of e] by (auto simp: introduced_def) }
qed

lemma output_delivers:
  assumes "at_work items sd s i c" and "is_report msg" and "\<not> is_final msg"
    and "sent_to c msg (remotes s) (remotes t)" and "task_queue t = task_queue s"
  shows "delivers items (sd(i := sd i @ [msg])) t"
proof -
  note D = at_workD [OF assms(1)]
  have nt: "\<not> is_task_msg msg" using assms(2) by (cases msg) simp_all
  show ?thesis
  proof (rule at_work_step [OF assms(1)])
    assume cl: "is_client (remotes t ! c)"
    with assms(4) D(4) have del: "is_client (remotes s ! c)"
      "remotes t ! c = (remotes s ! c)\<lparr>send_chan := (send_chan (remotes s ! c))
        \<lparr>chan_sent := chan_sent (send_chan (remotes s ! c)) @ [msg]\<rparr>\<rparr>"
      by (auto elim!: sent_to.cases simp: is_client_def)
    obtain d where d: "submitted sd c d" "in_work sd s c d i" by (rule at_work_client [OF assms(1) del(1)])
    have "remotes t ! i = remotes s ! i" "length (remotes t) = length (remotes s)"
      using assms(4) D(5) by (auto elim!: sent_to.cases)
    then have "in_work (sd(i := sd i @ [msg])) t c d i"
      using d(2) del(2) assms(2,3) by (simp add: in_work_def)
    then show "delivery items (sd(i := sd i @ [msg])) t c" by (rule deliveryI(2) [OF submitted_snoc [OF d(1)]])
  qed (use assms(4,5) D(3-7) nt in
      \<open>auto elim!: sent_to.cases simp: task_msgs_def is_idle_exec_def works_for_def\<close>)
qed

lemma final_delivers:
  assumes "at_work items sd s i c" and "is_final msg" and "sent_to c msg (remotes s) rs"
    and t: "remotes t = rs[i := (rs ! i)\<lparr>paired_id := None\<rparr>]" "task_queue t = task_queue s"
  shows "delivers items (sd(i := sd i @ [msg])) t"
proof -
  note D = at_workD [OF assms(1)]
  have nt: "\<not> is_task_msg msg" using assms(2) by (cases msg) simp_all
  have rs: "length rs = length (remotes s)" "rs ! i = remotes s ! i"
    using assms(3) D(5) by (auto elim!: sent_to.cases)
  show ?thesis
  proof (rule at_work_step [OF assms(1)])
    assume "is_client (remotes t ! c)"
    with assms(3) D(4,5) have del: "is_client (remotes s ! c)"
      "remotes t ! c = (remotes s ! c)\<lparr>send_chan := (send_chan (remotes s ! c))
        \<lparr>chan_sent := chan_sent (send_chan (remotes s ! c)) @ [msg]\<rparr>\<rparr>"
      by (auto elim!: sent_to.cases simp: is_client_def t)
    obtain d where d: "submitted sd c d" "in_work sd s c d i" by (rule at_work_client [OF assms(1) del(1)])
    have "task_msgs (remotes t ! i) = task_msgs (remotes s ! i)"
      using rs D(3) by (simp add: t task_msgs_def)
    then have "reported (sd(i := sd i @ [msg])) t c d i (finals_in (sd i))"
      using d(2) in_work_nth [OF d(2) D(9)] del(2) assms(2) D(3,9) rs(1)
      by (simp add: reported_def in_work_def t(1) length_reports nth_append)
    then show "delivery items (sd(i := sd i @ [msg])) t c" by (rule deliveryI(3) [OF submitted_snoc [OF d(1)]])
  qed (use assms(2,3) D(3-7) rs t nt in
      \<open>auto elim!: sent_to.cases simp: task_msgs_def\<close>)
qed

lemma lost_delivers:
  fixes s :: "'q server_state"
  assumes "at_work items sd s i c" and "conn_type (remotes s ! c) = Client \<or> conn_type (remotes s ! c) = Dead"
    and t: "remotes t = (remotes s)[c := (remotes s ! c)\<lparr>send_chan := (send_chan (remotes s ! c))\<lparr>chan_sent :=
        chan_sent (send_chan (remotes s ! c)) @ [TaskFailed ''exec dropped connection'']\<rparr>\<rparr>,
      i := (remotes s ! i)\<lparr>conn_type := Dead\<rparr>]" "task_queue t = task_queue s"
  shows "delivers items (sd(i := sd i @ [Dropped])) t"
proof -
  note D = at_workD [OF assms(1)]
  show ?thesis
  proof (rule at_work_step [OF assms(1)])
    assume "is_client (remotes t ! c)"
    then have cl: "is_client (remotes s ! c)" using D(4,5) by (simp add: t is_client_def)
    obtain d where d: "submitted sd c d" "in_work sd s c d i" by (rule at_work_client [OF assms(1) cl])
    then have "reported (sd(i := sd i @ [Dropped])) t c d i (finals_in (sd i))"
      using in_work_nth [OF d(2) D(9)] D(3-5,9) by (simp add: reported_def in_work_def t(1) task_msgs_def)
    then show "delivery items (sd(i := sd i @ [Dropped])) t c" by (rule deliveryI(3) [OF submitted_snoc [OF d(1)]])
  qed (use assms(2) D(3-7) t in \<open>auto simp: task_msgs_def is_idle_exec_def\<close>)
qed

section \<open>Every message\<close>

context server_queue
begin

lemma report_delivers:
  assumes "inv s" and "at_work items sd s i c" and "is_final msg" and "send_to_paired_remote i msg s = Inr s1"
    and "is_busy s i" and "exec_is_ready Q E i (s1\<lparr>finish_count := finish_count s1 + 1\<rparr>) = Inr s'"
  shows "delivers items (sd(i := sd i @ [msg])) s'"
proof -
  note D = at_workD [OF assms(2)]
  obtain c' where "works_for (remotes s ! i) = Some c'" and q: "task_queue s1 = task_queue s"
    and sent: "sent_to c' msg (remotes s) (remotes s1)"
    by (rule send_to_paired_remote_returns [OF assms(1,5,4)])
  with D(7) have c: "c' = c" by simp
  have s1: "inv s1" "is_busy s1 i" using send_to_paired_remote_inv [OF assms(1,5), of msg] assms(4) by auto
  obtain p where i: "i < length (remotes s1)" "conn_type (remotes s1 ! i) = Exec"
      "paired_id (remotes s1 ! i) = Some p"
    using busy_pair [OF s1] by metis
  let ?t = "(set_remote i ((remotes s1 ! i)\<lparr>paired_id := None\<rparr>) (s1\<lparr>finish_count := finish_count s1 + 1\<rparr>))
    \<lparr>exec_queue := exec_queue s1 @ [i]\<rparr>"
  have "inv ?t" by (rule inv_free_exec [OF s1(1) i]) (simp_all add: set_remote_def)
  moreover have "update Q (spawns E) (at_check E) ?t = Inr s'"
    using assms(6) i by (simp add: exec_is_ready_def set_remote_def)
  moreover have "sched_steps (sched_of items s) (sched_of items ?t)"
    by (rule finish_sched [OF assms(1,5,3,4)]) (simp_all add: set_remote_def)
  then have "sched_ok (sched_of items ?t)" using D(2) by (rule sched.ainv_steps)
  moreover have "delivers items (sd(i := sd i @ [msg])) ?t"
    by (rule final_delivers [OF assms(2,3) sent [unfolded c]]) (simp_all add: set_remote_def q)
  ultimately show ?thesis using update_delivers by blast
qed

lemma busy_at_work:
  assumes "inv (srv y)" and "system_agrees y" and "sched_ok (sched_of items (srv y))"
    and "delivers items (said y) (srv y)" and "is_busy (srv y) i" and "Dropped \<notin> set (said y i)"
  obtains c where "at_work items (said y) (srv y) i c"
    "conn_type (remotes (srv y) ! c) = Client \<or> conn_type (remotes (srv y) ! c) = Dead"
proof -
  obtain p where p: "i < length (remotes (srv y))" "conn_type (remotes (srv y) ! i) = Exec"
      "paired_id (remotes (srv y) ! i) = Some p" "unat p < length (remotes (srv y))" "unat p \<noteq> i"
      "conn_type (remotes (srv y) ! unat p) = Client \<or> conn_type (remotes (srv y) ! unat p) = Dead"
    by (rule busy_pair [OF assms(1,5)])
  have "settled (remotes (srv y) ! i) = int (finals_in (said y i))"
    using system_agreesD(1) [OF assms(2) p(1)] deliversD(4) [OF assms(4) p(1,2)] assms(6)
    by (simp add: agrees_def introduced_def)
  then have "length (task_msgs (remotes (srv y) ! i)) = Suc (finals_in (said y i))"
    using p(2,3) by (simp add: settled_def is_busy_exec_def tasks_in_def task_msgs_def)
  then show ?thesis
    using p assms(3,4,6) by (intro that [of "unat p"]) (auto simp: at_work_def works_for_def)
qed

text \<open>Nobody is busy who just introduces itself.\<close>

lemma new_exec_delivers:
  assumes "inv s" and "sched_ok (sched_of items s)" and "delivers items sd s" and "is_pending s i"
    and "introduced sd i" and "current (sd i) = []" and "remote_is_exec Q E i second s = Inr s'"
  shows "delivers items sd s'"
proof -
  have i: "i < length (remotes s)" "conn_type (remotes s ! i) = Pending"
    using assms(4) by (auto simp: is_pending_def)
  have ok: "delivers items sd s'"
    if t: "remotes t = (remotes s)[i := (remotes s ! i)\<lparr>conn_type := Exec, paired_id := None\<rparr>]"
      "task_queue t = task_queue s" "exec_queue t = exec_queue s @ [i]"
      "submit_count t = submit_count s" "finish_count t = finish_count s"
      "running_exec_count t = running_exec_count s + 1"
      and u: "update Q (spawns E) (at_check E) t = Inr s'" for t
  proof -
    have "delivers items sd t"
      using i assms(5,6) t(2)
      by (intro delivers_role [OF assms(3) i(1) _ t(1)])
        (simp_all add: works_for_def is_client_def pending_def)
    moreover have "sched_ok (sched_of items t)"
      by (rule sched_step_ok [OF new_exec_sched [OF assms(4) t(1,2)] assms(2)])
    ultimately show ?thesis using update_delivers [OF inv_new_exec [OF assms(1) i t] u] by blast
  qed
  show ?thesis
    using i assms(7)
    by (auto simp: remote_is_exec_def exec_is_ready_def set_remote_def Let_def
        split: if_splits dest!: ok [rotated -1])
qed

lemma new_client_delivers:
  assumes "inv s" and "sched_ok (sched_of items s)" and "delivers items sd s" and "is_pending s i"
    and "submitted sd i d" and "wf_task d"
    and "remote_is_client Q E i d (s\<lparr>submit_count := submit_count s + 1\<rparr>) = Inr s'"
  shows "delivers items sd s'"
proof -
  have i: "i < length (remotes s)" "conn_type (remotes s ! i) = Pending"
    using assms(4) by (auto simp: is_pending_def)
  obtain t prior where t: "inv t" "update Q (spawns E) (at_check E) t = Inr s'"
      "remotes t = (remotes s)[i := (remotes s ! i)\<lparr>conn_type := Client\<rparr>]"
      "task_queue t = pq_push Q (i, d) prior (task_queue s)"
    by (rule remote_is_client_returns [OF assms(1,4,6,7)])
  have dom: "dom (items (task_queue t)) = insert (i, d) (dom (items (task_queue s)))"
    by (simp add: t(4) items_push [OF server_invD(1) [OF assms(1)]])
  have "waits items sd t i d"
    using i deliversD(3) [OF assms(3) i(1)] dom by (simp add: waits_def t(3) pending_def)
  then have "delivery items sd t i" by (rule deliveryI(1) [OF assms(5)])
  then have "delivers items sd t"
    using i dom
    by (intro delivers_role [OF assms(3) i(1) _ t(3)]) (auto simp: works_for_def is_idle_exec_def pending_def)
  moreover have "sched_ok (sched_of items t)"
    by (rule sched_step_ok [OF new_client_sched [OF assms(1,4) t(3,4)] assms(2)])
  ultimately show ?thesis using update_delivers [OF t(1,2)] by blast
qed

lemma dropped_delivers:
  assumes "inv (srv y)" and "system_agrees y" and "sched_ok (sched_of items (srv y))"
    and "delivers items (said y) (srv y)" and "i < length (remotes (srv y))" and "Dropped \<notin> set (said y i)"
    and "handle_dropped i (srv y) = Inr s'"
  shows "delivers items ((said y)(i := said y i @ [Dropped])) s'"
proof (cases "is_busy (srv y) i")
  case True
  obtain c where W: "at_work items (said y) (srv y) i c"
      "conn_type (remotes (srv y) ! c) = Client \<or> conn_type (remotes (srv y) ! c) = Dead"
    by (rule busy_at_work [OF assms(1-4) True assms(6)])
  note D = at_workD [OF W(1)]
  obtain p where "paired_id (remotes (srv y) ! i) = Some p" "unat p = c"
    using D(6,7) by (auto simp: works_for_def)
  then show ?thesis
    using assms(7) D(3-6)
    by (intro lost_delivers [OF W]) (auto simp: handle_dropped_def and_then_eq_Inr set_remote_def)
next
  case False
  have s': "task_queue s' = task_queue (srv y)"
    "remotes s' = (remotes (srv y))[i := (remotes (srv y) ! i)\<lparr>conn_type := Dead\<rparr>]"
    using assms(5,7) False
    by (auto simp: handle_dropped_def and_then_eq_Inr set_remote_def is_busy_def is_busy_exec_def
        split: connection_type.splits option.splits if_splits)
  have "works_for (remotes (srv y) ! i) = None"
    using False assms(5) by (auto simp: works_for_def is_busy_def is_busy_exec_def)
  then show ?thesis
    using assms(5) s'
    by (intro delivers_role [OF delivers_quiet [OF assms(4)] _ _ s'(2)])
      (simp_all add: is_client_def is_idle_exec_def pending_def)
qed

text \<open>What is known of the state when a message of a remote that keeps to its side arrives.\<close>

definition relaying :: "'q system \<Rightarrow> nat \<Rightarrow> message \<Rightarrow> bool" where
  "relaying y i msg \<longleftrightarrow>
     inv (srv y) \<and> system_agrees y \<and> sched_ok (sched_of items (srv y)) \<and> delivers items (said y) (srv y) \<and>
     i < length (remotes (srv y)) \<and> Dropped \<notin> set (said y i) \<and>
     may_say (received (srv y) i) (said y i) msg \<and> conforms (srv y) i msg"

lemma relayingD:
  assumes "relaying y i msg"
  shows "inv (srv y)" "system_agrees y" "sched_ok (sched_of items (srv y))" "delivers items (said y) (srv y)"
    "i < length (remotes (srv y))" "Dropped \<notin> set (said y i)" "may_say (received (srv y) i) (said y i) msg"
    "conforms (srv y) i msg"
  using assms by (auto simp: relaying_def)

lemma relaying_works:
  assumes "relaying y i msg" and "is_busy (srv y) i"
  obtains c where "at_work items (said y) (srv y) i c"
  using busy_at_work [OF relayingD(1-4) [OF assms(1)] assms(2) relayingD(6) [OF assms(1)]] that by blast

lemma hello_delivers:
  assumes "relaying y i (YourObedientServant a k)"
    and "handle_msg Q bytes_add E i (YourObedientServant a k) (srv y) = Inr s'"
  shows "delivers items ((said y)(i := said y i @ [YourObedientServant a k])) s'"
proof -
  let ?sd = "(said y)(i := said y i @ [YourObedientServant a k])"
  note R = relayingD [OF assms(1)]
  have new: "said y i = []" "is_pending (srv y) i" using R(7,8) by (simp_all add: may_say_def conforms_def)
  have "delivers items ?sd (srv y)" by (rule delivers_quiet [OF R(4)]) simp
  moreover have "introduced ?sd i" by (simp add: introduced_def new)
  moreover have "current ([] @ [YourObedientServant a k]) = []" unfolding reports_simps by simp
  then have "current (?sd i) = []" by (simp add: new)
  moreover have "remote_is_exec Q E i (a AND 1 \<noteq> 0) (srv y) = Inr s'"
    using assms(2) by (simp add: handle_msg_def)
  ultimately show ?thesis using new_exec_delivers [OF R(1,3) _ new(2)] by blast
qed

lemma task_delivers:
  assumes "relaying y i (Task a u d)" and "handle_msg Q bytes_add E i (Task a u d) (srv y) = Inr s'"
  shows "delivers items ((said y)(i := said y i @ [Task a u d])) s'"
proof -
  let ?sd = "(said y)(i := said y i @ [Task a u d])"
  note R = relayingD [OF assms(1)]
  have new: "said y i = []" "is_pending (srv y) i" "wf_task d"
    using R(7,8) by (simp_all add: may_say_def conforms_def)
  have "delivers items ?sd (srv y)" by (rule delivers_quiet [OF R(4)]) simp
  moreover have "submitted ?sd i d" by (simp add: submitted_def new)
  moreover have "remote_is_client Q E i d ((srv y)\<lparr>submit_count := submit_count (srv y) + 1\<rparr>) = Inr s'"
    using assms(2) by (simp add: handle_msg_def)
  ultimately show ?thesis using new_client_delivers [OF R(1,3) _ new(2) _ new(3)] by blast
qed

lemma task_output_delivers:
  assumes "relaying y i (TaskOutput ot content)"
    and "handle_msg Q bytes_add E i (TaskOutput ot content) (srv y) = Inr s'"
  shows "delivers items ((said y)(i := said y i @ [TaskOutput ot content])) s'"
proof -
  let ?s = "(srv y)\<lparr>total_bytes := bytes_add (total_bytes (srv y)) (length content),
    bytes_this_period := bytes_add (bytes_this_period (srv y)) (length content)\<rparr>"
  note R = relayingD [OF assms(1)]
  have s: "inv ?s" "is_busy ?s i" "is_busy (srv y) i" "send_to_paired_remote i (TaskOutput ot content) ?s = Inr s'"
    using R(1,8) assms(2) by (simp_all add: handle_msg_def server_inv_def conforms_def is_busy_def)
  obtain c where W: "at_work items (said y) (srv y) i c" by (rule relaying_works [OF assms(1) s(3)])
  obtain c' where "works_for (remotes ?s ! i) = Some c'" "task_queue s' = task_queue ?s"
      "sent_to c' (TaskOutput ot content) (remotes ?s) (remotes s')"
    by (rule send_to_paired_remote_returns [OF s(1,2,4)])
  then show ?thesis using at_workD(7) [OF W] by (intro output_delivers [OF W]) simp_all
qed

lemma task_done_delivers:
  assumes "relaying y i (TaskDone code t run_time send_time)" (is "relaying y i ?msg")
    and "handle_msg Q bytes_add E i (TaskDone code t run_time send_time) (srv y) = Inr s'"
  shows "delivers items ((said y)(i := said y i @ [TaskDone code t run_time send_time])) s'"
proof -
  let ?s = "if code = Some 0 then record_elapsed (at_record E) t run_time (srv y) else srv y"
  note R = relayingD [OF assms(1)]
  have b: "is_busy (srv y) i" using R(8) by (simp add: conforms_def)
  obtain c where W: "at_work items (said y) (srv y) i c" by (rule relaying_works [OF assms(1) b])
  have same: "remotes ?s = remotes (srv y)" "task_queue ?s = task_queue (srv y)"
    by (simp_all add: record_elapsed_def)
  have s: "inv ?s" "is_busy ?s i" "at_work items (said y) ?s i c"
  proof -
    show "inv ?s" using R(1) by (simp add: record_elapsed_def server_inv_def)
    show "is_busy ?s i" using b same(1) by (simp only: is_busy_def)
    show "at_work items (said y) ?s i c" using W unfolding at_work_same [OF same] .
  qed
  obtain s1 s2 where 1: "send_to_paired_remote i ?msg ?s = Inr s1"
      "exec_is_ready Q E i (s1\<lparr>finish_count := finish_count s1 + 1\<rparr>) = Inr s2"
      "remotes s' = remotes s2" "task_queue s' = task_queue s2"
    using assms(2) by (auto simp: handle_msg_def and_then_eq_Inr Let_def)
  have "delivers items ((said y)(i := said y i @ [?msg])) s2"
    by (rule report_delivers [OF s(1,3) _ 1(1) s(2) 1(2)]) simp
  then show ?thesis using delivers_same [OF 1(3,4)] by simp
qed

lemma handle_msg_delivers:
  assumes I: "inv (srv y)" "system_agrees y" "sched_ok (sched_of items (srv y))" "delivers items (said y) (srv y)"
    and h: "honest y (Inbound E i msg)" and m: "handle_msg Q bytes_add E i msg (srv y) = Inr s'"
  shows "delivers items ((said y)(i := said y i @ [msg])) s'"
proof -
  have R: "relaying y i msg"
    using I h agrees_conforms [OF I(2) h] by (simp add: relaying_def honest_def may_say_def)
  note D = relayingD [OF R]
  show ?thesis
  proof (cases msg)
    case (TaskFailed e)
    then have b: "is_busy (srv y) i" using D(8) by (simp add: conforms_def)
    obtain c where W: "at_work items (said y) (srv y) i c" by (rule relaying_works [OF R b])
    show ?thesis
      using m TaskFailed report_delivers [OF I(1) W _ _ b, of msg] by (auto simp: handle_msg_def and_then_eq_Inr)
  next
    case Dropped
    then show ?thesis using m dropped_delivers [OF I D(5,6)] by (simp add: handle_msg_def)
  qed (use R m D(8) hello_delivers task_delivers task_output_delivers task_done_delivers in
      \<open>auto simp: conforms_def\<close>)
qed

lemma accept_delivers:
  assumes "delivers items sd s"
  shows "delivers items sd (fst (add_remote s))"
proof -
  let ?n = "length (remotes s)" and ?t = "fst (add_remote s)"
  have old: "remotes ?t ! j = remotes s ! j" if "j < ?n" for j
    using that by (simp add: add_remote_def nth_append)
  have new: "conn_type (remotes ?t ! ?n) = Pending" "chan_sent (send_chan (remotes ?t ! ?n)) = []"
    by (simp_all add: add_remote_def)
  have len: "length (remotes ?t) = Suc ?n" "task_queue ?t = task_queue s"
    by (simp_all add: add_remote_def)
  show ?thesis
  proof (rule delivers_step [OF assms])
    fix c assume "c < length (remotes ?t)" "is_client (remotes ?t ! c)"
    then have "c < ?n" using new(1) len by (auto simp: is_client_def less_Suc_eq)
    then have "untouched items sd s sd ?t c"
      using \<open>is_client (remotes ?t ! c)\<close> by (simp add: untouched_def old len)
    then show "delivery items sd ?t c \<or> untouched items sd s sd ?t c" ..
  qed (use len new old deliversD(2-4) [OF assms] in
      \<open>auto simp: unconcerned_def less_Suc_eq is_idle_exec_def pending_def\<close>)
qed

lemma hang_up_delivers:
  assumes "delivers items sd s"
  shows "delivers items sd (hang_up i s)"
proof -
  let ?t = "hang_up i s"
  have len: "length (remotes ?t) = length (remotes s)" "task_queue ?t = task_queue s"
    by (simp_all add: hang_up_def set_remote_def)
  have keep: "conn_type (remotes ?t ! j) = conn_type (remotes s ! j)"
      "paired_id (remotes ?t ! j) = paired_id (remotes s ! j)"
      "chan_sent (send_chan (remotes ?t ! j)) = chan_sent (send_chan (remotes s ! j))"
    if "j < length (remotes s)" for j
    using that by (simp_all add: hang_up_def set_remote_def nth_list_update)
  show ?thesis
  proof (rule delivers_step [OF assms])
    fix c assume "c < length (remotes ?t)" "is_client (remotes ?t ! c)"
    then have "untouched items sd s sd ?t c"
      using len keep by (simp add: untouched_def is_client_def works_for_def task_msgs_def)
    then show "delivery items sd ?t c \<or> untouched items sd s sd ?t c" ..
  qed (use len keep deliversD(2-4) [OF assms] in
      \<open>auto simp: unconcerned_def task_msgs_def is_idle_exec_def pending_def\<close>)
qed

lemma system_event_delivers:
  assumes I: "inv (srv y)" "system_agrees y" "sched_ok (sched_of items (srv y))" "delivers items (said y) (srv y)"
    and h: "honest y ev" and ev: "system_event Q bytes_add ev y = Inr y'"
  shows "delivers items (said y') (srv y')"
proof (cases ev)
  case Accept
  then show ?thesis using ev accept_delivers [OF I(4)] by (auto simp: system_event_def on_event_def)
next
  case (Inbound E i msg)
  obtain s1 where s1: "handle_msg Q bytes_add E i msg (srv y) = Inr s1"
      "y' = \<lparr>srv = activity_occurred (at_activity E) s1, said = (said y)(i := said y i @ [msg])\<rparr>"
    using ev by (auto simp: Inbound system_event_def on_event_def and_then_eq_Inr)
  have "delivers items (said y') s1"
    using handle_msg_delivers [OF I h [unfolded Inbound] s1(1)] by (simp add: s1(2))
  then show ?thesis using delivers_same [of "srv y'" s1] by (simp add: s1(2) activity_occurred_def)
next
  case (Watchdog E)
  obtain s1 where s1: "update Q (spawns E) (at_check E) (srv y) = Inr s1"
      "y' = y\<lparr>srv := s1\<lparr>bytes_this_period := 0\<rparr>\<rparr>"
    using ev by (auto simp: Watchdog system_event_def on_event_def and_then_eq_Inr)
  have "delivers items (said y) s1" using update_delivers [OF I(1) s1(1)] I(3,4) by blast
  then show ?thesis using delivers_same [of "srv y'" s1] by (simp add: s1(2))
next
  case (Hangup i)
  then show ?thesis using ev hang_up_delivers [OF I(4)] by (auto simp: system_event_def on_event_def)
qed

lemma start_delivers: "remotes s0 = [] \<Longrightarrow> delivers items (said (system_start s0)) s0"
  by (simp add: delivers_def)

lemma system_delivers:
  assumes "(system_step Q bytes_add)\<^sup>*\<^sup>* (system_start s0) y" and "fresh Q s0"
  shows "delivers items (said y) (srv y)"
  using assms(1)
proof (induction rule: rtranclp_induct)
  case base
  show ?case using assms(2) start_delivers by (simp add: fresh_def system_start_def)
next
  case (step y y')
  have y: "inv (srv y)" "system_agrees y" using system_reached [OF step.hyps(1) assms(2)] by simp_all
  have s0: "inv s0 \<and> system_agrees (system_start s0)"
    using fresh_inv [OF assms(2)] agrees_start [of s0] assms(2) by (simp add: fresh_def)
  have "(server_step Q bytes_add)\<^sup>*\<^sup>* s0 (srv y)"
    using sys.refines(2) [OF step.hyps(1)] s0 by (simp add: system_start_def)
  then have "sched_ok (sched_of items (srv y))"
    by (rule sched.transfers [OF _ fresh_inv [OF assms(2)] fresh_sched [OF assms(2)]])
  then show ?case
    using step.hyps(2) system_event_delivers [OF y _ step.IH] by (auto simp: system_step_def)
qed

end

section \<open>The property\<close>

text \<open>
  C5: What a client is answered is the report on its own task.  When remotes keep to their side
  and a client that is still connected has been sent a final message, then there are an
  executor and a number \<open>k\<close> such that the \<open>k\<close>-th task this executor was given is the one the
  client submitted, and all that the client was ever sent is the \<open>k\<close>-th report of this executor,
  unchanged, complete and in order; or the executor was lost, and it is what the executor had
  reported until then followed by the notice of the loss.
\<close>

theorem client_gets_the_report_on_its_task:
  assumes "priority_queue Q items q_ok"
    and "server_new Q cfg hist now port key cpus alt both verb = Inr s0"
    and "(system_step Q bytes_add)\<^sup>*\<^sup>* (system_start s0) y"
    and "c < length (remotes (srv y))" and "conn_type (remotes (srv y) ! c) = Client"
    and "finals_in (received (srv y) c) \<noteq> 0"
  shows "\<exists>e k a u d. hd (said y c) = Task a u d \<and> e < length (remotes (srv y)) \<and>
     k < length (task_msgs (remotes (srv y) ! e)) \<and> task_msgs (remotes (srv y) ! e) ! k = Task 0 0 d \<and>
     (k < length (reports (said y e)) \<and> received (srv y) c = reports (said y e) ! k \<or>
      Dropped \<in> set (said y e) \<and>
      received (srv y) c = current (said y e) @ [TaskFailed ''exec dropped connection''])"
proof -
  have "delivery items (said y) (srv y) c"
    using deliversD(1) [OF server_queue.system_delivers [OF server_queue.intro [OF assms(1)] assms(3)
        server_new_fresh [OF assms(2)]] assms(4)] assms(5) by (simp add: is_client_def)
  then obtain d e k where "submitted (said y) c d" "reported (said y) (srv y) c d e k"
    using assms(6) by (auto elim!: delivery_cases simp: waits_def in_work_def received_def)
  then show ?thesis unfolding submitted_def reported_def received_def by blast
qed

definition demo_talk :: "event list" where
  "demo_talk = demo_busy @ [Inbound demo_env 0 (TaskOutput Stdout [104, 105]), demo_finish]"

definition demo_answered :: "(task_item \<times> duration) list system" where
  "demo_answered = the (run_system demo_queue (+) demo_talk (system_start demo_start))"

lemma demo_answered_run:
  "run_system demo_queue (+) demo_talk (system_start demo_start) = Some demo_answered"
  by (simp add: demo_answered_def demo_talk_def demo_finish_def demo_defs server_simps system_simps wf_task_def
      send_to_paired_remote_def record_elapsed_def history_update_def)

lemma demo_answered_eq:
  "remotes (srv demo_answered) ! 1 = \<lparr>conn_type = Client, send_chan = \<lparr>chan_sent =
     [TaskOutput Stdout [104, 105], TaskDone (Some 0) ''a.o'' 9 2], chan_open = True\<rparr>, paired_id = Some 0\<rparr>"
  "length (remotes (srv demo_answered)) = 2"
  by (simp_all add: demo_answered_def demo_talk_def demo_finish_def demo_defs server_simps system_simps wf_task_def
      send_to_paired_remote_def record_elapsed_def history_update_def)

theorem client_gets_the_report_on_its_task_witness:
  "\<exists>e k a u d. hd (said demo_answered 1) = Task a u d \<and> e < 2 \<and>
     task_msgs (remotes (srv demo_answered) ! e) ! k = Task 0 0 d \<and>
     (k < length (reports (said demo_answered e)) \<and>
        [TaskOutput Stdout [104, 105], TaskDone (Some 0) ''a.o'' 9 2] = reports (said demo_answered e) ! k \<or>
      Dropped \<in> set (said demo_answered e))"
  using client_gets_the_report_on_its_task [OF demo_priority_queue demo_new_start
      run_system_steps [OF demo_answered_run], of 1]
  by (simp add: received_def demo_answered_eq [unfolded One_nat_def]) blast

end
