(* ===== verification/Spray_Client.thy ===== *)
theory Spray_Client
  imports Ipc Config
begin

text \<open>
  The client (\<open>src/src/client.rs\<close>): interpreting the command line of a compiler, submitting the
  task, and writing the returned output where the compiler would have written it.

  Looking up commands, running a local process, the environment and the attempts to connect
  are arguments.  Output files are byte sequences by name; a file that was opened is a name
  and a position, so that two handles on one name interfere as they do on a real system.
  Writing to an open file or stream succeeds; what was written before a failure is not
  reported by a computation that fails.
\<close>

section \<open>Command lines\<close>

definition EXCLUDED_ENV_VARS :: "string list" where
  "EXCLUDED_ENV_VARS = [''PWD'', ''USERNAME'', ''USER'']"

definition gnu_arg :: "string list \<Rightarrow> bool \<times> bool \<times> u16 list \<Rightarrow> nat \<Rightarrow> bool \<times> bool \<times> u16 list" where
  "gnu_arg args st idx =
     (case st of (keep_local, prio, output_idxs) \<Rightarrow>
        let arg = args ! idx
        in if arg = ''-c'' \<or> arg = ''-s'' \<or> arg = ''-e'' \<or> arg = ''-MD'' then (False, prio, output_idxs)
           else if idx < length args - 1 \<and> (arg = ''-o'' \<or> arg = ''-MF'') then
             (keep_local, prio, output_idxs @ [word_of_nat (idx + 1)])
           else if arg = ''-M'' \<or> arg = ''-MM'' then (False, True, output_idxs)
           else (keep_local, prio, output_idxs))"

text \<open>Whether to run locally, whether the task is urgent, and the arguments that name outputs.\<close>

definition handle_gnu :: "string list \<Rightarrow> bool \<times> bool \<times> u16 list" where
  "handle_gnu args = foldl (gnu_arg args) (True, False, []) [1..<length args]"

definition task_env :: "(string \<times> string) list \<Rightarrow> (string, string) mapping" where
  "task_env vars =
     foldl (\<lambda>m (k, v). Mapping.update k v m) Mapping.empty
       (filter (\<lambda>v. fst v \<notin> set EXCLUDED_ENV_VARS) vars)"

definition interpret_command_line ::
  "(string \<Rightarrow> string option) \<Rightarrow> (string \<times> string) list \<Rightarrow> string option \<Rightarrow> string list \<Rightarrow>
     (bool \<times> task_details) outcome" where
  "interpret_command_line which vars current_dir args =
     and_then (index args 0) (\<lambda>arg0.
       case which arg0 of
         None \<Rightarrow> Inl (Err (''Command '' @ arg0 @ '' not found''))
       | Some cmd \<Rightarrow>
           (case file_name cmd of
              None \<Rightarrow> Inl (Panic ''called Option::unwrap() on a None value'')
            | Some cmd_name \<Rightarrow>
                let (keep_local, prio, outs) =
                      (if cmd_name = ''gcc'' \<or> cmd_name = ''g++'' \<or> cmd_name = ''clang'' then handle_gnu args
                       else (False, False, []))
                in case current_dir of
                     None \<Rightarrow> Inl (Err ''Unable to get current working directory'')
                   | Some cwd \<Rightarrow>
                       Inr (keep_local,
                         \<lparr>working_dir = cwd, td_cmd = cmd, td_args = args, output_args = outs,
                          td_env = task_env vars, priority_task = prio\<rparr>)))"

section \<open>Output files\<close>

record client_io =
  out_files :: "string \<rightharpoonup> u8 list"
  can_create :: "string \<Rightarrow> bool"
  stdout_bytes :: "u8 list"
  stderr_bytes :: "u8 list"

datatype lazy_file = FileName string | OpenFile string nat | NoFile

definition write_at :: "nat \<Rightarrow> u8 list \<Rightarrow> u8 list \<Rightarrow> u8 list" where
  "write_at pos data old =
     take pos old @ replicate (pos - length old) 0 @ data @ drop (pos + length data) old"

text \<open>\<open>as_file\<close>: a file that is not yet open is created, empty.\<close>

definition as_file :: "lazy_file \<Rightarrow> client_io \<Rightarrow> (string \<times> nat \<times> client_io) outcome" where
  "as_file f io =
     (case f of
        FileName name \<Rightarrow>
          if can_create io name then Inr (name, 0, io\<lparr>out_files := (out_files io)(name \<mapsto> [])\<rparr>)
          else Inl (Err ''cannot create file'')
      | OpenFile name pos \<Rightarrow> Inr (name, pos, io)
      | NoFile \<Rightarrow> Inl (Panic ''Attempt to use a shutdown file''))"

definition lazy_shutdown :: "lazy_file \<Rightarrow> lazy_file" where
  "lazy_shutdown f = (case f of OpenFile _ _ \<Rightarrow> NoFile | _ \<Rightarrow> f)"

definition make_output_files :: "task_details \<Rightarrow> lazy_file list outcome" where
  "make_output_files d =
     and_then (map_outcome (arg_at d) (output_args d)) (\<lambda>names. Inr (map FileName names))"

definition write_output ::
  "lazy_file list \<Rightarrow> output_type \<Rightarrow> u8 list \<Rightarrow> client_io \<Rightarrow> (lazy_file list \<times> client_io) outcome" where
  "write_output fs ot content io =
     (case ot of
        Stdout \<Rightarrow> Inr (fs, io\<lparr>stdout_bytes := stdout_bytes io @ content\<rparr>)
      | Stderr \<Rightarrow> Inr (fs, io\<lparr>stderr_bytes := stderr_bytes io @ content\<rparr>)
      | File idx \<Rightarrow>
          and_then (index fs idx) (\<lambda>f.
          and_then (as_file f io) (\<lambda>(name, pos, io).
            Inr (fs[idx := OpenFile name (pos + length content)],
                 io\<lparr>out_files := (out_files io)(name \<mapsto>
                      write_at pos content (case out_files io name of None \<Rightarrow> [] | Some b \<Rightarrow> b))\<rparr>))))"

section \<open>Waiting for the result\<close>

text \<open>The status is \<open>Some\<close> when the task has finished.\<close>

definition client_handle_msg ::
  "lazy_file list \<Rightarrow> message \<Rightarrow> client_io \<Rightarrow> (int option \<times> lazy_file list \<times> client_io) outcome" where
  "client_handle_msg fs msg io =
     (case msg of
        TaskOutput ot content \<Rightarrow>
          and_then (write_output fs ot content io) (\<lambda>(fs, io). Inr (None, fs, io))
      | TaskFailed _ \<Rightarrow> Inr (Some (-1), fs, io)
      | TaskDone exit_code _ _ _ \<Rightarrow> Inr (exit_code, fs, io)
      | _ \<Rightarrow> Inl (Panic ''Unhandled message''))"

function client_wait ::
  "(u8 list \<Rightarrow> message option) \<Rightarrow> connection \<Rightarrow> lazy_file list \<Rightarrow> client_io \<Rightarrow>
     (int option \<times> lazy_file list \<times> client_io) outcome" where
  "client_wait deser c fs io =
     (case read_message deser c of
        Inl e \<Rightarrow> Inl e
      | Inr (None, _) \<Rightarrow> Inr (None, fs, io)
      | Inr (Some msg, c') \<Rightarrow>
          (case client_handle_msg fs msg io of
             Inl e \<Rightarrow> Inl e
           | Inr (Some code, fs', io') \<Rightarrow> Inr (Some code, fs', io')
           | Inr (None, fs', io') \<Rightarrow> client_wait deser c' fs' io'))"
  by pat_completeness auto
termination
  by (relation "measure (\<lambda>(_, c, _). length (unread c))") (auto dest: read_message_consumes)

declare client_wait.simps [simp del]

section \<open>Connecting and running\<close>

definition backoff_millis :: "u64 \<Rightarrow> nat" where
  "backoff_millis rnd = unat (rnd mod 2048 + 512)"

text \<open>
  Each attempt to connect gives a stream or an error, and comes with the random number of the
  pause that follows if it fails.  The result is the stream and the pauses made.
\<close>

fun connect_w_retry :: "((string + 's) \<times> u64) list \<Rightarrow> nat \<Rightarrow> 's outcome \<times> nat list" where
  "connect_w_retry [] count = (Inl NotDone, [])"
| "connect_w_retry ((Inr stream, _) # rs) count = (Inr stream, [])"
| "connect_w_retry ((Inl err, rnd) # rs) count =
     (if count < 5 then
        (case connect_w_retry rs (count + 1) of (res, ms) \<Rightarrow> (res, backoff_millis rnd # ms))
      else (Inl (Err err), []))"

text \<open>A local process: it does not start, cannot be waited for, or ends, possibly by a signal.\<close>

datatype proc_result = SpawnFailed | WaitFailed | Exited "int option"

definition run_local_task ::
  "(string \<Rightarrow> string option) \<Rightarrow> (string \<Rightarrow> string list \<Rightarrow> string \<Rightarrow> proc_result) \<Rightarrow> task_details \<Rightarrow>
     int option outcome" where
  "run_local_task which spawn d =
     (case which (td_cmd d) of
        Some cmd_path \<Rightarrow>
          if td_args d = [] then Inl (Panic ''range start index 1 out of range'')
          else
            (case spawn cmd_path (tl (td_args d)) (working_dir d) of
               SpawnFailed \<Rightarrow> Inl (Panic (''Failed to start process '' @ cmd_path))
             | WaitFailed \<Rightarrow> Inr None
             | Exited code \<Rightarrow> Inr code)
      | None \<Rightarrow> Inl (Panic (''Command '' @ td_cmd d @ '' does not exit'')))"

text \<open>The output files are closed from the last to the first.\<close>

definition close_files :: "lazy_file list \<Rightarrow> lazy_file list" where
  "close_files fs = map lazy_shutdown (rev fs)"

text \<open>
  The environment of the client: the command search path, local processes, environment
  variables and directory, the parsers of its files, the attempts to connect with the stream
  of what the server will send, and the codec.
\<close>

record client_env =
  env_which :: "string \<Rightarrow> string option"
  env_spawn :: "string \<Rightarrow> string list \<Rightarrow> string \<Rightarrow> proc_result"
  env_vars :: "(string \<times> string) list"
  env_dir :: "string option"
  env_path :: "string list"
  env_home_dir :: "string option"
  key_of_toml :: "string \<Rightarrow> user_private_key option"
  contact_of_toml :: "string \<Rightarrow> call_me option"
  env_connect :: "string \<Rightarrow> ((string + read_res list \<times> out_stream) \<times> u64) list"
  ser_msg :: "message \<Rightarrow> u8 list option"
  deser_msg :: "u8 list \<Rightarrow> message option"

text \<open>The conversation with the server over an open stream; \<open>status.expect\<close> comes last.\<close>

definition submit_and_wait ::
  "client_env \<Rightarrow> call_me \<Rightarrow> u64 \<Rightarrow> task_details \<Rightarrow> read_res list \<Rightarrow> out_stream \<Rightarrow> client_io \<Rightarrow>
     (int option \<times> lazy_file list \<times> out_stream \<times> client_io) outcome" where
  "submit_and_wait R callme key d st w io =
     and_then (make_output_files d) (\<lambda>fs.
     and_then (write_message (ser_msg R) w (Task (access_code callme) key d)) (\<lambda>w.
     and_then (client_wait (deser_msg R) (new_connection st) fs io) (\<lambda>(status, fs, io).
       Inr (status, close_files fs, w, io))))"

definition client_run ::
  "client_env \<Rightarrow> text_fs \<Rightarrow> client_io \<Rightarrow> string list \<Rightarrow> (int \<times> client_io) outcome" where
  "client_run R fs io args =
     (case interpret_command_line (env_which R) (env_vars R) (env_dir R) args of
        Inl (Err e) \<Rightarrow> Inl (Panic (''Error interpreting command line: '' @ e))
      | Inl f \<Rightarrow> Inl f
      | Inr (run_local, d) \<Rightarrow>
          let key = fst (load_user_private_key (key_of_toml R) (\<lambda>_. []) False 0 False (env_home_dir R) fs)
          in and_then
               (if run_local then
                  and_then (run_local_task (env_which R) (env_spawn R) d) (\<lambda>status. Inr (status, io))
                else
                  (case read_server_contact_info_from (contact_of_toml R) fs (env_path R) of
                     None \<Rightarrow> Inl (Panic ''No server configuration found'')
                   | Some callme \<Rightarrow>
                       (case fst (connect_w_retry (env_connect R (addr callme)) 0) of
                          Inl (Err _) \<Rightarrow> Inr (Some (-1), io)
                        | Inl f \<Rightarrow> Inl f
                        | Inr (st, w) \<Rightarrow>
                            and_then (submit_and_wait R callme key d st w io)
                              (\<lambda>(status, _, _, io). Inr (status, io)))))
               (\<lambda>(status, io).
                  case status of
                    None \<Rightarrow> Inl (Panic ''No task status as set'')
                  | Some code \<Rightarrow> Inr (code, io)))"

section \<open>Properties of the command line\<close>

lemma gnu_fold:
  "foldl (gnu_arg args) (keep, prio, outs) is =
     (keep \<and> \<not> (\<exists>i \<in> set is. args ! i \<in> {''-c'', ''-s'', ''-e'', ''-MD'', ''-M'', ''-MM''}),
      prio \<or> (\<exists>i \<in> set is. args ! i \<in> {''-M'', ''-MM''}),
      outs @ map (\<lambda>i. word_of_nat (i + 1))
        (filter (\<lambda>i. i + 1 < length args \<and> args ! i \<in> {''-o'', ''-MF''}) is))"
proof (induction "is" arbitrary: keep prio outs)
  case (Cons i "is")
  have "gnu_arg args (keep, prio, outs) i =
    (keep \<and> args ! i \<notin> {''-c'', ''-s'', ''-e'', ''-MD'', ''-M'', ''-MM''},
     prio \<or> args ! i \<in> {''-M'', ''-MM''},
     outs @ (if i + 1 < length args \<and> args ! i \<in> {''-o'', ''-MF''} then [word_of_nat (i + 1)] else []))"
    by (auto simp: gnu_arg_def Let_def)
  then show ?case by (simp only: foldl_Cons Cons.IH) auto
qed simp

text \<open>
  C35: A compiler command line is kept local exactly if none of its arguments asks for a
  compilation or for dependencies; it is urgent exactly if it only generates dependencies;
  and its outputs are the arguments that follow \<open>-o\<close> or \<open>-MF\<close>, in order, with their positions
  cut to 16 bits.
\<close>

theorem handle_gnu_spec:
  "handle_gnu args =
     (\<not> (\<exists>i \<in> {1..<length args}. args ! i \<in> {''-c'', ''-s'', ''-e'', ''-MD'', ''-M'', ''-MM''}),
      \<exists>i \<in> {1..<length args}. args ! i \<in> {''-M'', ''-MM''},
      map (\<lambda>i. word_of_nat (i + 1))
        (filter (\<lambda>i. i + 1 < length args \<and> args ! i \<in> {''-o'', ''-MF''}) [1..<length args]))"
  by (simp add: handle_gnu_def gnu_fold)

theorem handle_gnu_spec_witness:
  "handle_gnu [''g++'', ''t.cpp'', ''-c'', ''-o'', ''t.o''] = (False, False, [4])"
  unfolding handle_gnu_spec by (simp add: upt_rec atLeastLessThanSuc)

lemma interpret_wf:
  assumes "interpret_command_line which vars cwd args = Inr (local, d)" and "length args \<le> 65536"
  shows "td_args d = args" "wf_task d"
proof -
  have d: "td_args d = args" "output_args d = [] \<or> output_args d = snd (snd (handle_gnu args))"
    using assms(1)
    by (auto simp: interpret_command_line_def and_then_eq_Inr Let_def
        split: option.splits if_splits prod.splits)
  have small: "unat (word_of_nat k :: u16) < length args" if "k < length args" for k
    using that assms(2) by (simp add: unat_of_nat take_bit_nat_eq_self)
  then show "wf_task d"
    using d
    by (auto simp: wf_task_def list_all_iff handle_gnu_def gnu_fold simp del: of_nat_Suc of_nat_add)
  show "td_args d = args" by (rule d(1))
qed

text \<open>The names under which the client expects the outputs of a task.\<close>

definition output_names :: "task_details \<Rightarrow> string list" where
  "output_names d = map (\<lambda>i. td_args d ! unat i) (output_args d)"

lemma make_output_files_wf: "wf_task d \<Longrightarrow> make_output_files d = Inr (map FileName (output_names d))"
  by (simp add: make_output_files_def output_names_def arg_at_wf map_outcome_total
      [where g = "\<lambda>i. td_args d ! unat i"])

text \<open>
  C36: The task built from a command line of at most 65536 arguments names its outputs within
  its arguments, so that neither the client nor the server nor the executor panics on an
  index: its target can be computed, and the client prepares one file per output, under the
  name given on the command line.
\<close>

theorem client_task_well_formed:
  assumes "interpret_command_line which vars cwd args = Inr (local, d)" and "length args \<le> 65536"
  shows "td_args d = args \<and> wf_task d \<and> returns (get_target_id d) \<and>
     make_output_files d = Inr (map (\<lambda>i. FileName (args ! unat i)) (output_args d))"
  using interpret_wf [OF assms] get_target_id_wf [of d] make_output_files_wf [of d]
  by (simp add: output_names_def)

theorem client_task_well_formed_witness:
  "\<exists>d. interpret_command_line (\<lambda>c. Some (''/usr/bin/'' @ c)) [] (Some ''/w'') [''gcc'', ''-c'', ''-o'', ''a.o''] =
     Inr (False, d) \<and> wf_task d \<and> returns (get_target_id d)"
proof -
  obtain d where "interpret_command_line (\<lambda>c. Some (''/usr/bin/'' @ c)) [] (Some ''/w'')
      [''gcc'', ''-c'', ''-o'', ''a.o''] = Inr (False, d)"
    by (simp add: interpret_command_line_def index_def file_name_def path_parts_def handle_gnu_def
        gnu_arg_def Let_def upt_rec)
  with client_task_well_formed [OF this] show ?thesis by simp
qed

text \<open>
  Beyond that length the position of an output wraps around: with \<open>-o\<close> as argument 65535 the
  client takes the name of the compiler itself for an output file.
\<close>

theorem long_command_line_wraps:
  assumes "65536 < length args" and "args ! 65535 = ''-o''"
  shows "0 \<in> set (snd (snd (handle_gnu args)))"
proof -
  have "65535 \<in> set (filter (\<lambda>i. i + 1 < length args \<and> args ! i \<in> {''-o'', ''-MF''}) [1..<length args])"
    using assms by simp
  then have "(word_of_nat (65535 + 1) :: u16) \<in> set (snd (snd (handle_gnu args)))"
    unfolding handle_gnu_def gnu_fold by (simp only: snd_conv append_Nil set_map) (rule imageI)
  moreover have "(word_of_nat (65535 + 1) :: u16) = 0" unfolding word_of_nat_eq_0_iff by simp
  ultimately show ?thesis by (simp only:)
qed

theorem long_command_line_wraps_witness:
  "0 \<in> set (snd (snd (handle_gnu (''gcc'' # replicate 65534 ''x'' @ [''-o'', ''a.o'']))))"
  by (rule long_command_line_wraps) (simp_all add: nth_append nth_Cons')

section \<open>What the client writes\<close>

text \<open>
  The files and streams after the outputs \<open>outs\<close> were handled: every destination holds its
  content, and a file for which nothing was sent has not been created or changed.
\<close>

definition delivered ::
  "string list \<Rightarrow> client_io \<Rightarrow> (output_type \<times> u8 list) list \<Rightarrow> client_io \<Rightarrow> bool" where
  "delivered names io0 outs io \<longleftrightarrow>
     (\<forall>i < length names. out_files io (names ! i) =
        (if File i \<in> fst ` set outs then Some (chunks (File i) outs) else out_files io0 (names ! i))) \<and>
     (\<forall>n. n \<notin> set names \<longrightarrow> out_files io n = out_files io0 n) \<and>
     stdout_bytes io = stdout_bytes io0 @ chunks Stdout outs \<and>
     stderr_bytes io = stderr_bytes io0 @ chunks Stderr outs"

definition handles :: "string list \<Rightarrow> (output_type \<times> u8 list) list \<Rightarrow> lazy_file list" where
  "handles names outs =
     map (\<lambda>i. if File i \<in> fst ` set outs then OpenFile (names ! i) (length (chunks (File i) outs))
              else FileName (names ! i)) [0..<length names]"

definition out_ok :: "string list \<Rightarrow> client_io \<Rightarrow> output_type \<times> u8 list \<Rightarrow> bool" where
  "out_ok names io oc \<longleftrightarrow>
     (case fst oc of File i \<Rightarrow> i < length names \<and> can_create io (names ! i) | _ \<Rightarrow> True)"

lemma handles_nth: "i < length names \<Longrightarrow> handles names outs ! i =
    (if File i \<in> fst ` set outs then OpenFile (names ! i) (length (chunks (File i) outs))
     else FileName (names ! i))"
  by (simp add: handles_def)

lemma length_handles [simp]: "length (handles names outs) = length names"
  by (simp add: handles_def)

lemma handles_start: "map FileName names = handles names []"
  by (simp add: list_eq_iff_nth_eq handles_nth)

lemma write_at_end: "write_at (length old) data old = old @ data"
  by (simp add: write_at_def)

lemma handles_file:
  assumes "i < length names"
  shows "(handles names outs)[i := OpenFile (names ! i) (length (chunks (File i) outs) + length c)] =
     handles names (outs @ [(File i, c)])"
  using assms by (auto simp: list_eq_iff_nth_eq handles_nth nth_list_update)

lemma handles_stream: "t = Stdout \<or> t = Stderr \<Longrightarrow> handles names (outs @ [(t, c)]) = handles names outs"
  by (auto simp: handles_def)

lemma write_output_delivers:
  assumes "delivered names io0 outs io" and "can_create io = can_create io0" and "distinct names"
    and "out_ok names io0 (ot, c)"
  shows "\<exists>io'. write_output (handles names outs) ot c io = Inr (handles names (outs @ [(ot, c)]), io') \<and>
     delivered names io0 (outs @ [(ot, c)]) io' \<and> can_create io' = can_create io0"
proof (cases ot)
  case (File i)
  then have i: "i < length names" "can_create io (names ! i)" using assms(2,4) by (simp_all add: out_ok_def)
  let ?io = "io\<lparr>out_files := (out_files io)(names ! i \<mapsto> chunks (File i) outs @ c)\<rparr>"
  have old: "out_files io (names ! i) = Some (chunks (File i) outs)" if "File i \<in> fst ` set outs"
    using assms(1) i(1) that by (simp add: delivered_def)
  have "write_output (handles names outs) ot c io = Inr (handles names (outs @ [(ot, c)]), ?io)"
    using i old handles_file [OF i(1), of outs c] chunks_none [of "File i" outs] write_at_end [of "[]"]
    by (cases "File i \<in> fst ` set outs")
      (simp_all add: File write_output_def as_file_def handles_nth write_at_end)
  moreover have "delivered names io0 (outs @ [(ot, c)]) ?io"
    using assms(1,3) i(1) File by (auto simp: delivered_def nth_eq_iff_index_eq)
  ultimately show ?thesis using assms(2) by simp
qed (use assms(1,2) in \<open>auto simp: write_output_def delivered_def handles_stream\<close>)

text \<open>Handling messages one after the other until the status is known.\<close>

fun client_consume ::
  "message list \<Rightarrow> lazy_file list \<Rightarrow> client_io \<Rightarrow> (int option \<times> lazy_file list \<times> client_io) outcome" where
  "client_consume [] fs io = Inr (None, fs, io)"
| "client_consume (m # ms) fs io =
     (case client_handle_msg fs m io of
        Inl e \<Rightarrow> Inl e
      | Inr (Some code, fs', io') \<Rightarrow> Inr (Some code, fs', io')
      | Inr (None, fs', io') \<Rightarrow> client_consume ms fs' io')"

lemma client_wait_consume:
  assumes "\<forall>m \<in> set ms. codec_ok ser deser m" and "list_all data_chunk (conn_stream c)"
    and "unread c = concat (map (frame ser) ms)"
  shows "client_wait deser c fs io = client_consume ms fs io"
  using assms
proof (induction ms arbitrary: c fs io)
  case Nil
  then obtain c' where "read_message deser c = Inr (None, c')" using read_message_end by fastforce
  then show ?case by (subst client_wait.simps) simp
next
  case (Cons m ms)
  obtain c1 where c1: "read_message deser c = Inr (Some m, c1)"
      "unread c1 = concat (map (frame ser) ms)" "list_all data_chunk (conn_stream c1)"
    using read_message_codec [of ser deser m c] Cons.prems by auto
  have IH: "client_wait deser c1 fs' io' = client_consume ms fs' io'" for fs' io'
    using Cons.IH [OF _ c1(3,2)] Cons.prems(1) by simp
  show ?case by (subst client_wait.simps) (simp add: c1(1) IH split: sum.splits option.splits)
qed

lemma client_consume_outputs:
  assumes "delivered names io0 done io" and "can_create io = can_create io0" and "distinct names"
    and "list_all (out_ok names io0) outs"
  shows "\<exists>io'. client_consume (map out_msg outs @ ms) (handles names done) io =
       client_consume ms (handles names (done @ outs)) io' \<and>
     delivered names io0 (done @ outs) io' \<and> can_create io' = can_create io0"
  using assms(1,2,4)
proof (induction outs arbitrary: "done" io)
  case (Cons oc outs)
  obtain ot c where oc: "oc = (ot, c)" by fastforce
  obtain io1 where io1: "write_output (handles names done) ot c io = Inr (handles names (done @ [(ot, c)]), io1)"
      "delivered names io0 (done @ [(ot, c)]) io1" "can_create io1 = can_create io0"
    using write_output_delivers [OF Cons.prems(1,2) assms(3)] Cons.prems(3) oc by auto
  from Cons.IH [OF io1(2,3)] Cons.prems(3) io1(1) show ?case
    by (simp add: oc out_msg_def client_handle_msg_def)
qed auto

lemma client_conversation:
  assumes "wf_task d" and "distinct (output_names d)" and "list_all (out_ok (output_names d) io) outs"
    and "\<forall>m \<in> set (map out_msg outs @ [TaskDone code t rt tt]). codec_ok ser deser m"
    and "list_all data_chunk st"
    and "stream_bytes st = concat (map (frame ser) (map out_msg outs @ [TaskDone code t rt tt]))"
  shows "\<exists>io'. client_wait deser (new_connection st) (map FileName (output_names d)) io =
     Inr (code, handles (output_names d) outs, io') \<and> delivered (output_names d) io outs io'"
proof -
  have start: "delivered (output_names d) io [] io" by (simp add: delivered_def chunks_def)
  have wait: "client_wait deser (new_connection st) (map FileName (output_names d)) io =
      client_consume (map out_msg outs @ [TaskDone code t rt tt]) (handles (output_names d) []) io"
    unfolding handles_start
    using assms(4-6) by (intro client_wait_consume) (auto simp: new_connection_def unread_def)
  obtain io' where "client_consume (map out_msg outs @ [TaskDone code t rt tt]) (handles (output_names d) []) io =
      client_consume [TaskDone code t rt tt] (handles (output_names d) outs) io'"
    "delivered (output_names d) io outs io'"
    using client_consume_outputs [OF start refl assms(2,3), of "[TaskDone code t rt tt]"] by auto
  then show ?thesis
    unfolding wait by (cases code) (auto simp: client_handle_msg_def)
qed

text \<open>
  The client submits its task once, and when the server answers with outputs and the exit
  code of the task, in whatever pieces the network delivers them, then the client ends with
  this exit code, every output file and stream holds exactly what was sent for it, files for
  which nothing was sent are neither created nor changed, and no file is left open.
\<close>

theorem client_reproduces_outputs:
  assumes "wf_task d" and "distinct (output_names d)" and "list_all (out_ok (output_names d) io) outs"
    and "\<forall>m \<in> set (map out_msg outs @ [TaskDone code t rt tt]). codec_ok (ser_msg R) (deser_msg R) m"
    and "list_all data_chunk st"
    and "stream_bytes st = concat (map (frame (ser_msg R)) (map out_msg outs @ [TaskDone code t rt tt]))"
    and "ser_msg R (Task (access_code callme) key d) = Some data" and "room w = None"
  shows "\<exists>fs w' io'. submit_and_wait R callme key d st w io = Inr (code, fs, w', io') \<and>
     delivered (output_names d) io outs io' \<and>
     written w' = written w @ frame (ser_msg R) (Task (access_code callme) key d) \<and>
     list_all (\<lambda>f. \<forall>n p. f \<noteq> OpenFile n p) fs"
proof -
  obtain io' where w: "client_wait (deser_msg R) (new_connection st) (map FileName (output_names d)) io =
      Inr (code, handles (output_names d) outs, io')" "delivered (output_names d) io outs io'"
    using client_conversation [OF assms(1-6)] by blast
  have "list_all (\<lambda>f. \<forall>n p. f \<noteq> OpenFile n p) (close_files fs)" for fs
    by (auto simp: close_files_def list_all_iff lazy_shutdown_def split: lazy_file.splits)
  then show ?thesis
    using w assms(7,8) make_output_files_wf [OF assms(1)]
    by (simp add: submit_and_wait_def write_message_bytes frame_Some)
qed

text \<open>A codec that knows one output, one end of a task and one task.\<close>

definition tiny_ser :: "message \<Rightarrow> u8 list option" where
  "tiny_ser m =
     (if m = TaskOutput (File 0) [7, 8] then Some [1]
      else if m = TaskDone None ''a.o'' 5 6 then Some [2]
      else if m = TaskDone (Some 0) ''a.o'' 5 6 then Some [3]
      else case m of Task _ _ _ \<Rightarrow> Some [4] | _ \<Rightarrow> None)"

definition tiny_deser :: "u8 list \<Rightarrow> message option" where
  "tiny_deser bs =
     (case bs of
        [] \<Rightarrow> None
      | b # _ \<Rightarrow>
          if b = 1 then Some (TaskOutput (File 0) [7, 8])
          else if b = 2 then Some (TaskDone None ''a.o'' 5 6)
          else if b = 3 then Some (TaskDone (Some 0) ''a.o'' 5 6)
          else None)"

lemma tiny_codec [simp]:
  "codec_ok tiny_ser tiny_deser (TaskOutput (File 0) [7, 8])"
  "codec_ok tiny_ser tiny_deser (TaskDone None ''a.o'' 5 6)"
  "codec_ok tiny_ser tiny_deser (TaskDone (Some 0) ''a.o'' 5 6)"
  by (simp_all add: codec_ok_def tiny_ser_def tiny_deser_def)

definition tiny_task :: task_details where
  "tiny_task = \<lparr>working_dir = ''/w'', td_cmd = ''/usr/bin/gcc'', td_args = [''gcc'', ''-c'', ''-o'', ''a.o''],
     output_args = [3], td_env = Mapping.empty, priority_task = False\<rparr>"

definition tiny_io :: client_io where
  "tiny_io = \<lparr>out_files = Map.empty, can_create = (\<lambda>_. True), stdout_bytes = [], stderr_bytes = []\<rparr>"

definition tiny_stream :: out_stream where
  "tiny_stream = \<lparr>written = [], room = None\<rparr>"

definition tiny_env :: "read_res list \<Rightarrow> client_env" where
  "tiny_env st = \<lparr>env_which = (\<lambda>c. Some (''/usr/bin/'' @ c)), env_spawn = (\<lambda>_ _ _. SpawnFailed),
     env_vars = [], env_dir = Some ''/w'', env_path = [''w''], env_home_dir = None,
     key_of_toml = (\<lambda>_. None), contact_of_toml = (\<lambda>s. Some \<lparr>addr = s, access_code = 42\<rparr>),
     env_connect = (\<lambda>_. [(Inl ''refused'', 0), (Inr (st, tiny_stream), 0)]),
     ser_msg = tiny_ser, deser_msg = tiny_deser\<rparr>"

lemmas tiny_defs = tiny_task_def tiny_io_def tiny_stream_def tiny_env_def output_names_def

theorem client_reproduces_outputs_witness:
  "\<exists>fs w' io'. submit_and_wait (tiny_env []) \<lparr>addr = [], access_code = 42\<rparr> 13 tiny_task
       [Bytes [0, 0, 0, 1, 1, 0], Bytes [0, 0, 1, 3]] tiny_stream tiny_io =
       Inr (Some 0, fs, w', io') \<and> out_files io' ''a.o'' = Some [7, 8]"
proof -
  have "\<exists>fs w' io'. submit_and_wait (tiny_env []) \<lparr>addr = [], access_code = 42\<rparr> 13 tiny_task
      [Bytes [0, 0, 0, 1, 1, 0], Bytes [0, 0, 1, 3]] tiny_stream tiny_io = Inr (Some 0, fs, w', io') \<and>
    delivered (output_names tiny_task) tiny_io [(File 0, [7, 8])] io' \<and>
    written w' = written tiny_stream @ frame (ser_msg (tiny_env []))
      (Task (access_code \<lparr>addr = [], access_code = 42\<rparr>) 13 tiny_task) \<and>
    list_all (\<lambda>f. \<forall>n p. f \<noteq> OpenFile n p) fs"
    by (rule client_reproduces_outputs [where t = "''a.o''" and rt = 5 and tt = 6 and data = "[4]"])
      (simp_all add: tiny_defs wf_task_def out_ok_def out_msg_def frame_def tiny_ser_def write_u32_def)
  then show ?thesis by (auto simp: delivered_def tiny_defs chunks_def)
qed

text \<open>
  When the task is ended by a signal, the executor reports no exit code; the client does
  not take this for the end of the task but goes on waiting, and panics when the connection
  ends.
\<close>

theorem killed_task_leaves_no_status:
  assumes "interpret_command_line (env_which R) (env_vars R) (env_dir R) args = Inr (False, d)"
    and "length args \<le> 65536" and "distinct (output_names d)"
    and "read_server_contact_info_from (contact_of_toml R) fs (env_path R) = Some callme"
    and "fst (connect_w_retry (env_connect R (addr callme)) 0) = Inr (st, w)" and "room w = None"
    and "\<forall>key. \<exists>data. ser_msg R (Task (access_code callme) key d) = Some data"
    and "list_all data_chunk st" and "stream_bytes st = frame (ser_msg R) (TaskDone None t rt tt)"
    and "codec_ok (ser_msg R) (deser_msg R) (TaskDone None t rt tt)"
  shows "client_run R fs io args = Inl (Panic ''No task status as set'')"
proof -
  let ?key = "fst (load_user_private_key (key_of_toml R) (\<lambda>_. []) False 0 False (env_home_dir R) fs)"
  have wf: "wf_task d" by (rule interpret_wf(2) [OF assms(1,2)])
  obtain data where data: "ser_msg R (Task (access_code callme) ?key d) = Some data" using assms(7) by blast
  have "\<exists>io'. client_wait (deser_msg R) (new_connection st) (map FileName (output_names d)) io =
      Inr (None, handles (output_names d) [], io') \<and> delivered (output_names d) io [] io'"
    by (rule client_conversation [OF wf assms(3) _ _ assms(8)]) (use assms(9,10) in simp_all)
  then obtain io' where "client_wait (deser_msg R) (new_connection st) (map FileName (output_names d)) io =
      Inr (None, handles (output_names d) [], io')"
    by blast
  then show ?thesis
    using assms(1,4,5,6) data
    by (simp add: client_run_def Let_def submit_and_wait_def make_output_files_wf [OF wf]
        write_message_bytes)
qed

theorem killed_task_leaves_no_status_witness:
  "client_run (tiny_env [Bytes [0, 0, 0, 1, 2]])
     \<lparr>files = [''/w/.spraycc-server'' \<mapsto> ''10.0.0.1:7''], denied = (\<lambda>_. False), modes = (\<lambda>_. 0), umask = octal 0 2 2\<rparr> tiny_io
     [''gcc'', ''-c'', ''-o'', ''a.o''] = Inl (Panic ''No task status as set'')"
  by (rule killed_task_leaves_no_status [where d = tiny_task and w = tiny_stream and
        callme = "\<lparr>addr = ''10.0.0.1:7'', access_code = 42\<rparr>" and st = "[Bytes [0, 0, 0, 1, 2]]" and
        t = "''a.o''" and rt = 5 and tt = 6])
    (simp_all add: tiny_defs interpret_command_line_def index_def file_name_def path_parts_def
      handle_gnu_def gnu_arg_def Let_def upt_rec task_env_def read_server_contact_info_from.simps
      CONNECT_FILE_def abs_path_def deserialize_contact_info_def read_file_def frame_def tiny_ser_def
      write_u32_def)

section \<open>Connecting\<close>

lemma backoff_bounds: "512 \<le> backoff_millis rnd" "backoff_millis rnd < 2560"
proof -
  have "unat (rnd mod 2048) < 2048" using unat_mod [of rnd 2048] by simp
  moreover have "unat (rnd mod 2048 + 512) = unat (rnd mod 2048) + 512"
    using calculation by (subst unat_add_lem [THEN iffD1]) simp_all
  ultimately show "512 \<le> backoff_millis rnd" "backoff_millis rnd < 2560"
    by (simp_all add: backoff_millis_def)
qed

lemma connect_fails_first:
  assumes "count \<le> 5"
  shows "connect_w_retry (map (\<lambda>(e, r). (Inl e, r)) fails @ (Inr stream, r0) # rest) count =
     (if length fails \<le> 5 - count then (Inr stream, map (backoff_millis \<circ> snd) fails)
      else (Inl (Err (fst (fails ! (5 - count)))), map (backoff_millis \<circ> snd) (take (5 - count) fails)))"
  using assms
proof (induction fails arbitrary: count)
  case (Cons f fails)
  show ?case
  proof (cases "count < 5")
    case True
    then have "connect_w_retry (map (\<lambda>(e, r). (Inl e, r)) (f # fails) @ (Inr stream, r0) # rest) count =
        (case connect_w_retry (map (\<lambda>(e, r). (Inl e, r)) fails @ (Inr stream, r0) # rest) (count + 1) of
           (res, ms) \<Rightarrow> (res, backoff_millis (snd f) # ms))"
      by (cases f) simp
    moreover have "5 - count = Suc (5 - (count + 1))" using True by simp
    ultimately show ?thesis using Cons.IH [of "count + 1"] True by simp
  next
    case False
    then show ?thesis using Cons.prems by (cases f) simp
  qed
qed simp

text \<open>
  The client tries to connect at most six times and takes the first connection it gets;
  after six failures it reports the last one.  Between attempts it pauses, at least 512 and
  less than 2560 milliseconds each time.
\<close>

theorem connect_retry_spec:
  "connect_w_retry (map (\<lambda>(e, r). (Inl e, r)) fails @ (Inr stream, r0) # rest) 0 =
     (if length fails \<le> 5 then (Inr stream, map (backoff_millis \<circ> snd) fails)
      else (Inl (Err (fst (fails ! 5))), map (backoff_millis \<circ> snd) (take 5 fails))) \<and>
   512 \<le> backoff_millis rnd \<and> backoff_millis rnd < 2560"
  using connect_fails_first [of 0 fails stream r0 rest] backoff_bounds by simp

end
