(* ===== verification/Spray_Task.thy ===== *)
theory Spray_Task
  imports Ipc
begin

text \<open>
  Starting a task on the executor's host (\<open>src/src/task.rs\<close>): the outputs named on the command
  line are redirected to distinct files of a temporary directory, and the command is started.

  The temporary directory, the existence of paths and the success of the spawn are arguments.
  The counter of \<open>generate_unique_file\<close> is an \<open>i32\<close> that starts at 1 and is at most the number
  of names already taken, so it is a natural number here.
\<close>

section \<open>Unique names\<close>

definition numbered :: "string \<Rightarrow> nat \<Rightarrow> string" where
  "numbered base idx = base @ ''.'' @ show_nat idx"

lemma numbered_inject [simp]: "numbered base i = numbered base j \<longleftrightarrow> i = j"
  by (simp add: numbered_def)

lemma finite_numbered: "finite {k. idx \<le> k \<and> numbered base k \<in> set taken}"
proof -
  have "finite (numbered base -` set taken)"
    by (rule finite_vimageI) (auto intro: injI)
  then show ?thesis by (rule rev_finite_subset) auto
qed

text \<open>
  The loop of \<open>generate_unique_file\<close>.  It ends because every round uses up one of the finitely
  many numbered names that are taken.
\<close>

function unique_loop :: "string \<Rightarrow> string list \<Rightarrow> string \<Rightarrow> nat \<Rightarrow> string" where
  "unique_loop base taken unique_name idx =
     (if unique_name \<in> set taken then unique_loop base taken (numbered base idx) (idx + 1)
      else unique_name)"
  by pat_completeness auto
termination
proof (relation "measure (\<lambda>(base, taken, u, idx). of_bool (u \<in> set taken) +
    card {k. idx \<le> k \<and> numbered base k \<in> set taken})", goal_cases)
  case (2 base taken u idx)
  let ?S = "\<lambda>i. {k. i \<le> k \<and> numbered base k \<in> set taken}"
  have "?S idx = (if numbered base idx \<in> set taken then insert idx (?S (idx + 1)) else ?S (idx + 1))"
    by (auto simp: le_Suc_eq) (metis le_antisym not_less_eq_eq)+
  then have "card (?S idx) = of_bool (numbered base idx \<in> set taken) + card (?S (idx + 1))"
    using finite_numbered [of "idx + 1" base taken] by simp
  with 2 show ?case by simp
qed simp

declare unique_loop.simps [simp del]

definition generate_unique_file :: "string \<Rightarrow> string list \<Rightarrow> string \<Rightarrow> string \<times> string list" where
  "generate_unique_file output_dir taken output_name =
     (let base_name = (case file_name output_name of None \<Rightarrow> ''unknown'' | Some n \<Rightarrow> n);
          unique_name = unique_loop base_name taken base_name 1
      in (path_join output_dir unique_name, unique_name # taken))"

section \<open>Redirecting and starting\<close>

fun redirect_loop ::
  "string \<Rightarrow> u16 list \<Rightarrow> string list \<Rightarrow> string list \<Rightarrow> string list \<Rightarrow> (string list \<times> string list) outcome" where
  "redirect_loop dir [] args taken output_files = Inr (args, output_files)"
| "redirect_loop dir (i # is) args taken output_files =
     and_then (index args (unat i)) (\<lambda>name.
       case generate_unique_file dir taken name of (path, taken') \<Rightarrow>
         redirect_loop dir is (args[unat i := path]) taken' (output_files @ [path]))"

text \<open>The new arguments, the temporary directory if one is needed, and the output files.\<close>

definition redirect_outputs ::
  "string + string \<Rightarrow> string list \<Rightarrow> u16 list \<Rightarrow> (string list \<times> string option \<times> string list) outcome" where
  "redirect_outputs tempdir args outs =
     (if outs = [] then Inr (args, None, [])
      else case tempdir of
             Inr dir \<Rightarrow>
               and_then (redirect_loop dir outs args [] []) (\<lambda>(args, fs). Inr (args, Some dir, fs))
           | Inl e \<Rightarrow> Inl (Err (''Fatal error: unable to create temporary working directory: '' @ e)))"

text \<open>The process that is started, and the files to read when it is done.\<close>

record started_task =
  proc_cmd :: string
  proc_args :: "string list"
  proc_dir :: string
  proc_env :: "(string, string) mapping"
  output_files :: "string list"
  output_dir :: "string option"

text \<open>The name of the host is \<open>None\<close> when it is not valid text.\<close>

record task_host =
  path_exists :: "string \<Rightarrow> bool"
  host_name :: "string option"
  host_tempdir :: "string + string"
  host_spawn :: "string \<Rightarrow> bool"

definition hostname :: "task_host \<Rightarrow> string" where
  "hostname H = (case host_name H of None \<Rightarrow> ''unknown'' | Some s \<Rightarrow> s)"

definition start_task ::
  "(string \<Rightarrow> bool) \<Rightarrow> string \<Rightarrow> string \<Rightarrow> string list \<Rightarrow> (string, string) mapping \<Rightarrow>
     (string \<times> string list \<times> string \<times> (string, string) mapping) outcome" where
  "start_task can_spawn dir cmd args env =
     (if args = [] then Inl (Panic ''range start index 1 out of range'')
      else if can_spawn cmd then Inr (cmd, tl args, dir, env)
      else Inl (Panic (''Failed to start process '' @ cmd)))"

definition task_start ::
  "task_host \<Rightarrow> string \<Rightarrow> string \<Rightarrow> string list \<Rightarrow> u16 list \<Rightarrow> (string, string) mapping \<Rightarrow>
     started_task outcome" where
  "task_start H cwd cmd args outs env =
     (if \<not> path_exists H cwd then
        Inl (Err (''Execution directory '' @ cwd @ '' does not exist on host '' @ hostname H))
      else if \<not> path_exists H cmd then
        Inl (Err (''Command '' @ cmd @ '' does not exist on host '' @ hostname H))
      else
        and_then (redirect_outputs (host_tempdir H) args outs) (\<lambda>(args, dir, fs).
        and_then (start_task (host_spawn H) cwd cmd args env) (\<lambda>(pcmd, pargs, pdir, penv).
          Inr \<lparr>proc_cmd = pcmd, proc_args = pargs, proc_dir = pdir, proc_env = penv,
               output_files = fs, output_dir = dir\<rparr>)))"

section \<open>Names stay apart\<close>

lemma unique_loop_fresh: "unique_loop base taken u idx \<notin> set taken"
proof (induction base taken u idx rule: unique_loop.induct)
  case (1 base taken u idx)
  then show ?case by (subst unique_loop.simps) simp
qed

lemma unique_loop_form:
  "unique_loop base taken u idx = u \<or> (\<exists>k \<ge> idx. unique_loop base taken u idx = numbered base k)"
proof (induction base taken u idx rule: unique_loop.induct)
  case (1 base taken u idx)
  then show ?case by (subst (1 2) unique_loop.simps) (auto dest: Suc_leD)
qed

lemma split_slash_no_slash: "c \<in> set (split_slash cur p) \<Longrightarrow> CHR ''/'' \<notin> set cur \<Longrightarrow> CHR ''/'' \<notin> set c"
  by (induction cur p rule: split_slash.induct) (auto split: if_splits)

lemma file_name_plain:
  assumes "file_name p = Some n"
  shows "n \<noteq> []" "CHR ''/'' \<notin> set n"
proof -
  have "n \<in> set (path_parts p)"
    using assms by (auto simp: file_name_def Let_def split: if_splits)
  then show "n \<noteq> []" "CHR ''/'' \<notin> set n"
    using split_slash_no_slash [of n "[]" p] by (auto simp: path_parts_def)
qed

lemma base_plain:
  "(case file_name p of None \<Rightarrow> ''unknown'' | Some n \<Rightarrow> n) \<noteq> []"
  "hd (case file_name p of None \<Rightarrow> ''unknown'' | Some n \<Rightarrow> n) \<noteq> CHR ''/''"
  using file_name_plain [of p] by (auto split: option.splits) (metis hd_in_set)

lemma unique_plain:
  assumes "base \<noteq> []" "hd base \<noteq> CHR ''/''"
  shows "unique_loop base taken base idx \<noteq> [] \<and> hd (unique_loop base taken base idx) \<noteq> CHR ''/''"
  using unique_loop_form [of base taken base idx] assms by (auto simp: numbered_def)

lemma path_join_inject:
  assumes "a \<noteq> []" "hd a \<noteq> CHR ''/''" "b \<noteq> []" "hd b \<noteq> CHR ''/''" "path_join dir a = path_join dir b"
  shows "a = b"
  using assms by (auto simp: path_join_def split: if_splits)

definition plain_name :: "string \<Rightarrow> bool" where
  "plain_name n \<longleftrightarrow> n \<noteq> [] \<and> hd n \<noteq> CHR ''/''"

lemma generate_unique:
  assumes "generate_unique_file dir taken name = (path, taken')"
  shows "\<exists>u. plain_name u \<and> u \<notin> set taken \<and> taken' = u # taken \<and> path = path_join dir u"
  using assms unique_plain [OF base_plain] unique_loop_fresh
  by (auto simp: generate_unique_file_def Let_def plain_name_def)

lemma redirect_loop_spec:
  assumes "\<forall>i \<in> set outs. unat i < length args" and "distinct outs"
    and "distinct taken" and "list_all plain_name taken"
  shows "\<exists>args' us. redirect_loop dir outs args taken fs = Inr (args', fs @ map (path_join dir) us) \<and>
     length us = length outs \<and> distinct (us @ taken) \<and> list_all plain_name us \<and> length args' = length args \<and>
     (\<forall>k < length outs. args' ! unat (outs ! k) = path_join dir (us ! k)) \<and>
     (\<forall>j. j \<notin> unat ` set outs \<longrightarrow> args' ! j = args ! j)"
  using assms
proof (induction outs arbitrary: args taken fs)
  case (Cons i "is")
  obtain path taken' where g: "generate_unique_file dir taken (args ! unat i) = (path, taken')" by fastforce
  from generate_unique [OF g] obtain u where
    u: "plain_name u" "u \<notin> set taken" "taken' = u # taken" "path = path_join dir u" by blast
  obtain args' us where r: "redirect_loop dir is (args[unat i := path]) taken' (fs @ [path]) =
      Inr (args', (fs @ [path]) @ map (path_join dir) us)" "length us = length is"
      "distinct (us @ taken')" "list_all plain_name us" "length args' = length args"
      "\<forall>k < length is. args' ! unat (is ! k) = path_join dir (us ! k)"
      "\<forall>j. j \<notin> unat ` set is \<longrightarrow> args' ! j = args[unat i := path] ! j"
    using Cons.IH [of "args[unat i := path]" taken' "fs @ [path]"] Cons.prems u by auto
  have "unat i \<notin> unat ` set is" using Cons.prems(2) by (auto dest: unsigned_word_eqI)
  with r(7) Cons.prems(1) have "args' ! unat i = path" by simp
  then have "\<forall>k < length (i # is). args' ! unat ((i # is) ! k) = path_join dir ((u # us) ! k)"
    using r(6) u(4) by (auto simp: less_Suc_eq_0_disj)
  moreover have "\<forall>j. j \<notin> unat ` set (i # is) \<longrightarrow> args' ! j = args ! j"
    using r(7) by (simp add: nth_list_update)
  ultimately show ?case
    using g r(1-5) u Cons.prems(1)
    by (intro exI [of _ args'] exI [of _ "u # us"]) auto
qed auto

lemma redirect_apart:
  assumes "\<forall>i \<in> set outs. unat i < length args" and "distinct outs" and "outs \<noteq> []"
  shows "\<exists>args' fs. redirect_outputs (Inr dir) args outs = Inr (args', Some dir, fs) \<and>
     length fs = length outs \<and> distinct fs \<and> length args' = length args \<and>
     (\<forall>k < length outs. args' ! unat (outs ! k) = fs ! k) \<and>
     (\<forall>j. j \<notin> unat ` set outs \<longrightarrow> args' ! j = args ! j)"
proof -
  obtain args' us where r: "redirect_loop dir outs args [] [] = Inr (args', map (path_join dir) us)"
      "length us = length outs" "distinct us" "list_all plain_name us" "length args' = length args"
      "\<forall>k < length outs. args' ! unat (outs ! k) = path_join dir (us ! k)"
      "\<forall>j. j \<notin> unat ` set outs \<longrightarrow> args' ! j = args ! j"
    using redirect_loop_spec [OF assms(1,2), of "[]" dir "[]"] by auto
  have "inj_on (path_join dir) (set us)"
    using r(4) by (auto simp: inj_on_def list_all_iff plain_name_def dest: path_join_inject)
  with r assms(3) show ?thesis
    by (intro exI [of _ args'] exI [of _ "map (path_join dir) us"])
      (simp add: redirect_outputs_def distinct_map)
qed

text \<open>
  C24: Redirecting the outputs of a well-formed task always succeeds in a given temporary
  directory: each output argument is replaced by a file of that directory, no two outputs by
  the same one, however often their names repeat, and every other argument stays as it was.
\<close>

theorem outputs_redirected_apart:
  assumes "\<forall>i \<in> set outs. unat i < length args" and "distinct outs" and "outs \<noteq> []"
  shows "\<exists>args' fs. redirect_outputs (Inr dir) args outs = Inr (args', Some dir, fs) \<and>
     length fs = length outs \<and> distinct fs \<and> length args' = length args \<and>
     (\<forall>k < length outs. args' ! unat (outs ! k) = fs ! k) \<and>
     (\<forall>j. j \<notin> unat ` set outs \<longrightarrow> args' ! j = args ! j)"
  by (rule redirect_apart [OF assms])

theorem outputs_redirected_apart_witness:
  "\<exists>args' fs. redirect_outputs (Inr ''/tmp/x'') [''gcc'', ''-o'', ''a/t.o'', ''-MF'', ''b/t.o''] [2, 4] =
       Inr (args', Some ''/tmp/x'', fs) \<and> distinct fs \<and> args' ! 1 = ''-o''"
proof -
  obtain args' fs where "redirect_outputs (Inr ''/tmp/x'') [''gcc'', ''-o'', ''a/t.o'', ''-MF'', ''b/t.o''] [2, 4] =
      Inr (args', Some ''/tmp/x'', fs)" "distinct fs"
    "\<forall>j. j \<notin> unat ` set [2, 4 :: u16] \<longrightarrow> args' ! j = [''gcc'', ''-o'', ''a/t.o'', ''-MF'', ''b/t.o''] ! j"
    using outputs_redirected_apart [of "[2, 4]" "[''gcc'', ''-o'', ''a/t.o'', ''-MF'', ''b/t.o'']" "''/tmp/x''"]
    by auto
  moreover have "1 \<notin> unat ` set [2, 4 :: u16]" by simp
  ultimately show ?thesis by fastforce
qed

end
