(* ===== verification/Spray_Exec.thy ===== *)
theory Spray_Exec
  imports Spray_Task Config
begin

text \<open>
  The executor (\<open>src/src/exec.rs\<close>): it announces itself to the server, runs the tasks it is
  given one after the other, and sends back their output as it appears, the files they wrote
  and the exit code.

  The behaviour of a child process is an argument: the bytes it writes, in which order lines
  of the two streams become available (\<open>True\<close> for standard output), how it ends and what the
  reads of its output files return.
\<close>

section \<open>Lines of output\<close>

datatype line_read = Eof | Line "u8 list" | BadUtf8

text \<open>\<open>Lines::next_line\<close>: the line without its end, \<open>\n\<close> or \<open>\r\n\<close>, and the bytes left.\<close>

definition next_line :: "u8 list \<Rightarrow> line_read \<times> u8 list" where
  "next_line bs =
     (if bs = [] then (Eof, [])
      else
        let l = takeWhile (\<lambda>b. b \<noteq> 10) bs;
            rest = drop (Suc (length l)) bs;
            line = (if length l < length bs \<and> l \<noteq> [] \<and> last l = 13 then butlast l else l)
        in if is_utf8 l then (Line line, rest) else (BadUtf8, rest))"

section \<open>Running a task\<close>

record pump =
  p_out :: "u8 list"
  p_err :: "u8 list"
  p_out_done :: bool
  p_err_done :: bool
  p_w :: out_stream

definition pump_stdout :: "(message \<Rightarrow> u8 list option) \<Rightarrow> pump \<Rightarrow> pump outcome" where
  "pump_stdout ser p =
     (case next_line (p_out p) of
        (Eof, rest) \<Rightarrow> Inr (p\<lparr>p_out_done := True\<rparr>)
      | (Line l, rest) \<Rightarrow>
          and_then (write_message ser (p_w p) (TaskOutput Stdout (l @ [10])))
            (\<lambda>w. Inr (p\<lparr>p_out := rest, p_w := w\<rparr>))
      | (BadUtf8, rest) \<Rightarrow> Inr (p\<lparr>p_out := rest, p_out_done := True\<rparr>))"

definition pump_stderr :: "(message \<Rightarrow> u8 list option) \<Rightarrow> pump \<Rightarrow> pump outcome" where
  "pump_stderr ser p =
     (case next_line (p_err p) of
        (Eof, rest) \<Rightarrow> Inr (p\<lparr>p_err_done := True\<rparr>)
      | (Line l, rest) \<Rightarrow>
          and_then (write_message ser (p_w p) (TaskOutput Stderr (l @ [10])))
            (\<lambda>w. Inr (p\<lparr>p_err := rest, p_w := w\<rparr>))
      | (BadUtf8, rest) \<Rightarrow> Inr (p\<lparr>p_err := rest, p_err_done := True\<rparr>))"

text \<open>The loop ends when both streams are done; a stream that is done is not polled again.\<close>

fun pump_loop :: "(message \<Rightarrow> u8 list option) \<Rightarrow> bool list \<Rightarrow> pump \<Rightarrow> pump outcome" where
  "pump_loop ser [] p = (if p_out_done p \<and> p_err_done p then Inr p else Inl NotDone)"
| "pump_loop ser (out_first # sched) p =
     (if p_out_done p \<and> p_err_done p then Inr p
      else if out_first \<and> \<not> p_out_done p then and_then (pump_stdout ser p) (pump_loop ser sched)
      else if \<not> out_first \<and> \<not> p_err_done p then and_then (pump_stderr ser p) (pump_loop ser sched)
      else pump_loop ser sched p)"

text \<open>
  \<open>send_output_file\<close>: the reads of the file, or \<open>None\<close> when it cannot be opened.  Each read
  returns at most 65536 bytes.
\<close>

fun send_reads ::
  "(message \<Rightarrow> u8 list option) \<Rightarrow> output_type \<Rightarrow> read_res list \<Rightarrow> out_stream \<Rightarrow> out_stream outcome" where
  "send_reads ser ot [] w = Inr w"
| "send_reads ser ot (ReadErr e # rs) w = Inl (Err e)"
| "send_reads ser ot (Bytes buf # rs) w =
     (if buf \<noteq> [] then and_then (write_message ser w (TaskOutput ot buf)) (send_reads ser ot rs)
      else Inr w)"

definition send_output_file ::
  "(message \<Rightarrow> u8 list option) \<Rightarrow> output_type \<Rightarrow> read_res list option \<Rightarrow> out_stream \<Rightarrow> out_stream outcome" where
  "send_output_file ser ot reads w =
     (case reads of None \<Rightarrow> Inr w | Some rs \<Rightarrow> send_reads ser ot rs w)"

fun send_output_files ::
  "(message \<Rightarrow> u8 list option) \<Rightarrow> (string \<Rightarrow> read_res list option) \<Rightarrow> nat \<Rightarrow> string list \<Rightarrow> out_stream \<Rightarrow>
     out_stream outcome" where
  "send_output_files ser reads idx [] w = Inr w"
| "send_output_files ser reads idx (f # fs) w =
     and_then (send_output_file ser (File idx) (reads f) w) (send_output_files ser reads (idx + 1) fs)"

record child =
  ch_sched :: "bool list"
  ch_out :: "u8 list"
  ch_err :: "u8 list"
  ch_status :: "string + int option"
  ch_reads :: "string \<Rightarrow> read_res list option"
  ch_run_time :: duration
  ch_send_time :: duration

definition run_task ::
  "(message \<Rightarrow> u8 list option) \<Rightarrow> child \<Rightarrow> string list \<Rightarrow> string \<Rightarrow> out_stream \<Rightarrow> out_stream outcome" where
  "run_task ser K fs target_id w =
     and_then (pump_loop ser (ch_sched K)
       \<lparr>p_out = ch_out K, p_err = ch_err K, p_out_done = False, p_err_done = False, p_w = w\<rparr>) (\<lambda>p.
     case ch_status K of
       Inl e \<Rightarrow> Inl (Err e)
     | Inr code \<Rightarrow>
         and_then (send_output_files ser (ch_reads K) 0 fs (p_w p)) (\<lambda>w.
           write_message ser w (TaskDone code target_id (ch_run_time K) (ch_send_time K))))"

definition handle_new_task ::
  "(message \<Rightarrow> u8 list option) \<Rightarrow> task_host \<Rightarrow> child \<Rightarrow> task_details \<Rightarrow> out_stream \<Rightarrow> out_stream outcome" where
  "handle_new_task ser H K d w =
     and_then (get_target_id d) (\<lambda>target_id.
       case task_start H (working_dir d) (td_cmd d) (td_args d) (output_args d) (td_env d) of
         Inr t \<Rightarrow> run_task ser K (output_files t) target_id w
       | Inl (Err err) \<Rightarrow> write_message ser w (TaskFailed err)
       | Inl f \<Rightarrow> Inl f)"

section \<open>The executor process\<close>

text \<open>The tasks that arrive are run by the given children, in order.\<close>

function exec_loop ::
  "(message \<Rightarrow> u8 list option) \<Rightarrow> (u8 list \<Rightarrow> message option) \<Rightarrow> task_host \<Rightarrow> connection \<Rightarrow> child list \<Rightarrow>
     out_stream \<Rightarrow> out_stream outcome" where
  "exec_loop ser deser H c Ks w =
     (case read_message deser c of
        Inl f \<Rightarrow> Inl f
      | Inr (None, _) \<Rightarrow> Inr w
      | Inr (Some msg, c') \<Rightarrow>
          (case msg of
             Task _ _ d \<Rightarrow>
               (case Ks of
                  [] \<Rightarrow> Inl NotDone
                | K # Ks' \<Rightarrow>
                    (case handle_new_task ser H K d w of
                       Inl f \<Rightarrow> Inl f
                     | Inr w' \<Rightarrow> exec_loop ser deser H c' Ks' w'))
           | CancelTask \<Rightarrow> Inl (Panic ''not implemented: Task cancellation is unimplemented'')
           | PissOff \<Rightarrow> Inr w
           | _ \<Rightarrow> Inl (Panic ''Unexpected message'')))"
  by pat_completeness auto
termination
  by (relation "measure (\<lambda>(_, _, _, c, _). length (unread c))") (auto dest: read_message_consumes)

declare exec_loop.simps [simp del]

text \<open>\<open>connect\<close> is the result of connecting to the server: what it will send, and the way back.\<close>

definition exec_run ::
  "(message \<Rightarrow> u8 list option) \<Rightarrow> (u8 list \<Rightarrow> message option) \<Rightarrow> task_host \<Rightarrow> (string \<Rightarrow> user_private_key option) \<Rightarrow>
     string option \<Rightarrow> text_fs \<Rightarrow> (string \<Rightarrow> (read_res list \<times> out_stream) outcome) \<Rightarrow> child list \<Rightarrow>
     call_me \<Rightarrow> out_stream outcome" where
  "exec_run ser deser H key_of_toml home_dir fs connect Ks callme =
     (let key = fst (load_user_private_key key_of_toml (\<lambda>_. []) False 0 False home_dir fs)
      in and_then (connect (addr callme)) (\<lambda>(st, w).
         and_then (write_message ser w (YourObedientServant (access_code callme) key)) (\<lambda>w.
           exec_loop ser deser H (new_connection st) Ks w)))"

section \<open>What reaches the server\<close>

lemma next_line_shorter: "next_line bs = (Line l, rest) \<Longrightarrow> length rest < length bs"
  by (auto simp: next_line_def Let_def split: if_splits)

text \<open>What the executor sends of a stream: each line ended by a newline, up to invalid UTF-8.\<close>

function echo :: "u8 list \<Rightarrow> u8 list" where
  "echo bs =
     (case next_line bs of
        (Line l, rest) \<Rightarrow> l @ [10] @ echo rest
      | _ \<Rightarrow> [])"
  by pat_completeness auto
termination
  by (relation "measure length") (auto dest: next_line_shorter [OF sym])

declare echo.simps [simp del]

lemma write_output_frame:
  assumes "room w = None" and "ser m = Some data"
  shows "write_message ser w m = Inr (w\<lparr>written := written w @ frame ser m\<rparr>)"
  using assms by (simp add: write_message_bytes frame_Some)

text \<open>
  \<open>sends ser w outs w'\<close>: between \<open>w\<close> and \<open>w'\<close> exactly the outputs \<open>outs\<close> were written.
\<close>

definition sends ::
  "(message \<Rightarrow> u8 list option) \<Rightarrow> out_stream \<Rightarrow> (output_type \<times> u8 list) list \<Rightarrow> out_stream \<Rightarrow> bool" where
  "sends ser w outs w' \<longleftrightarrow>
     w' = w\<lparr>written := written w @ concat (map (frame ser) (map out_msg outs))\<rparr>"

lemma sends_Nil [simp]: "sends ser w [] w' \<longleftrightarrow> w' = w"
  by (simp add: sends_def)

lemma sends_append: "sends ser w a w1 \<Longrightarrow> sends ser w1 b w2 \<Longrightarrow> sends ser w (a @ b) w2"
  by (simp add: sends_def)

lemma sends_room: "sends ser w outs w' \<Longrightarrow> room w' = room w"
  by (simp add: sends_def)

definition ser_total :: "(message \<Rightarrow> u8 list option) \<Rightarrow> bool" where
  "ser_total ser \<longleftrightarrow> (\<forall>m. ser m \<noteq> None)"

lemma write_sends:
  assumes "ser_total ser" and "room w = None"
  obtains w' where "write_message ser w (TaskOutput t c) = Inr w'" "sends ser w [(t, c)] w'"
proof -
  from assms(1) obtain data where "ser (TaskOutput t c) = Some data" by (auto simp: ser_total_def)
  then have "write_message ser w (TaskOutput t c) =
      Inr (w\<lparr>written := written w @ frame ser (TaskOutput t c)\<rparr>)"
    by (rule write_output_frame [OF assms(2)])
  then show thesis using that by (simp add: sends_def out_msg_def)
qed

text \<open>The lines of a stream that are read before it is done, the end of the stream included.\<close>

function line_reads :: "u8 list \<Rightarrow> nat" where
  "line_reads bs = (case next_line bs of (Line l, rest) \<Rightarrow> Suc (line_reads rest) | _ \<Rightarrow> 1)"
  by pat_completeness auto
termination
  by (relation "measure length") (auto dest: next_line_shorter [OF sym])

declare line_reads.simps [simp del]

text \<open>
  What is left to send, and how many reads this takes, in a state of the loop.
\<close>

definition out_left :: "pump \<Rightarrow> u8 list" where
  "out_left p = (if p_out_done p then [] else echo (p_out p))"

definition err_left :: "pump \<Rightarrow> u8 list" where
  "err_left p = (if p_err_done p then [] else echo (p_err p))"

definition out_reads :: "pump \<Rightarrow> nat" where
  "out_reads p = (if p_out_done p then 0 else line_reads (p_out p))"

definition err_reads :: "pump \<Rightarrow> nat" where
  "err_reads p = (if p_err_done p then 0 else line_reads (p_err p))"

lemmas left_defs = out_left_def err_left_def out_reads_def err_reads_def

lemma pump_stdout_step:
  assumes "ser_total ser" and "room (p_w p) = None" and "\<not> p_out_done p"
  obtains p' outs where "pump_stdout ser p = Inr p'" "sends ser (p_w p) outs (p_w p')"
    "fst ` set outs \<subseteq> {Stdout}" "out_left p = chunks Stdout outs @ out_left p'"
    "out_reads p = Suc (out_reads p')" "err_left p' = err_left p" "err_reads p' = err_reads p"
proof (cases "next_line (p_out p)")
  case (Pair r rest)
  show ?thesis
  proof (cases r)
    case (Line l)
    obtain w where "write_message ser (p_w p) (TaskOutput Stdout (l @ [10])) = Inr w"
        "sends ser (p_w p) [(Stdout, l @ [10])] w"
      by (rule write_sends [OF assms(1,2)])
    then show ?thesis
      using that [of "p\<lparr>p_out := rest, p_w := w\<rparr>" "[(Stdout, l @ [10])]"] Pair Line assms(3)
      by (simp add: pump_stdout_def left_defs echo.simps [of "p_out p"] line_reads.simps [of "p_out p"])
  next
    case Eof
    then show ?thesis
      using that [of "p\<lparr>p_out_done := True\<rparr>" "[]"] Pair assms(3)
      by (simp add: pump_stdout_def left_defs echo.simps [of "p_out p"] line_reads.simps [of "p_out p"])
  next
    case BadUtf8
    then show ?thesis
      using that [of "p\<lparr>p_out := rest, p_out_done := True\<rparr>" "[]"] Pair assms(3)
      by (simp add: pump_stdout_def left_defs echo.simps [of "p_out p"] line_reads.simps [of "p_out p"])
  qed
qed

lemma pump_stderr_step:
  assumes "ser_total ser" and "room (p_w p) = None" and "\<not> p_err_done p"
  obtains p' outs where "pump_stderr ser p = Inr p'" "sends ser (p_w p) outs (p_w p')"
    "fst ` set outs \<subseteq> {Stderr}" "err_left p = chunks Stderr outs @ err_left p'"
    "err_reads p = Suc (err_reads p')" "out_left p' = out_left p" "out_reads p' = out_reads p"
proof (cases "next_line (p_err p)")
  case (Pair r rest)
  show ?thesis
  proof (cases r)
    case (Line l)
    obtain w where "write_message ser (p_w p) (TaskOutput Stderr (l @ [10])) = Inr w"
        "sends ser (p_w p) [(Stderr, l @ [10])] w"
      by (rule write_sends [OF assms(1,2)])
    then show ?thesis
      using that [of "p\<lparr>p_err := rest, p_w := w\<rparr>" "[(Stderr, l @ [10])]"] Pair Line assms(3)
      by (simp add: pump_stderr_def left_defs echo.simps [of "p_err p"] line_reads.simps [of "p_err p"])
  next
    case Eof
    then show ?thesis
      using that [of "p\<lparr>p_err_done := True\<rparr>" "[]"] Pair assms(3)
      by (simp add: pump_stderr_def left_defs echo.simps [of "p_err p"] line_reads.simps [of "p_err p"])
  next
    case BadUtf8
    then show ?thesis
      using that [of "p\<lparr>p_err := rest, p_err_done := True\<rparr>" "[]"] Pair assms(3)
      by (simp add: pump_stderr_def left_defs echo.simps [of "p_err p"] line_reads.simps [of "p_err p"])
  qed
qed

text \<open>
  Whatever the order in which lines become available, provided each stream is polled often
  enough, the loop ends and has sent both streams, each in its own order.
\<close>

definition pumped :: "(message \<Rightarrow> u8 list option) \<Rightarrow> pump \<Rightarrow> pump outcome \<Rightarrow> bool" where
  "pumped ser p r \<longleftrightarrow>
     (\<exists>p' outs. r = Inr p' \<and> sends ser (p_w p) outs (p_w p') \<and>
        chunks Stdout outs = out_left p \<and> chunks Stderr outs = err_left p \<and>
        fst ` set outs \<subseteq> {Stdout, Stderr})"

lemma pumped_after:
  assumes "sends ser (p_w p) outs (p_w p1)" and "fst ` set outs \<subseteq> {Stdout, Stderr}"
    and "out_left p = chunks Stdout outs @ out_left p1" and "err_left p = chunks Stderr outs @ err_left p1"
    and "pumped ser p1 r"
  shows "pumped ser p r"
proof -
  obtain p' outs' where "r = Inr p'" "sends ser (p_w p1) outs' (p_w p')" "chunks Stdout outs' = out_left p1"
      "chunks Stderr outs' = err_left p1" "fst ` set outs' \<subseteq> {Stdout, Stderr}"
    using assms(5) by (auto simp: pumped_def)
  then show ?thesis
    unfolding pumped_def using assms(1-4)
    by (intro exI [of _ p'] exI [of _ "outs @ outs'"]) (auto intro: sends_append)
qed

lemma pumped_done: "p_out_done p \<Longrightarrow> p_err_done p \<Longrightarrow> pumped ser p (Inr p)"
  by (auto simp: pumped_def left_defs intro!: exI [of _ "[]"])

lemma line_reads_pos [simp]: "line_reads bs \<noteq> 0"
  by (subst line_reads.simps) (simp split: line_read.splits prod.splits)

text \<open>One turn on either stream, when the rest of the loop is known to send what is left.\<close>

lemma pumped_stdout:
  assumes "ser_total ser" and "room (p_w p) = None" and "\<not> p_out_done p"
    and rest: "\<And>p1. room (p_w p1) = None \<Longrightarrow> out_reads p = Suc (out_reads p1) \<Longrightarrow> err_reads p1 = err_reads p \<Longrightarrow>
      pumped ser p1 (k p1)"
  shows "pumped ser p (and_then (pump_stdout ser p) k)"
proof -
  obtain p1 outs where p1: "pump_stdout ser p = Inr p1" "sends ser (p_w p) outs (p_w p1)"
      "fst ` set outs \<subseteq> {Stdout}" "out_left p = chunks Stdout outs @ out_left p1"
      "out_reads p = Suc (out_reads p1)" "err_left p1 = err_left p" "err_reads p1 = err_reads p"
    by (rule pump_stdout_step [OF assms(1-3)])
  have "chunks Stderr outs = []" using p1(3) by (intro chunks_none) auto
  then show ?thesis
    using p1 rest [of p1] sends_room [OF p1(2)] assms(2) by (auto intro!: pumped_after [OF p1(2)])
qed

lemma pumped_stderr:
  assumes "ser_total ser" and "room (p_w p) = None" and "\<not> p_err_done p"
    and rest: "\<And>p1. room (p_w p1) = None \<Longrightarrow> err_reads p = Suc (err_reads p1) \<Longrightarrow> out_reads p1 = out_reads p \<Longrightarrow>
      pumped ser p1 (k p1)"
  shows "pumped ser p (and_then (pump_stderr ser p) k)"
proof -
  obtain p1 outs where p1: "pump_stderr ser p = Inr p1" "sends ser (p_w p) outs (p_w p1)"
      "fst ` set outs \<subseteq> {Stderr}" "err_left p = chunks Stderr outs @ err_left p1"
      "err_reads p = Suc (err_reads p1)" "out_left p1 = out_left p" "out_reads p1 = out_reads p"
    by (rule pump_stderr_step [OF assms(1-3)])
  have "chunks Stdout outs = []" using p1(3) by (intro chunks_none) auto
  then show ?thesis
    using p1 rest [of p1] sends_room [OF p1(2)] assms(2) by (auto intro!: pumped_after [OF p1(2)])
qed

lemma pump_loop_sends:
  assumes "ser_total ser" and "room (p_w p) = None"
    and "out_reads p \<le> length (filter id sched)" and "err_reads p \<le> length (filter Not sched)"
  shows "pumped ser p (pump_loop ser sched p)"
  using assms(2-4)
proof (induction sched arbitrary: p)
  case Nil
  then have "p_out_done p" "p_err_done p" by (auto simp: left_defs split: if_splits)
  then show ?case by (simp add: pumped_done)
next
  case (Cons b sched)
  consider (fin) "p_out_done p" "p_err_done p" | (out) "b" "\<not> p_out_done p"
    | (err) "\<not> b" "\<not> p_err_done p"
    | (skip) "b" "p_out_done p" "\<not> p_err_done p" | (skip') "\<not> b" "p_err_done p" "\<not> p_out_done p"
    by blast
  then show ?case
  proof cases
    case out
    have "pumped ser p (and_then (pump_stdout ser p) (pump_loop ser sched))"
      using Cons.prems out(1) by (intro pumped_stdout [OF assms(1) _ out(2)] Cons.IH) simp_all
    with out show ?thesis by simp
  next
    case err
    have "pumped ser p (and_then (pump_stderr ser p) (pump_loop ser sched))"
      using Cons.prems err(1) by (intro pumped_stderr [OF assms(1) _ err(2)] Cons.IH) simp_all
    with err show ?thesis by simp
  next
    case skip
    then show ?thesis using Cons.IH [of p] Cons.prems by (simp add: out_reads_def)
  next
    case skip'
    then show ?thesis using Cons.IH [of p] Cons.prems by (simp add: err_reads_def)
  qed (simp add: pumped_done)
qed

lemma send_reads_sends:
  assumes "ser_total ser" and "room w = None" and "list_all data_chunk rs"
  shows "\<exists>w' outs. send_reads ser t rs w = Inr w' \<and> sends ser w outs w' \<and> fst ` set outs \<subseteq> {t} \<and>
     chunks t outs = stream_bytes rs \<and> (t \<in> fst ` set outs \<longleftrightarrow> stream_bytes rs \<noteq> [])"
  using assms(2,3)
proof (induction rs arbitrary: w)
  case Nil
  then show ?case by (auto intro!: exI [of _ "[]"])
next
  case (Cons r rs)
  then obtain buf where r: "r = Bytes buf" "buf \<noteq> []" by (cases r) auto
  obtain w1 where w1: "write_message ser w (TaskOutput t buf) = Inr w1" "sends ser w [(t, buf)] w1"
    by (rule write_sends [OF assms(1) Cons.prems(1)])
  obtain w' outs where o: "send_reads ser t rs w1 = Inr w'" "sends ser w1 outs w'"
      "fst ` set outs \<subseteq> {t}" "chunks t outs = stream_bytes rs"
    using Cons.IH [of w1] Cons.prems sends_room [OF w1(2)] by auto
  then show ?case
    using r w1 sends_append [OF w1(2) o(2)]
    by (intro exI [of _ w'] exI [of _ "(t, buf) # outs"]) simp
qed

text \<open>What the reads of an output file return in all; nothing when it cannot be opened.\<close>

definition file_content :: "(string \<Rightarrow> read_res list option) \<Rightarrow> string \<Rightarrow> u8 list" where
  "file_content reads f = (case reads f of None \<Rightarrow> [] | Some rs \<Rightarrow> stream_bytes rs)"

definition readable :: "(string \<Rightarrow> read_res list option) \<Rightarrow> string \<Rightarrow> bool" where
  "readable reads f = (case reads f of None \<Rightarrow> True | Some rs \<Rightarrow> list_all data_chunk rs)"

text \<open>
  The outputs \<open>outs\<close> carry the files \<open>fs\<close> under the numbers from \<open>idx\<close>: an empty or missing file
  does not appear at all.
\<close>

definition carries ::
  "(string \<Rightarrow> read_res list option) \<Rightarrow> nat \<Rightarrow> string list \<Rightarrow> (output_type \<times> u8 list) list \<Rightarrow> bool" where
  "carries reads idx fs outs \<longleftrightarrow>
     (\<forall>i < length fs. chunks (File (idx + i)) outs = file_content reads (fs ! i) \<and>
        (File (idx + i) \<in> fst ` set outs \<longleftrightarrow> file_content reads (fs ! i) \<noteq> []))"

lemma send_output_file_sends:
  assumes "ser_total ser" and "room w = None" and "readable reads f"
  shows "\<exists>w' outs. send_output_file ser t (reads f) w = Inr w' \<and> sends ser w outs w' \<and>
     fst ` set outs \<subseteq> {t} \<and> chunks t outs = file_content reads f \<and>
     (t \<in> fst ` set outs \<longleftrightarrow> file_content reads f \<noteq> [])"
proof (cases "reads f")
  case None
  then show ?thesis by (auto simp: send_output_file_def file_content_def intro!: exI [of _ "[]"])
next
  case (Some rs)
  then show ?thesis
    using send_reads_sends [OF assms(1,2)] assms(3)
    by (simp add: send_output_file_def file_content_def readable_def)
qed

lemma send_output_files_sends:
  assumes "ser_total ser" and "room w = None" and "list_all (readable reads) fs"
  shows "\<exists>w' outs. send_output_files ser reads idx fs w = Inr w' \<and> sends ser w outs w' \<and>
     fst ` set outs \<subseteq> File ` {idx..<idx + length fs} \<and> carries reads idx fs outs"
  using assms(2,3)
proof (induction fs arbitrary: idx w)
  case Nil
  then show ?case by (auto simp: carries_def intro!: exI [of _ "[]"])
next
  case (Cons f fs)
  have "readable reads f" using Cons.prems(2) by simp
  from send_output_file_sends [OF assms(1) Cons.prems(1) this, of "File idx"]
  obtain w1 outs1 where 1: "send_output_file ser (File idx) (reads f) w = Inr w1" "sends ser w outs1 w1"
      "fst ` set outs1 \<subseteq> {File idx}" "chunks (File idx) outs1 = file_content reads f"
      "File idx \<in> fst ` set outs1 \<longleftrightarrow> file_content reads f \<noteq> []"
    by blast
  obtain w2 outs2 where 2: "send_output_files ser reads (idx + 1) fs w1 = Inr w2" "sends ser w1 outs2 w2"
      "fst ` set outs2 \<subseteq> File ` {idx + 1..<idx + 1 + length fs}" "carries reads (idx + 1) fs outs2"
    using Cons.IH [of w1 "idx + 1"] Cons.prems sends_room [OF 1(2)] by auto
  have later: "File idx \<notin> fst ` set outs2" using 2(3) by auto
  have first: "File (idx + Suc i) \<notin> fst ` set outs1" for i using 1(3) by auto
  have "carries reads idx (f # fs) (outs1 @ outs2)"
    unfolding carries_def
  proof (intro allI impI)
    fix i assume "i < length (f # fs)"
    then show "chunks (File (idx + i)) (outs1 @ outs2) = file_content reads ((f # fs) ! i) \<and>
        (File (idx + i) \<in> fst ` set (outs1 @ outs2) \<longleftrightarrow> file_content reads ((f # fs) ! i) \<noteq> [])"
      using 1(4,5) 2(4) chunks_none [OF later] chunks_none [OF first] later first
      by (cases i) (simp_all add: carries_def image_Un)
  qed
  moreover have "fst ` set (outs1 @ outs2) \<subseteq> File ` {idx..<idx + length (f # fs)}"
    using 1(3) 2(3) by fastforce
  ultimately show ?case
    using 1(1) 2(1) sends_append [OF 1(2) 2(2)] by (intro exI [of _ w2] exI [of _ "outs1 @ outs2"]) simp
qed

text \<open>Every stream is polled until it is done.\<close>

definition fair :: "child \<Rightarrow> bool" where
  "fair K \<longleftrightarrow>
     line_reads (ch_out K) \<le> length (filter id (ch_sched K)) \<and>
     line_reads (ch_err K) \<le> length (filter Not (ch_sched K))"

text \<open>The outputs an executor owes for a child that wrote the files \<open>fs\<close>.\<close>

definition faithful_outputs :: "child \<Rightarrow> string list \<Rightarrow> (output_type \<times> u8 list) list \<Rightarrow> bool" where
  "faithful_outputs K fs outs \<longleftrightarrow>
     chunks Stdout outs = echo (ch_out K) \<and> chunks Stderr outs = echo (ch_err K) \<and>
     carries (ch_reads K) 0 fs outs \<and>
     fst ` set outs \<subseteq> {Stdout, Stderr} \<union> File ` {..<length fs}"

lemma run_task_outputs:
  assumes "ser_total ser" and "room w = None" and "fair K" and "ch_status K = Inr code"
    and "list_all (readable (ch_reads K)) fs"
  shows "\<exists>w' outs. run_task ser K fs target w = Inr w' \<and> room w' = None \<and> faithful_outputs K fs outs \<and>
     written w' = written w @ concat (map (frame ser) (map out_msg outs @
       [TaskDone code target (ch_run_time K) (ch_send_time K)]))"
proof -
  let ?p = "\<lparr>p_out = ch_out K, p_err = ch_err K, p_out_done = False, p_err_done = False, p_w = w\<rparr>"
  have "pumped ser ?p (pump_loop ser (ch_sched K) ?p)"
    using assms(2,3) by (intro pump_loop_sends [OF assms(1)]) (simp_all add: left_defs fair_def)
  then obtain p' outs1 where 1: "pump_loop ser (ch_sched K) ?p = Inr p'" "sends ser w outs1 (p_w p')"
      "chunks Stdout outs1 = echo (ch_out K)" "chunks Stderr outs1 = echo (ch_err K)"
      "fst ` set outs1 \<subseteq> {Stdout, Stderr}"
    by (auto simp: pumped_def left_defs)
  obtain w2 outs2 where 2: "send_output_files ser (ch_reads K) 0 fs (p_w p') = Inr w2"
      "sends ser (p_w p') outs2 w2" "fst ` set outs2 \<subseteq> File ` {0..<0 + length fs}"
      "carries (ch_reads K) 0 fs outs2"
    using send_output_files_sends [OF assms(1) _ assms(5)] sends_room [OF 1(2)] assms(2) by metis
  let ?done = "TaskDone code target (ch_run_time K) (ch_send_time K)"
  have s: "sends ser w (outs1 @ outs2) w2" by (rule sends_append [OF 1(2) 2(2)])
  obtain data where data: "ser ?done = Some data" using assms(1) by (auto simp: ser_total_def)
  have w': "write_message ser w2 ?done = Inr (w2\<lparr>written := written w2 @ frame ser ?done\<rparr>)"
    using sends_room [OF s] assms(2) by (intro write_output_frame [where data = data]) (simp_all add: data)
  have no: "Stdout \<notin> fst ` set outs2" "Stderr \<notin> fst ` set outs2" "File i \<notin> fst ` set outs1" for i
    using 1(5) 2(3) by auto
  have "faithful_outputs K fs (outs1 @ outs2)"
    using 1(3-5) 2(3,4) no chunks_none [OF no(1)] chunks_none [OF no(2)] chunks_none [OF no(3)]
    by (auto simp: faithful_outputs_def carries_def image_Un)
  then show ?thesis
    using 1(1) 2(1) s w' assms(2,4) sends_room [OF s]
    by (intro exI [of _ "w2\<lparr>written := written w2 @ frame ser ?done\<rparr>"] exI [of _ "outs1 @ outs2"])
      (simp add: run_task_def sends_def)
qed

section \<open>Properties\<close>

text \<open>A host on which a task can be started.\<close>

definition host_ready :: "task_host \<Rightarrow> task_details \<Rightarrow> string \<Rightarrow> bool" where
  "host_ready H d dir \<longleftrightarrow>
     path_exists H (working_dir d) \<and> path_exists H (td_cmd d) \<and> host_tempdir H = Inr dir \<and>
     host_spawn H (td_cmd d)"

lemma task_start_ready:
  assumes "host_ready H d dir" and "wf_task d" and "distinct (output_args d)" and "td_args d \<noteq> []"
  shows "\<exists>t. task_start H (working_dir d) (td_cmd d) (td_args d) (output_args d) (td_env d) = Inr t \<and>
     length (output_files t) = length (output_args d) \<and> distinct (output_files t) \<and>
     proc_cmd t = td_cmd d \<and> proc_dir t = working_dir d \<and> proc_env t = td_env d \<and>
     length (proc_args t) + 1 = length (td_args d)"
proof (cases "output_args d = []")
  case True
  then show ?thesis
    using assms(1,4) by (simp add: host_ready_def task_start_def redirect_outputs_def start_task_def)
next
  case False
  have "\<forall>i \<in> set (output_args d). unat i < length (td_args d)"
    using assms(2) by (simp add: wf_task_def list_all_iff)
  from redirect_apart [OF this assms(3) False, of dir] obtain args' fs where
    r: "redirect_outputs (Inr dir) (td_args d) (output_args d) = Inr (args', Some dir, fs)"
      "length fs = length (output_args d)" "distinct fs" "length args' = length (td_args d)" by blast
  then have "args' \<noteq> []" "0 < length (td_args d)" using assms(4) by auto
  with r show ?thesis
    using assms(1) by (simp add: host_ready_def task_start_def start_task_def)
qed

text \<open>
  A task that can be started is always reported in full, whatever the order in which its
  two output streams deliver: the executor sends everything the process printed on each
  stream, in order, then the content of each output file under its own number, nothing for a
  missing or empty one, and finally the exit code with the target of the task.
\<close>

theorem executor_reports_task:
  assumes "ser_total ser" and "room w = None" and "host_ready H d dir" and "wf_task d"
    and "distinct (output_args d)" and "td_args d \<noteq> []" and "fair K" and "ch_status K = Inr code"
    and "\<forall>f. readable (ch_reads K) f"
  shows "\<exists>w' outs fs target. handle_new_task ser H K d w = Inr w' \<and> get_target_id d = Inr target \<and>
     distinct fs \<and> length fs = length (output_args d) \<and> faithful_outputs K fs outs \<and>
     written w' = written w @ concat (map (frame ser) (map out_msg outs @
       [TaskDone code target (ch_run_time K) (ch_send_time K)]))"
proof -
  obtain t where t: "task_start H (working_dir d) (td_cmd d) (td_args d) (output_args d) (td_env d) = Inr t"
      "length (output_files t) = length (output_args d)" "distinct (output_files t)"
    using task_start_ready [OF assms(3-6)] by blast
  obtain target where target: "get_target_id d = Inr target" using get_target_id_wf [OF assms(4)] by blast
  have "list_all (readable (ch_reads K)) (output_files t)" using assms(9) by (simp add: list_all_iff)
  from run_task_outputs [OF assms(1,2,7,8) this, of target] t target show ?thesis
    by (fastforce simp: handle_new_task_def)
qed

definition demo_child :: child where
  "demo_child = \<lparr>ch_sched = [False, True, True], ch_out = [104, 105, 10], ch_err = [], ch_status = Inr (Some 0),
     ch_reads = (\<lambda>_. Some [Bytes [7], Bytes [8]]), ch_run_time = 5, ch_send_time = 6\<rparr>"

definition demo_host :: task_host where
  "demo_host = \<lparr>path_exists = (\<lambda>_. True), host_name = Some ''h'', host_tempdir = Inr ''/tmp/x'',
     host_spawn = (\<lambda>_. True)\<rparr>"

definition demo_details :: task_details where
  "demo_details = \<lparr>working_dir = ''/w'', td_cmd = ''/usr/bin/gcc'', td_args = [''gcc'', ''-o'', ''a.o''],
     output_args = [2], td_env = Mapping.empty, priority_task = False\<rparr>"

theorem executor_reports_task_witness:
  "\<exists>w' outs fs target. handle_new_task (\<lambda>_. Some []) demo_host demo_child demo_details
       \<lparr>written = [], room = None\<rparr> = Inr w' \<and> get_target_id demo_details = Inr target \<and>
     length fs = 1 \<and> faithful_outputs demo_child fs outs"
proof -
  let ?w = "\<lparr>written = [], room = None\<rparr>"
  have "\<exists>w' outs fs target. handle_new_task (\<lambda>_. Some []) demo_host demo_child demo_details ?w = Inr w' \<and>
      get_target_id demo_details = Inr target \<and> distinct fs \<and> length fs = length (output_args demo_details) \<and>
      faithful_outputs demo_child fs outs \<and>
      written w' = written ?w @ concat (map (frame (\<lambda>_. Some [])) (map out_msg outs @
        [TaskDone (Some 0) target (ch_run_time demo_child) (ch_send_time demo_child)]))"
    by (rule executor_reports_task [where dir = "''/tmp/x''"])
      (simp_all add: demo_child_def demo_host_def demo_details_def ser_total_def host_ready_def wf_task_def
        fair_def readable_def line_reads.simps next_line_def Let_def)
  then show ?thesis by (simp add: demo_details_def) blast
qed

text \<open>
  A task whose directory or command does not exist on the executor's host is not started;
  the executor reports it as failed and can go on.
\<close>

theorem missing_paths_fail_the_task:
  assumes "\<not> path_exists H (working_dir d) \<or> \<not> path_exists H (td_cmd d)" and "wf_task d"
    and "ser_total ser" and "room w = None"
  shows "\<exists>err. handle_new_task ser H K d w = Inr (w\<lparr>written := written w @ frame ser (TaskFailed err)\<rparr>)"
proof -
  obtain target where t: "get_target_id d = Inr target" using get_target_id_wf [OF assms(2)] by blast
  obtain err where e: "task_start H (working_dir d) (td_cmd d) (td_args d) (output_args d) (td_env d) = Inl (Err err)"
    using assms(1) by (cases "path_exists H (working_dir d)") (simp_all add: task_start_def)
  obtain data where "ser (TaskFailed err) = Some data" using assms(3) by (auto simp: ser_total_def)
  then have "write_message ser w (TaskFailed err) = Inr (w\<lparr>written := written w @ frame ser (TaskFailed err)\<rparr>)"
    by (rule write_output_frame [OF assms(4)])
  with t e show ?thesis by (auto simp: handle_new_task_def)
qed

theorem missing_paths_fail_the_task_witness:
  "\<exists>err. handle_new_task (\<lambda>_. Some []) (demo_host\<lparr>path_exists := (\<lambda>_. False)\<rparr>) demo_child demo_details
       \<lparr>written = [], room = None\<rparr> =
     Inr (\<lparr>written = [], room = None\<rparr>\<lparr>written := [] @ frame (\<lambda>_. Some []) (TaskFailed err)\<rparr>)"
  using missing_paths_fail_the_task [of "demo_host\<lparr>path_exists := (\<lambda>_. False)\<rparr>" demo_details "\<lambda>_. Some []"
      "\<lparr>written = [], room = None\<rparr>" demo_child]
  by (simp add: demo_host_def demo_details_def wf_task_def ser_total_def)

section \<open>What becomes of printed text\<close>

definition strip_cr :: "u8 list \<Rightarrow> u8 list" where
  "strip_cr l = (if l \<noteq> [] \<and> last l = 13 then butlast l else l)"

lemma next_line_Line:
  assumes "10 \<notin> set l" and "is_utf8 l"
  shows "next_line (l @ 10 # rest) = (Line (strip_cr l), rest)"
proof -
  have "takeWhile (\<lambda>b. b \<noteq> 10) (l @ 10 # rest) = l"
    using assms(1) by (subst takeWhile_append2) auto
  then show ?thesis using assms(2) by (simp add: next_line_def strip_cr_def Let_def)
qed

lemma next_line_tail:
  assumes "10 \<notin> set t" and "is_utf8 t" and "t \<noteq> []"
  shows "next_line t = (Line t, [])"
proof -
  have "takeWhile (\<lambda>b. b \<noteq> 10) t = t" using assms(1) by (auto simp: takeWhile_eq_all_conv)
  then show ?thesis using assms(2,3) by (simp only: next_line_def Let_def) simp
qed

text \<open>
  Output that is valid UTF-8 is passed on line by line: a line ending \<open>\r\n\<close> loses its carriage
  return, a last line without newline gains one, and everything else is unchanged.
\<close>

theorem text_is_echoed:
  assumes "\<forall>l \<in> set ls. 10 \<notin> set l \<and> is_utf8 l" and "10 \<notin> set t" and "is_utf8 t"
  shows "echo (concat (map (\<lambda>l. l @ [10]) ls) @ t) =
     concat (map (\<lambda>l. strip_cr l @ [10]) ls) @ (if t = [] then [] else t @ [10])"
  using assms(1)
proof (induction ls)
  case Nil
  have nil: "echo [] = []" by (subst echo.simps) (simp add: next_line_def)
  show ?case
    using next_line_tail [OF assms(2,3)] nil by (cases "t = []") (simp_all add: echo.simps [of t])
next
  case (Cons l ls)
  then show ?case by (subst echo.simps) (simp add: next_line_Line)
qed

theorem text_is_echoed_witness:
  "echo ([72, 105, 13, 10] @ [33]) = [72, 105, 10] @ [33, 10]"
  using text_is_echoed [of "[[72, 105, 13]]" "[33]"] by (simp add: strip_cr_def)

text \<open>
  A line that is not valid UTF-8 ends the stream for the executor: neither the line nor
  anything the process prints on that stream afterwards is passed on.
\<close>

theorem invalid_utf8_loses_the_rest:
  assumes "10 \<notin> set l" and "\<not> is_utf8 l"
  shows "echo (l @ 10 # rest) = []"
proof -
  have "takeWhile (\<lambda>b. b \<noteq> 10) (l @ 10 # rest) = l"
    using assms(1) by (subst takeWhile_append2) auto
  then show ?thesis using assms(2) by (subst echo.simps) (simp add: next_line_def Let_def)
qed

theorem invalid_utf8_loses_the_rest_witness:
  "echo ([0xE9] @ 10 # [101, 114, 114, 111, 114, 10]) = []"
  by (rule invalid_utf8_loses_the_rest) simp_all

end
