(* ===== verification/Exec_Session.thy ===== *)
theory Exec_Session
  imports Spray_Exec Server_System
begin

text \<open>
  A whole session of an executor: what \<open>exec_run\<close> says to the server, related to what it was
  sent.  The executor keeps to the local rule \<open>may_say\<close> that the safety of the server rests on,
  and serves every task of a session to its end.
\<close>

section \<open>Transcripts\<close>

datatype talk = Got message | Said message

fun gots :: "talk list \<Rightarrow> message list" where
  "gots [] = []"
| "gots (Got m # tr) = m # gots tr"
| "gots (Said m # tr) = gots tr"

fun saids :: "talk list \<Rightarrow> message list" where
  "saids [] = []"
| "saids (Got m # tr) = saids tr"
| "saids (Said m # tr) = m # saids tr"

text \<open>Everything said was allowed by what had been received and said by then.\<close>

fun follows :: "message list \<Rightarrow> message list \<Rightarrow> talk list \<Rightarrow> bool" where
  "follows got sent [] = True"
| "follows got sent (Got m # tr) = follows (got @ [m]) sent tr"
| "follows got sent (Said m # tr) = (may_say got sent m \<and> follows got (sent @ [m]) tr)"

lemma gots_append [simp]: "gots (a @ b) = gots a @ gots b"
  by (induction a rule: gots.induct) simp_all

lemma saids_append [simp]: "saids (a @ b) = saids a @ saids b"
  by (induction a rule: saids.induct) simp_all

lemma talk_Said [simp]:
  "saids (map Said ms) = ms" "gots (map Said ms) = []"
  "saids (map (Said \<circ> f) xs) = map f xs" "gots (map (Said \<circ> f) xs) = []"
  by (induction ms, simp_all, induction xs, simp_all, induction xs, simp_all)

lemma follows_append:
  "follows got sent (a @ b) \<longleftrightarrow> follows got sent a \<and> follows (got @ gots a) (sent @ saids a) b"
  by (induction got sent a rule: follows.induct) auto

section \<open>What is written\<close>

definition wrote :: "(message \<Rightarrow> u8 list option) \<Rightarrow> out_stream \<Rightarrow> message list \<Rightarrow> out_stream \<Rightarrow> bool" where
  "wrote ser w ms w' \<longleftrightarrow> written w' = written w @ concat (map (frame ser) ms)"

lemma wrote_Nil [simp]: "wrote ser w [] w"
  by (simp add: wrote_def)

lemma wrote_append: "wrote ser w a w1 \<Longrightarrow> wrote ser w1 b w2 \<Longrightarrow> wrote ser w (a @ b) w2"
  by (simp add: wrote_def)

lemma write_message_wrote: "write_message ser w m = Inr w' \<Longrightarrow> wrote ser w [m] w'"
  by (simp add: wrote_def write_message_appends)

text \<open>A list of outputs was written.\<close>

definition wrote_outputs :: "(message \<Rightarrow> u8 list option) \<Rightarrow> out_stream \<Rightarrow> out_stream \<Rightarrow> bool" where
  "wrote_outputs ser w w' \<longleftrightarrow> (\<exists>outs. wrote ser w (map out_msg outs) w')"

lemma wrote_outputs_refl [simp]: "wrote_outputs ser w w"
  unfolding wrote_outputs_def by (rule exI [of _ "[]"]) simp

lemma wrote_outputs_trans: "wrote_outputs ser w w1 \<Longrightarrow> wrote_outputs ser w1 w2 \<Longrightarrow> wrote_outputs ser w w2"
  unfolding wrote_outputs_def by (metis wrote_append map_append)

lemma wrote_output: "write_message ser w (TaskOutput t c) = Inr w' \<Longrightarrow> wrote_outputs ser w w'"
  unfolding wrote_outputs_def
  by (rule exI [of _ "[(t, c)]"]) (simp add: out_msg_def write_message_wrote)

lemma pump_loop_wrote: "pump_loop ser sched p = Inr p' \<Longrightarrow> wrote_outputs ser (p_w p) (p_w p')"
proof (induction ser sched p rule: pump_loop.induct)
  case (2 ser out_first sched p)
  have out: "wrote_outputs ser (p_w p) (p_w q)" if "pump_stdout ser p = Inr q" for q
    using that wrote_output by (auto simp: pump_stdout_def and_then_eq_Inr split: prod.splits line_read.splits)
  have err: "wrote_outputs ser (p_w p) (p_w q)" if "pump_stderr ser p = Inr q" for q
    using that wrote_output by (auto simp: pump_stderr_def and_then_eq_Inr split: prod.splits line_read.splits)
  show ?case
    using "2.IH" "2.prems" out err
    by (auto simp: and_then_eq_Inr split: if_splits intro: wrote_outputs_trans)
qed (simp split: if_splits)

lemma send_reads_wrote: "send_reads ser ot rs w = Inr w' \<Longrightarrow> wrote_outputs ser w w'"
  by (induction ser ot rs w rule: send_reads.induct)
    (auto simp: and_then_eq_Inr split: if_splits intro: wrote_outputs_trans wrote_output)

lemma send_output_files_wrote: "send_output_files ser reads idx fs w = Inr w' \<Longrightarrow> wrote_outputs ser w w'"
  by (induction ser reads idx fs w rule: send_output_files.induct)
    (auto simp: and_then_eq_Inr send_output_file_def split: option.splits
      intro: wrote_outputs_trans send_reads_wrote)

text \<open>The report on a task: outputs, then one final message.\<close>

definition report :: "message list \<Rightarrow> bool" where
  "report ms \<longleftrightarrow> (\<exists>outs m. ms = map out_msg outs @ [m] \<and> is_final m)"

lemma handle_new_task_wrote:
  assumes "handle_new_task ser H K d w = Inr w'"
  shows "\<exists>ms. report ms \<and> wrote ser w ms w'"
proof -
  consider (failed) err where "write_message ser w (TaskFailed err) = Inr w'"
    | (ran) fs target where "run_task ser K fs target w = Inr w'"
    using assms
    by (cases "task_start H (working_dir d) (td_cmd d) (td_args d) (output_args d) (td_env d)")
      (auto simp: handle_new_task_def and_then_eq_Inr split: fault.splits)
  then show ?thesis
  proof cases
    case failed
    then have "report [TaskFailed err]" "wrote ser w [TaskFailed err] w'"
      by (auto simp: report_def write_message_wrote)
    then show ?thesis by blast
  next
    case ran
    then obtain p :: pump and w1 code where 1: "wrote_outputs ser w (p_w p)" "wrote_outputs ser (p_w p) w1"
        "write_message ser w1 (TaskDone code target (ch_run_time K) (ch_send_time K)) = Inr w'"
      by (cases "ch_status K")
        (auto simp: run_task_def and_then_eq_Inr dest!: pump_loop_wrote send_output_files_wrote)
    then obtain outs where "wrote ser w (map out_msg outs) w1"
      using wrote_outputs_trans unfolding wrote_outputs_def by blast
    from wrote_append [OF this write_message_wrote [OF 1(3)]] show ?thesis
      by (intro exI [of _ "map out_msg outs @ [TaskDone code target (ch_run_time K) (ch_send_time K)]"])
        (auto simp: report_def)
  qed
qed

section \<open>The local rule\<close>

text \<open>An executor between two tasks: introduced, still connected, all tasks reported.\<close>

definition between_tasks :: "message list \<Rightarrow> message list \<Rightarrow> bool" where
  "between_tasks got sent \<longleftrightarrow>
     sent \<noteq> [] \<and> is_hello (hd sent) \<and> Dropped \<notin> set sent \<and> finals_in sent = tasks_in got"

lemma finals_in_outputs [simp]: "finals_in (map out_msg outs) = 0"
  by (simp add: finals_in_def out_msg_def filter_empty_conv)

lemma outputs_follow:
  assumes "sent \<noteq> []" and "is_hello (hd sent)" and "Dropped \<notin> set sent" and "finals_in sent < tasks_in got"
  shows "follows got sent (map Said (map out_msg outs))"
  using assms
proof (induction outs arbitrary: sent)
  case (Cons oc outs)
  then show ?case using Cons.IH [of "sent @ [out_msg oc]"] by (simp add: may_say_def out_msg_def)
qed simp

lemma report_follows:
  assumes "report ms" and "between_tasks got sent" and "is_task_msg t"
  shows "follows (got @ [t]) sent (map Said ms)" and "between_tasks (got @ [t]) (sent @ ms)"
proof -
  obtain outs m where ms: "ms = map out_msg outs @ [m]" and m: "is_final m"
    using assms(1) by (auto simp: report_def)
  have "follows (got @ [t]) sent (map Said (map out_msg outs))"
    using assms(2,3) by (intro outputs_follow) (simp_all add: between_tasks_def)
  then show "follows (got @ [t]) sent (map Said ms)"
    using assms(2,3) m
    by (cases m) (simp_all add: ms follows_append may_say_def between_tasks_def out_msg_def image_iff)
  show "between_tasks (got @ [t]) (sent @ ms)"
    using assms(2,3) m
    by (cases m) (auto simp: ms between_tasks_def out_msg_def)
qed

lemma exec_loop_follows:
  assumes "exec_loop ser deser H c Ks w = Inr w'" and "between_tasks got sent"
  shows "\<exists>tr. follows got sent tr \<and> wrote ser w (saids tr) w' \<and> between_tasks (got @ gots tr) (sent @ saids tr)"
  using assms
proof (induction ser deser H c Ks w arbitrary: got sent rule: exec_loop.induct)
  case (1 ser deser H c Ks w)
  note loop = "1.prems"(1) [unfolded exec_loop.simps [of ser deser H c Ks w]]
  consider (fin) "w' = w"
    | (task) c' a u d K Ks' w1 where "read_message deser c = Inr (Some (Task a u d), c')" "Ks = K # Ks'"
        "handle_new_task ser H K d w = Inr w1" "exec_loop ser deser H c' Ks' w1 = Inr w'"
    using loop by (auto split: sum.splits option.splits prod.splits message.splits list.splits)
  then show ?case
  proof cases
    case fin
    then show ?thesis using "1.prems"(2) by (intro exI [of _ "[]"]) simp
  next
    case task
    obtain ms where ms: "report ms" "wrote ser w ms w1" using handle_new_task_wrote [OF task(3)] by blast
    let ?t = "Task a u d"
    have rf: "follows (got @ [?t]) sent (map Said ms)" "between_tasks (got @ [?t]) (sent @ ms)"
      by (rule report_follows [OF ms(1) "1.prems"(2)], simp)+
    obtain tr where tr: "follows (got @ [?t]) (sent @ ms) tr" "wrote ser w1 (saids tr) w'"
        "between_tasks (got @ [?t] @ gots tr) (sent @ ms @ saids tr)"
      using "1.IH" [OF task(1) refl refl refl task(2,3)] task(4) rf(2) by fastforce
    show ?thesis
      using rf(1) tr wrote_append [OF ms(2) tr(2)]
      by (intro exI [of _ "Got ?t # map Said ms @ tr"]) (simp add: follows_append)
  qed
qed

section \<open>A session to its end\<close>

text \<open>A task that the host can run, and a child that ends and whose output can be read.\<close>

definition servable :: "task_host \<Rightarrow> task_details \<Rightarrow> child \<Rightarrow> bool" where
  "servable H d K \<longleftrightarrow>
     (\<exists>dir. host_ready H d dir) \<and> wf_task d \<and> distinct (output_args d) \<and> td_args d \<noteq> [] \<and>
     fair K \<and> (\<exists>code. ch_status K = Inr code) \<and> (\<forall>f. readable (ch_reads K) f)"

text \<open>The full report that is owed for it.\<close>

definition full_report :: "task_details \<Rightarrow> child \<Rightarrow> message list \<Rightarrow> bool" where
  "full_report d K ms \<longleftrightarrow>
     (\<exists>outs fs target code. ms = map out_msg outs @ [TaskDone code target (ch_run_time K) (ch_send_time K)] \<and>
        get_target_id d = Inr target \<and> ch_status K = Inr code \<and> length fs = length (output_args d) \<and>
        distinct fs \<and> faithful_outputs K fs outs)"

lemma servable_reported:
  assumes "ser_total ser" and "room w = None" and "servable H d K"
  obtains w' ms where "handle_new_task ser H K d w = Inr w'" "room w' = None" "full_report d K ms"
    "wrote ser w ms w'"
proof -
  obtain dir code where ok: "host_ready H d dir" "wf_task d" "distinct (output_args d)" "td_args d \<noteq> []"
      "fair K" "ch_status K = Inr code" "\<forall>f. readable (ch_reads K) f"
    using assms(3) by (auto simp: servable_def)
  obtain t where t: "task_start H (working_dir d) (td_cmd d) (td_args d) (output_args d) (td_env d) = Inr t"
      "length (output_files t) = length (output_args d)" "distinct (output_files t)"
    using task_start_ready [OF ok(1-4)] by blast
  obtain target where target: "get_target_id d = Inr target" using get_target_id_wf [OF ok(2)] by blast
  have "list_all (readable (ch_reads K)) (output_files t)" using ok(7) by (simp add: list_all_iff)
  from run_task_outputs [OF assms(1,2) ok(5,6) this, of target] obtain w' outs where
    "run_task ser K (output_files t) target w = Inr w'" "room w' = None" "faithful_outputs K (output_files t) outs"
    "written w' = written w @ concat (map (frame ser) (map out_msg outs @
       [TaskDone code target (ch_run_time K) (ch_send_time K)]))"
    by blast
  then show ?thesis
    using t target ok(6)
    by (intro that [of w' "map out_msg outs @ [TaskDone code target (ch_run_time K) (ch_send_time K)]"])
      (auto simp: handle_new_task_def full_report_def wrote_def)
qed

lemma exec_loop_serves:
  assumes "ser_total ser" and "\<forall>m \<in> set (map (Task 0 0) ds @ [PissOff]). codec_ok ser deser m"
    and "list_all data_chunk (conn_stream c)"
    and "unread c = concat (map (frame ser) (map (Task 0 0) ds @ [PissOff])) @ rest"
    and "list_all2 (servable H) ds Ks" and "room w = None"
  shows "\<exists>w' reports. exec_loop ser deser H c Ks w = Inr w' \<and> length reports = length ds \<and>
    (\<forall>i < length ds. full_report (ds ! i) (Ks ! i) (reports ! i)) \<and> wrote ser w (concat reports) w'"
  using assms(2-6)
proof (induction ds arbitrary: c Ks w)
  case Nil
  obtain c' where "read_message deser c = Inr (Some PissOff, c')"
    using read_message_codec [of ser deser PissOff c rest] Nil by auto
  then show ?case
    by (intro exI [of _ w] exI [of _ "[]"]) (simp add: exec_loop.simps [of ser deser H c])
next
  case (Cons d ds)
  obtain K Ks' where K: "Ks = K # Ks'" "servable H d K" "list_all2 (servable H) ds Ks'"
    using Cons.prems(4) by (auto simp: list_all2_Cons1)
  let ?rest = "concat (map (frame ser) (map (Task 0 0) ds @ [PissOff])) @ rest"
  obtain c1 where c1: "read_message deser c = Inr (Some (Task 0 0 d), c1)" "unread c1 = ?rest"
      "list_all data_chunk (conn_stream c1)"
    using read_message_codec [of ser deser "Task 0 0 d" c ?rest] Cons.prems(1-3) by auto
  obtain w1 ms where w1: "handle_new_task ser H K d w = Inr w1" "room w1 = None" "full_report d K ms"
      "wrote ser w ms w1"
    by (rule servable_reported [OF assms(1) Cons.prems(5) K(2)])
  obtain w' reports where IH: "exec_loop ser deser H c1 Ks' w1 = Inr w'" "length reports = length ds"
      "\<forall>i < length ds. full_report (ds ! i) (Ks' ! i) (reports ! i)" "wrote ser w1 (concat reports) w'"
    using Cons.IH [OF _ c1(3,2) K(3) w1(2)] Cons.prems(1) by auto
  have "full_report ((d # ds) ! i) ((K # Ks') ! i) ((ms # reports) ! i)" if "i < length (d # ds)" for i
    using that w1(3) IH(3) by (cases i) simp_all
  then show ?case
    using c1(1) w1(1) IH(1,2) wrote_append [OF w1(4) IH(4)]
    by (intro exI [of _ w'] exI [of _ "ms # reports"]) (simp add: K(1) exec_loop.simps [of ser deser H c])
qed

lemma exec_run_serves:
  assumes "ser_total ser" and "\<forall>m \<in> set (map (Task 0 0) ds @ [PissOff]). codec_ok ser deser m"
    and "list_all data_chunk st"
    and "stream_bytes st = concat (map (frame ser) (map (Task 0 0) ds @ [PissOff])) @ rest"
    and "list_all2 (servable H) ds Ks" and "connect (addr callme) = Inr (st, w)" and "room w = None"
  shows "\<exists>w' key reports. exec_run ser deser H key_of_toml home_dir fs connect Ks callme = Inr w' \<and>
     length reports = length ds \<and> (\<forall>i < length ds. full_report (ds ! i) (Ks ! i) (reports ! i)) \<and>
     wrote ser w (YourObedientServant (access_code callme) key # concat reports) w'"
proof -
  let ?key = "fst (load_user_private_key key_of_toml (\<lambda>_. []) False 0 False home_dir fs)"
  let ?h = "YourObedientServant (access_code callme) ?key"
  obtain data where "ser ?h = Some data" using assms(1) by (auto simp: ser_total_def)
  moreover define w1 where "w1 = w\<lparr>written := written w @ frame ser ?h\<rparr>"
  ultimately have w1: "write_message ser w ?h = Inr w1" "room w1 = None" "wrote ser w [?h] w1"
    using assms(7) by (simp_all add: write_message_bytes frame_Some wrote_def)
  obtain w' reports where "exec_loop ser deser H (new_connection st) Ks w1 = Inr w'"
      "length reports = length ds" "\<forall>i < length ds. full_report (ds ! i) (Ks ! i) (reports ! i)"
      "wrote ser w1 (concat reports) w'"
    using exec_loop_serves [OF assms(1,2) _ _ assms(5) w1(2), of "new_connection st" rest] assms(3,4)
    by (auto simp: new_connection_def unread_def)
  with w1 show ?thesis
    using assms(6) wrote_append [OF w1(3), of "concat reports" w']
    by (intro exI [of _ w'] exI [of _ ?key] exI [of _ reports]) (simp add: exec_run_def Let_def)
qed

section \<open>Properties\<close>

text \<open>A codec for the messages of a session with one task.\<close>

definition session_ser :: "message \<Rightarrow> u8 list option" where
  "session_ser m = Some (if m = PissOff then [2] else if is_task_msg m then [1] else [0])"

definition session_deser :: "u8 list \<Rightarrow> message option" where
  "session_deser bs =
     (if bs = [] then None
      else if hd bs = 2 then Some PissOff
      else if hd bs = 1 then Some (Task 0 0 demo_details) else None)"

definition session_connect :: "string \<Rightarrow> (read_res list \<times> out_stream) outcome" where
  "session_connect a = Inr ([Bytes [0, 0, 0], Bytes [1, 1, 0, 0], Bytes [0, 1, 2]], \<lparr>written = [], room = None\<rparr>)"

lemma session_codec: "codec_ok session_ser session_deser (Task 0 0 demo_details)"
  "codec_ok session_ser session_deser PissOff" "ser_total session_ser"
  by (simp_all add: codec_ok_def session_ser_def session_deser_def ser_total_def)

lemma session_bytes: "stream_bytes [Bytes [0, 0, 0], Bytes [1, 1, 0, 0], Bytes [0, 1, 2]] =
    concat (map (frame session_ser) (map (Task 0 0) [demo_details] @ [PissOff])) @ []"
  by (simp add: frame_def session_ser_def write_u32_def)

lemma session_servable: "servable demo_host demo_details demo_child"
  by (simp add: servable_def demo_child_def demo_host_def demo_details_def host_ready_def wf_task_def
      fair_def readable_def line_reads.simps next_line_def Let_def)

text \<open>
  C22: The executor keeps to its side of the protocol.  Whatever the server sends it and
  however its tasks behave, when the executor ends it has introduced itself first and once,
  has reported on a task only after it received it, and has ended the report on every task it
  received with exactly one final message before it turned to the next.
\<close>

theorem executor_keeps_to_its_side:
  assumes "connect (addr callme) = Inr (st, w)"
    and "exec_run ser deser H key_of_toml home_dir fs connect Ks callme = Inr w'"
  shows "\<exists>tr. follows [] [] tr \<and> written w' = written w @ concat (map (frame ser) (saids tr)) \<and>
     finals_in (saids tr) = tasks_in (gots tr)"
proof -
  obtain key w1 where w1: "write_message ser w (YourObedientServant (access_code callme) key) = Inr w1"
      "exec_loop ser deser H (new_connection st) Ks w1 = Inr w'"
    using assms by (auto simp: exec_run_def Let_def and_then_eq_Inr)
  let ?h = "YourObedientServant (access_code callme) key"
  have "between_tasks [] [?h]" by (simp add: between_tasks_def finals_in_def tasks_in_def)
  from exec_loop_follows [OF w1(2) this] obtain tr where
    tr: "follows [] [?h] tr" "wrote ser w1 (saids tr) w'" "between_tasks (gots tr) (?h # saids tr)"
    by auto
  have "finals_in (?h # saids tr) = tasks_in (gots tr)" using tr(3) by (simp add: between_tasks_def)
  then show ?thesis
    using tr(1) wrote_append [OF write_message_wrote [OF w1(1)] tr(2)]
    by (intro exI [of _ "Said ?h # tr"]) (simp add: wrote_def may_say_def)
qed

theorem executor_keeps_to_its_side_witness:
  "\<exists>w' tr. exec_run session_ser session_deser demo_host (\<lambda>_. None) None no_files session_connect
       [demo_child] \<lparr>addr = ''10.0.0.1:7'', access_code = 42\<rparr> = Inr w' \<and> follows [] [] tr \<and>
     written w' = concat (map (frame session_ser) (saids tr)) \<and> finals_in (saids tr) = tasks_in (gots tr)"
proof -
  let ?c = "\<lparr>addr = ''10.0.0.1:7'', access_code = 42\<rparr>"
  obtain w' where w': "exec_run session_ser session_deser demo_host (\<lambda>_. None) None no_files session_connect
      [demo_child] ?c = Inr w'"
    using exec_run_serves [OF session_codec(3) _ _ session_bytes, of session_deser demo_host "[demo_child]"
        session_connect ?c "\<lparr>written = [], room = None\<rparr>" "\<lambda>_. None" None no_files]
      session_codec(1,2) session_servable
    by (auto simp: session_connect_def)
  have "session_connect (addr ?c) =
      Inr ([Bytes [0, 0, 0], Bytes [1, 1, 0, 0], Bytes [0, 1, 2]], \<lparr>written = [], room = None\<rparr>)"
    by (simp add: session_connect_def)
  from executor_keeps_to_its_side [OF this w'] w' show ?thesis by auto
qed

text \<open>
  C21: An executor serves its whole session.  If the server sends it any number of tasks and
  then tells it to leave, cut into reads in any way, and the host can run these tasks, the
  executor ends, having introduced itself and sent the full report on every task, in the
  order of the tasks: all it printed, the content of its output files, and its exit code.
\<close>

theorem executor_serves_all_tasks:
  assumes "ser_total ser" and "\<forall>m \<in> set (map (Task 0 0) ds @ [PissOff]). codec_ok ser deser m"
    and "list_all data_chunk st"
    and "stream_bytes st = concat (map (frame ser) (map (Task 0 0) ds @ [PissOff])) @ rest"
    and "list_all2 (servable H) ds Ks" and "connect (addr callme) = Inr (st, w)" and "room w = None"
  shows "\<exists>w' key reports. exec_run ser deser H key_of_toml home_dir fs connect Ks callme = Inr w' \<and>
     length reports = length ds \<and> (\<forall>i < length ds. full_report (ds ! i) (Ks ! i) (reports ! i)) \<and>
     written w' = written w @ concat (map (frame ser)
       (YourObedientServant (access_code callme) key # concat reports))"
  using exec_run_serves [where connect = connect and callme = callme and ds = ds, OF assms,
      of key_of_toml home_dir fs]
  unfolding wrote_def .

theorem executor_serves_all_tasks_witness:
  "\<exists>w' key reports. exec_run session_ser session_deser demo_host (\<lambda>_. None) None no_files session_connect
       [demo_child] \<lparr>addr = ''10.0.0.1:7'', access_code = 42\<rparr> = Inr w' \<and>
     length reports = 1 \<and> full_report demo_details demo_child (reports ! 0) \<and>
     written w' = concat (map (frame session_ser) (YourObedientServant 42 key # concat reports))"
  using executor_serves_all_tasks [OF session_codec(3) _ _ session_bytes, of session_deser demo_host
      "[demo_child]" session_connect "\<lparr>addr = ''10.0.0.1:7'', access_code = 42\<rparr>" "\<lparr>written = [], room = None\<rparr>"
      "\<lambda>_. None" None no_files] session_codec(1,2) session_servable
  by (simp add: session_connect_def)

end
