(* ===== verification/Spray_Build.thy ===== *)
theory Spray_Build
  imports Server_Relay Spray_Client Exec_Session
begin

text \<open>
  The three parts together: an executor that works off its tasks, the server that relays its
  reports, and the client that writes them down.
\<close>

section \<open>Reports of a session\<close>

lemma reports_prefix: "prefix a b \<Longrightarrow> prefix (reports a) (reports b)"
proof (elim prefixE)
  fix c
  show "b = a @ c \<Longrightarrow> prefix (reports a) (reports b)"
  proof (induction c arbitrary: b rule: rev_induct)
    case (snoc m c)
    then have "prefix (reports a) (reports (a @ c))" by simp
    then show ?case using snoc.prems reports_simps(2) [of "a @ c" m] by (auto intro: prefix_prefix)
  qed simp
qed

lemma reports_no_drop:
  "reports (filter (\<lambda>m. m \<noteq> Dropped) ms) = reports ms \<and> current (filter (\<lambda>m. m \<noteq> Dropped) ms) = current ms"
  by (induction ms rule: rev_induct) auto

lemma cut_outputs:
  "reports (ms @ map out_msg outs) = reports ms \<and> current (ms @ map out_msg outs) = current ms @ map out_msg outs"
proof (induction outs rule: rev_induct)
  case (snoc oc outs)
  then show ?case
    using reports_simps(2,4) [of "ms @ map out_msg outs" "out_msg oc"] by (simp add: out_msg_def [of oc])
qed simp

lemma cut_full_report:
  assumes "full_report d K r"
  shows "reports (ms @ r) = reports ms @ [current ms @ r] \<and> current (ms @ r) = []"
proof -
  obtain outs t code where r: "r = map out_msg outs @ [TaskDone code t (ch_run_time K) (ch_send_time K)]"
    using assms by (auto simp: full_report_def)
  show ?thesis
    unfolding r
    using reports_simps(2,4) [of "ms @ map out_msg outs" "TaskDone code t (ch_run_time K) (ch_send_time K)"]
      cut_outputs [of ms outs] by simp
qed

lemma full_report_no_drop: "full_report d K r \<Longrightarrow> Dropped \<notin> set r"
  by (auto simp: full_report_def out_msg_def)

lemma reports_session:
  assumes "is_hello h" and "\<forall>r \<in> set rs. \<exists>d K. full_report d K r"
  shows "reports (h # concat rs) = rs \<and> current (h # concat rs) = []"
  using assms(2)
proof (induction rs rule: rev_induct)
  case Nil
  show ?case using assms(1) reports_simps(2,4) [of "[]" h] by (cases h) simp_all
next
  case (snoc r rs)
  then show ?case using cut_full_report [of _ _ r "h # concat rs"] by auto
qed

text \<open>
  An executor works off the tasks \<open>got\<close> on the runs \<open>Ks\<close>: what it has said, the loss of its
  connection aside, is the beginning of a session as \<open>exec_run\<close> produces it.
\<close>

definition works_off :: "child list \<Rightarrow> message list \<Rightarrow> message list \<Rightarrow> bool" where
  "works_off Ks got sent \<longleftrightarrow>
     (\<exists>hello ds rs. is_hello hello \<and> got = map (Task 0 0) ds \<and> length rs = length ds \<and>
        (\<forall>i < length ds. full_report (ds ! i) (Ks ! i) (rs ! i)) \<and>
        prefix (filter (\<lambda>m. m \<noteq> Dropped) sent) (hello # concat rs))"

lemma works_off_report:
  assumes "works_off Ks got sent" and "k < length (reports sent)"
  shows "k < length got" and "\<exists>d. got ! k = Task 0 0 d \<and> full_report d (Ks ! k) (reports sent ! k)"
proof -
  obtain hello ds rs where w: "is_hello hello" "got = map (Task 0 0) ds" "length rs = length ds"
      "\<forall>i < length ds. full_report (ds ! i) (Ks ! i) (rs ! i)"
      "prefix (filter (\<lambda>m. m \<noteq> Dropped) sent) (hello # concat rs)"
    using assms(1) by (auto simp: works_off_def)
  have "\<forall>r \<in> set rs. \<exists>d K. full_report d K r" using w(3,4) by (metis in_set_conv_nth)
  then have "prefix (reports sent) rs"
    using reports_prefix [OF w(5)] reports_session [OF w(1)] by (simp add: reports_no_drop)
  then have "reports sent ! k = rs ! k" "k < length ds" using assms(2) w(3) by (auto simp: prefix_def nth_append)
  then show "k < length got" "\<exists>d. got ! k = Task 0 0 d \<and> full_report d (Ks ! k) (reports sent ! k)"
    using w(2,4) by auto
qed

lemma works_off_prefix:
  assumes "works_off Ks got sent" and "prefix sent' sent"
  shows "works_off Ks got sent'"
proof -
  have "prefix (filter (\<lambda>m. m \<noteq> Dropped) sent') (filter (\<lambda>m. m \<noteq> Dropped) sent)"
    using assms(2) by (auto simp: prefix_def)
  with assms(1) show ?thesis unfolding works_off_def by (blast intro: prefix_order.trans)
qed

text \<open>The executor's code does so.\<close>

lemma exec_run_works_off:
  assumes "ser_total ser" and "\<forall>m \<in> set (map (Task 0 0) ds @ [PissOff]). codec_ok ser deser m"
    and "list_all data_chunk st"
    and "stream_bytes st = concat (map (frame ser) (map (Task 0 0) ds @ [PissOff])) @ rest"
    and "list_all2 (servable H) ds Ks" and "connect (addr callme) = Inr (st, w)" and "room w = None"
  shows "\<exists>w' ms. exec_run ser deser H key_from home_dir fs connect Ks callme = Inr w' \<and> wrote ser w ms w' \<and>
     (\<forall>sent. prefix sent ms \<longrightarrow> works_off Ks (map (Task 0 0) ds) sent)"
proof -
  obtain w' key rs where e: "exec_run ser deser H key_from home_dir fs connect Ks callme = Inr w'"
      "length rs = length ds" "\<forall>i < length ds. full_report (ds ! i) (Ks ! i) (rs ! i)"
      "wrote ser w (YourObedientServant (access_code callme) key # concat rs) w'"
    using exec_run_serves [where connect = connect and callme = callme and ds = ds, OF assms] by blast
  let ?ms = "YourObedientServant (access_code callme) key # concat rs"
  have "Dropped \<notin> set r" if "r \<in> set rs" for r
    using that e(2,3) full_report_no_drop by (metis in_set_conv_nth)
  then have no: "Dropped \<notin> set ?ms" by auto
  have "works_off Ks (map (Task 0 0) ds) sent" if "prefix sent ?ms" for sent
  proof -
    have "Dropped \<notin> set sent" using no set_mono_prefix [OF that] by blast
    then have "filter (\<lambda>m. m \<noteq> Dropped) sent = sent" by (auto intro: filter_True)
    with that e(2,3) show ?thesis
      unfolding works_off_def
      by (intro exI [of _ "YourObedientServant (access_code callme) key"] exI [of _ ds] exI [of _ rs]) simp
  qed
  then show ?thesis using e(1,4) by blast
qed

lemma faithful_out_ok:
  assumes "faithful_outputs K fs outs" and "length names = length fs"
    and "\<forall>n \<in> set names. can_create io n"
  shows "list_all (out_ok names io) outs"
proof -
  have "out_ok names io oc" if "oc \<in> set outs" for oc
  proof (cases "fst oc")
    case (File i)
    have "fst oc \<in> {Stdout, Stderr} \<union> File ` {..<length fs}"
      using assms(1) that by (auto simp: faithful_outputs_def)
    with File assms(2,3) show ?thesis by (auto simp: out_ok_def)
  qed (simp_all add: out_ok_def)
  then show ?thesis by (simp add: list_all_iff)
qed

section \<open>The client's side\<close>

text \<open>
  C23: A client keeps to its side of the protocol.  Whatever the server answers, a client that
  ends has sent one message, its task, which the rule for remotes allows as a first message;
  and a server with the access code of the contact file and the user's key does not drop it.
\<close>

theorem client_keeps_to_its_side:
  assumes "interpret_command_line which vars cwd args = Inr (local, d)" and "length args \<le> 65536"
    and "submit_and_wait R callme key d st w io = Inr (status, fs, w', io')"
  shows "\<exists>m. m = Task (access_code callme) key d \<and> written w' = written w @ frame (ser_msg R) m \<and>
     may_say [] [] m \<and> \<not> must_drop (access_code callme) key m"
proof -
  have "wf_task d" using interpret_wf [OF assms(1,2)] by simp
  then have "may_say [] [] (Task (access_code callme) key d)" by (simp add: may_say_def)
  moreover have "\<exists>w1. write_message (ser_msg R) w (Task (access_code callme) key d) = Inr w1 \<and> w' = w1"
    using assms(3) by (auto simp: submit_and_wait_def and_then_eq_Inr)
  then have "written w' = written w @ frame (ser_msg R) (Task (access_code callme) key d)"
    using write_message_wrote by (auto simp: wrote_def)
  ultimately show ?thesis by (simp add: must_drop_def)
qed

theorem client_keeps_to_its_side_witness:
  "\<exists>fs w' io'. submit_and_wait (tiny_env []) \<lparr>addr = [], access_code = 42\<rparr> 13 tiny_task
       [Bytes [0, 0, 0, 1, 1, 0], Bytes [0, 0, 1, 3]] tiny_stream tiny_io = Inr (Some 0, fs, w', io') \<and>
     written w' = frame tiny_ser (Task 42 13 tiny_task) \<and> may_say [] [] (Task 42 13 tiny_task) \<and>
     \<not> must_drop 42 13 (Task 42 13 tiny_task)"
proof -
  have i: "interpret_command_line (\<lambda>c. Some (''/usr/bin/'' @ c)) [] (Some ''/w'') [''gcc'', ''-c'', ''-o'', ''a.o''] =
      Inr (False, tiny_task)"
    by (simp add: interpret_command_line_def index_def file_name_def path_parts_def handle_gnu_def
        gnu_arg_def Let_def upt_rec tiny_task_def task_env_def)
  obtain fs w' io' where r: "submit_and_wait (tiny_env []) \<lparr>addr = [], access_code = 42\<rparr> 13 tiny_task
      [Bytes [0, 0, 0, 1, 1, 0], Bytes [0, 0, 1, 3]] tiny_stream tiny_io = Inr (Some 0, fs, w', io')"
    using client_reproduces_outputs_witness by blast
  have "ser_msg (tiny_env []) = tiny_ser" "written tiny_stream = []" by (simp_all add: tiny_defs)
  with client_keeps_to_its_side [OF i _ r] r show ?thesis by simp
qed

section \<open>A build\<close>

text \<open>The task a client that keeps to its side has submitted is well-formed.\<close>

lemma submitted_wf:
  assumes "(system_step Q bytes_add)\<^sup>*\<^sup>* (system_start s0) y" and "submitted (said y) c d"
  shows "wf_task d"
  using assms
proof (induction rule: rtranclp_induct)
  case base
  then show ?case by (simp add: submitted_def system_start_def)
next
  case (step y z)
  from step(2) obtain ev s where ev: "honest y ev" "z = (case ev of
      Inbound E i msg \<Rightarrow> \<lparr>srv = s, said = (said y)(i := said y i @ [msg])\<rparr> | _ \<Rightarrow> y\<lparr>srv := s\<rparr>)"
    by (auto simp: system_step_def system_event_def and_then_eq_Inr)
  show ?case
  proof (cases "said y c = []")
    case True
    then show ?thesis
      using ev step(4) by (auto simp: submitted_def honest_def may_say_def split: event.splits if_splits)
  next
    case False
    then have "submitted (said y) c d"
      using ev step(4) by (auto simp: submitted_def split: event.splits if_splits)
    then show ?thesis by (rule step(3))
  qed
qed

text \<open>
  What a client with a final answer ends with, in the system whose channels are unbounded.
  Of its tasks an executor may have been written only the first ones, \<open>got\<close>.
\<close>

lemma system_build:
  assumes "delivery items (said y) (srv y) c"
    and "said y c \<noteq> [] \<longrightarrow> hd (said y c) = Task (access_code callme) user_key d" and "wf_task d"
    and "\<forall>e < length (remotes (srv y)). task_msgs (remotes (srv y) ! e) \<noteq> [] \<longrightarrow>
      prefix (got e) (task_msgs (remotes (srv y) ! e)) \<and> works_off (Ks e) (got e) (said y e)"
    and "finals_in (received (srv y) c) \<noteq> 0"
    and "TaskFailed ''exec dropped connection'' \<notin> set (received (srv y) c)"
    and "distinct (output_names d)" and "\<forall>n \<in> set (output_names d). can_create io n"
    and "\<forall>m \<in> set (received (srv y) c). codec_ok (ser_msg R) (deser_msg R) m"
    and "list_all data_chunk st"
    and "stream_bytes st = concat (map (frame (ser_msg R)) (received (srv y) c))"
    and "ser_msg R (Task (access_code callme) user_key d) = Some data" and "room w = None"
  shows "\<exists>e k fs code fs' w' io'. e < length (remotes (srv y)) \<and> k < length (got e) \<and> got e ! k = Task 0 0 d \<and>
     ch_status (Ks e ! k) = Inr code \<and> length fs = length (output_args d) \<and> distinct fs \<and>
     submit_and_wait R callme user_key d st w io = Inr (code, fs', w', io') \<and>
     written w' = written w @ frame (ser_msg R) (Task (access_code callme) user_key d) \<and>
     (\<forall>i < length fs. out_files io' (output_names d ! i) =
        (if file_content (ch_reads (Ks e ! k)) (fs ! i) = [] then out_files io (output_names d ! i)
         else Some (file_content (ch_reads (Ks e ! k)) (fs ! i)))) \<and>
     (\<forall>n. n \<notin> set (output_names d) \<longrightarrow> out_files io' n = out_files io n) \<and>
     stdout_bytes io' = stdout_bytes io @ echo (ch_out (Ks e ! k)) \<and>
     stderr_bytes io' = stderr_bytes io @ echo (ch_err (Ks e ! k))"
proof -
  obtain d' e k where sub: "submitted (said y) c d'" "reported (said y) (srv y) c d' e k"
    using assms(1,5) by (auto elim!: delivery_cases simp: waits_def in_work_def received_def)
  then have e: "e < length (remotes (srv y))" "k < length (task_msgs (remotes (srv y) ! e))"
      "task_msgs (remotes (srv y) ! e) ! k = Task 0 0 d" "k < length (reports (said y e))"
      "received (srv y) c = reports (said y e) ! k"
    using assms(2,6) by (auto simp: submitted_def reported_def received_def)
  then have got: "prefix (got e) (task_msgs (remotes (srv y) ! e))" "works_off (Ks e) (got e) (said y e)"
    using assms(4) by auto
  from works_off_report [OF got(2) e(4)] got(1) e(3)
  have k: "k < length (got e)" "got e ! k = Task 0 0 d" "full_report d (Ks e ! k) (reports (said y e) ! k)"
    by (auto simp: prefix_def nth_append)
  from k(3) obtain outs fs target code where
    rep: "received (srv y) c = map out_msg outs @
        [TaskDone code target (ch_run_time (Ks e ! k)) (ch_send_time (Ks e ! k))]"
      "ch_status (Ks e ! k) = Inr code" "length fs = length (output_args d)" "distinct fs"
      "faithful_outputs (Ks e ! k) fs outs"
    unfolding e(5) [symmetric] full_report_def by blast
  have len: "length (output_names d) = length fs" using rep(3) by (simp add: output_names_def)
  obtain io' where io': "client_wait (deser_msg R) (new_connection st) (map FileName (output_names d)) io =
      Inr (code, handles (output_names d) outs, io')" "delivered (output_names d) io outs io'"
    using client_conversation [OF assms(3,7) faithful_out_ok [OF rep(5) len assms(8)]
        assms(9) [unfolded rep(1)] assms(10) assms(11) [unfolded rep(1)]] by blast
  show ?thesis
    using rep(2-5) e(1) k(1,2) io' assms(12,13) len make_output_files_wf [OF assms(3)]
    by (intro exI [of _ e] exI [of _ k] exI [of _ fs] exI [of _ code])
      (simp add: submit_and_wait_def write_message_bytes delivered_def faithful_outputs_def carries_def frame_Some)
qed

end
