(* ===== verification/Server_Grows.thy ===== *)
theory Server_Grows
  imports Server_Trust "HOL-Library.Sublist"
begin

text \<open>
  What no operation of the server does: take back a message it has put into a channel, or
  revive a receiver that has gone.
\<close>

section \<open>Channels only grow\<close>

text \<open>No operation takes a message back that was sent, or revives a receiver that has gone.\<close>

definition extends :: "channel \<Rightarrow> channel \<Rightarrow> bool" where
  "extends ch ch' \<longleftrightarrow> prefix (chan_sent ch) (chan_sent ch') \<and> (chan_open ch' \<longrightarrow> chan_open ch)"

definition grows :: "'q server_state \<Rightarrow> 'q server_state \<Rightarrow> bool" where
  "grows s s' \<longleftrightarrow>
     length (remotes s') = length (remotes s) \<and>
     (\<forall>i < length (remotes s). extends (send_chan (remotes s ! i)) (send_chan (remotes s' ! i)))"

lemma extends_refl [simp]: "extends ch ch"
  by (simp add: extends_def)

lemma extends_trans: "extends ch ch' \<Longrightarrow> extends ch' ch'' \<Longrightarrow> extends ch ch''"
  by (auto simp: extends_def)

lemma extends_send: "chan_send ch m = Inr ch' \<Longrightarrow> extends ch ch'"
  by (auto simp: chan_send_def extends_def split: if_splits)

lemma extends_simps [simp]:
  "extends ch (ch\<lparr>chan_sent := chan_sent ch @ [m]\<rparr>)" "extends ch (ch\<lparr>chan_open := False\<rparr>)"
  by (simp_all add: extends_def)

lemma nth_updated: "j < length xs \<Longrightarrow> xs[i := x] ! j = (if i = j then x else xs ! j)"
  by (cases "i = j") simp_all

lemma grows_refl [simp, intro]: "grows s s"
  by (simp add: grows_def)

lemma grows_trans: "grows s s' \<Longrightarrow> grows s' s'' \<Longrightarrow> grows s s''"
  by (auto simp: grows_def intro: extends_trans)

lemma grows_same: "remotes s' = remotes s \<Longrightarrow> grows s s'"
  by (simp add: grows_def)

lemma grows_set_remote:
  assumes "extends (send_chan (remotes s ! i)) (send_chan r)"
  shows "grows s (set_remote i r s)"
  using assms by (auto simp: grows_def set_remote_def nth_updated)

lemma index_nth: "index xs i = Inr x \<longleftrightarrow> i < length xs \<and> x = xs ! i"
  by (auto simp: index_def split: if_splits)

lemma send_to_paired_remote_grows:
  "send_to_paired_remote i m s = Inr s' \<Longrightarrow> grows s s'"
  by (auto simp: send_to_paired_remote_def and_then_eq_Inr index_nth Let_def
      split: option.splits if_splits sum.splits intro!: grows_set_remote dest: extends_send)

lemma assign_one_grows:
  assumes "assign_one Q s = Inr s'"
  shows "grows s s'"
proof -
  obtain c p e d where c: "c \<noteq> e" "remotes s' = (remotes s)[c := (remotes s ! c)\<lparr>paired_id := Some p\<rparr>,
      e := (remotes s ! e)\<lparr>paired_id := Some (word_of_nat c), send_chan := (send_chan (remotes s ! e))
        \<lparr>chan_sent := chan_sent (send_chan (remotes s ! e)) @ [Task 0 0 d]\<rparr>\<rparr>]"
    using assms
    by (auto simp: assign_one_def and_then_eq_Inr index_nth Let_def set_remote_def chan_send_def
        split: option.splits list.splits prod.splits if_splits)
  then show ?thesis by (auto simp: grows_def nth_updated)
qed

lemma release_one_grows:
  "release_one s = Inr s' \<Longrightarrow> grows s s'"
  by (auto simp: release_one_def and_then_eq_Inr index_nth grows_def set_remote_def nth_updated
      split: list.splits dest: extends_send)

lemma update_grows:
  assumes "update Q sp now s = Inr s'"
  shows "grows s s'"
proof -
  obtain s1 sp1 s2 where 1: "start_execs Q sp s = Inr (s1, sp1)" "assign_loop Q s1 = Inr s2"
      "s' = s2 \<or> release_loop s2 = Inr s'"
    using assms by (auto simp: update_def check_queues_def and_then_eq_Inr split: if_splits)
  have "only_starts s s1" using start_execs_safe [of s Q sp] 1(1) by simp
  then have "grows s s1" by (intro grows_same) (auto simp: only_starts_def)
  moreover have "grows s1 s2"
    by (rule assign_loop_keeps [OF _ 1(2), where P = "grows s1"]) (auto intro: grows_trans assign_one_grows)
  moreover have "grows s2 s'" if "release_loop s2 = Inr s'"
    by (rule release_loop_keeps [OF _ that, where P = "grows s2"]) (auto intro: grows_trans release_one_grows)
  then have "grows s2 s'" using 1(3) by blast
  ultimately show ?thesis by (blast intro: grows_trans)
qed

lemma grows_relabelled:
  assumes "grows t s'" and "remotes t = (remotes s)[i := r]" and "send_chan r = send_chan (remotes s ! i)"
  shows "grows s s'"
  using assms by (intro grows_trans [OF _ assms(1)]) (simp add: grows_def nth_updated)

lemma exec_is_ready_grows: "exec_is_ready Q E i s = Inr s' \<Longrightarrow> grows s s'"
  by (auto simp: exec_is_ready_def and_then_eq_Inr index_nth set_remote_def dest!: update_grows
      elim!: grows_relabelled [where i = i])

lemma remote_is_exec_grows: "remote_is_exec Q E i second s = Inr s' \<Longrightarrow> grows s s'"
  by (auto simp: remote_is_exec_def and_then_eq_Inr index_nth set_remote_def Let_def
      dest!: exec_is_ready_grows elim!: grows_relabelled [where i = i] split: if_splits)

lemma remote_is_client_grows: "remote_is_client Q E i d s = Inr s' \<Longrightarrow> grows s s'"
  by (auto simp: remote_is_client_def and_then_eq_Inr index_nth set_remote_def
      dest!: update_grows elim!: grows_relabelled [where i = i])

lemma handle_dropped_grows: "handle_dropped i s = Inr s' \<Longrightarrow> grows s s'"
  by (auto simp: handle_dropped_def and_then_eq_Inr index_nth set_remote_def grows_def nth_updated
      split: option.splits if_splits connection_type.splits dest!: extends_send)

text \<open>What a report does after it was passed on.\<close>

lemma report_grows:
  assumes "handle_msg Q bytes_add E i m s = Inr s'" and "is_report m"
  shows "\<exists>s0 s1. remotes s0 = remotes s \<and> send_to_paired_remote i m s0 = Inr s1 \<and> grows s1 s'"
proof (cases m)
  case (TaskOutput ot content)
  then show ?thesis
    using assms(1) by (intro exI [of _ "s\<lparr>total_bytes := bytes_add (total_bytes s) (length content),
      bytes_this_period := bytes_add (bytes_this_period s) (length content)\<rparr>"] exI [of _ s'])
      (simp add: handle_msg_def)
next
  case (TaskDone code t run_time send_time)
  let ?s = "if code = Some 0 then record_elapsed (at_record E) t run_time s else s"
  obtain s1 s2 where "send_to_paired_remote i m ?s = Inr s1" "remotes s' = remotes s2"
      "exec_is_ready Q E i (s1\<lparr>finish_count := finish_count s1 + 1\<rparr>) = Inr s2"
    using assms(1) by (auto simp: handle_msg_def and_then_eq_Inr Let_def TaskDone)
  moreover from this(3) have "grows s1 s2" by (auto simp: grows_def dest!: exec_is_ready_grows)
  moreover have "remotes ?s = remotes s" by (simp add: record_elapsed_def)
  ultimately show ?thesis by (meson grows_same grows_trans)
next
  case (TaskFailed e)
  then obtain s1 where "send_to_paired_remote i m s = Inr s1"
      "exec_is_ready Q E i (s1\<lparr>finish_count := finish_count s1 + 1\<rparr>) = Inr s'"
    using assms(1) by (auto simp: handle_msg_def and_then_eq_Inr)
  moreover from this(2) have "grows s1 s'" by (auto simp: grows_def dest!: exec_is_ready_grows)
  ultimately show ?thesis by blast
qed (use assms(2) in simp_all)

lemma handle_msg_grows:
  assumes "handle_msg Q bytes_add E i m s = Inr s'"
  shows "grows s s'"
proof (cases "is_report m")
  case True
  then obtain s0 s1 where "remotes s0 = remotes s" "send_to_paired_remote i m s0 = Inr s1" "grows s1 s'"
    using report_grows [OF assms] by blast
  then show ?thesis
    by (meson grows_same grows_trans send_to_paired_remote_grows)
next
  case False
  then show ?thesis
    using assms
    by (cases m) (auto simp: handle_msg_def dest!: remote_is_exec_grows remote_is_client_grows handle_dropped_grows
        simp: grows_def)
qed

lemma hang_up_grows: "grows s (hang_up i s)"
  by (simp add: hang_up_def grows_def set_remote_def nth_updated)

lemma inbound_handled:
  assumes "on_event Q bytes_add (Inbound E i m) s = Inr s'"
  obtains t where "handle_msg Q bytes_add E i m s = Inr t" "s' = t\<lparr>last_activity_time := at_activity E\<rparr>"
  using assms by (auto simp: on_event_def and_then_eq_Inr activity_occurred_def)

lemma on_event_grows:
  assumes "on_event Q bytes_add ev s = Inr s'" and "ev \<noteq> Accept"
  shows "grows s s'"
proof (cases ev)
  case (Inbound E i m)
  then obtain t where "handle_msg Q bytes_add E i m s = Inr t" "s' = t\<lparr>last_activity_time := at_activity E\<rparr>"
    using assms(1) inbound_handled by blast
  then show ?thesis using handle_msg_grows by (force simp: grows_def)
next
  case (Watchdog E)
  then obtain t where "update Q (spawns E) (at_check E) s = Inr t" "remotes s' = remotes t"
    using assms by (auto simp: on_event_def and_then_eq_Inr)
  then show ?thesis by (meson update_grows grows_same grows_trans)
next
  case (Hangup i)
  then show ?thesis using assms hang_up_grows [of s i] by (simp add: on_event_def)
qed (use assms(2) in simp)

lemma accept_remotes:
  "on_event Q bytes_add Accept s = Inr s' \<Longrightarrow>
   remotes s' = remotes s @ [\<lparr>conn_type = Pending, send_chan = \<lparr>chan_sent = [], chan_open = True\<rparr>, paired_id = None\<rparr>]"
  by (auto simp: on_event_def add_remote_def)

lemma grows_received:
  assumes "grows s s'" and "i < length (remotes s)"
  shows "prefix (received s i) (received s' i)"
    and "chan_open (send_chan (remotes s' ! i)) \<Longrightarrow> chan_open (send_chan (remotes s ! i))"
  using assms by (auto simp: grows_def extends_def received_def)

end
