(* ===== verification/Server_Flow.thy ===== *)
theory Server_Flow
  imports Server_Grows
begin

text \<open>
  The tasks of the server process and the bounded channels between them (\<open>run\<close> and
  \<open>handle_connection\<close> in \<open>src/src/server.rs\<close>).  The main task waits when a channel to a connection is
  full, a connection task when the channel to the main task is.  Every run is a run of the
  system of \<open>Server_System\<close>, so all that is proved of the system holds of it.
\<close>

section \<open>The tasks of the server process\<close>

text \<open>
  Where the task of a connection is in \<open>handle_connection\<close>: in \<open>select!\<close>, waiting to hand a
  message to the server, writing a message of the server to its socket, waiting to hand over
  the last \<open>Dropped\<close>, about to return, or gone.
\<close>

datatype conn_phase = Selecting | Relaying message | Writing message | Leaving | Returning | Ended

text \<open>
  The server and its remotes, the event the main task is working on, the messages in the
  channel to the main task, where each connection task is, how many messages it has taken
  out of its own channel, and everything it has read from its socket and written to it.
\<close>

record 'q flow =
  core :: "'q system"
  doing :: "event option"
  arrived :: "(nat \<times> message) list"
  phase :: "nat \<Rightarrow> conn_phase"
  taken :: "nat \<Rightarrow> nat"
  heard :: "nat \<Rightarrow> message list"
  put_out :: "nat \<Rightarrow> message list"

text \<open>The messages in the channel to a connection task, and whether all of them fit.\<close>

definition queued :: "'q flow \<Rightarrow> nat \<Rightarrow> message list" where
  "queued f i = drop (taken f i) (received (srv (core f)) i)"

definition has_room :: "nat \<Rightarrow> (nat \<Rightarrow> nat) \<Rightarrow> 'q server_state \<Rightarrow> bool" where
  "has_room cap tk s \<longleftrightarrow> (\<forall>i < length (remotes s). length (received s i) \<le> tk i + cap)"

text \<open>Both kinds of channel are created by \<open>run\<close> with this capacity.\<close>

definition chan_capacity :: nat where
  "chan_capacity = 256"

text \<open>
  The steps of the main task: accepting a connection, taking a message or an expired watchdog
  to work on, and finishing the work, which takes effect once all the messages it sends fit
  into their channels; until then the main task is blocked.  The steps of a connection task:
  reading a message (the one \<open>Dropped\<close> stands for, if its codes are wrong), handing it over,
  taking and writing a message of the server, leaving the loop at the end of the stream or
  after an error of the socket, handing over \<open>Dropped\<close>, and returning, which closes its channel;
  an error of writing makes it return at once, and a message it cannot decode ends it likewise.
\<close>

inductive flow_step ::
  "nat \<Rightarrow> 'q task_pq \<Rightarrow> (nat \<Rightarrow> nat \<Rightarrow> nat) \<Rightarrow> 'q flow \<Rightarrow> 'q flow \<Rightarrow> bool" for cap Q bytes_add where
  accepts: "doing f = None \<Longrightarrow> system_event Q bytes_add Accept (core f) = Inr y \<Longrightarrow>
    flow_step cap Q bytes_add f
      (f\<lparr>core := y, phase := (phase f)(length (remotes (srv (core f))) := Selecting)\<rparr>)"
| receives: "doing f = None \<Longrightarrow> arrived f = (i, m) # ms \<Longrightarrow>
    flow_step cap Q bytes_add f (f\<lparr>doing := Some (Inbound E i m), arrived := ms\<rparr>)"
| wakes: "doing f = None \<Longrightarrow> flow_step cap Q bytes_add f (f\<lparr>doing := Some (Watchdog E)\<rparr>)"
| finishes: "doing f = Some ev \<Longrightarrow> system_event Q bytes_add ev (core f) = Inr y \<Longrightarrow>
    has_room cap (taken f) (srv y) \<Longrightarrow> flow_step cap Q bytes_add f (f\<lparr>core := y, doing := None\<rparr>)"
| reads: "phase f i = Selecting \<Longrightarrow>
    flow_step cap Q bytes_add f
      (f\<lparr>phase := (phase f)(i := Relaying m), heard := (heard f)(i := heard f i @ [m])\<rparr>)"
| relays: "phase f i = Relaying m \<Longrightarrow> length (arrived f) < cap \<Longrightarrow>
    flow_step cap Q bytes_add f
      (f\<lparr>phase := (phase f)(i := Selecting), arrived := arrived f @ [(i, m)]\<rparr>)"
| takes: "phase f i = Selecting \<Longrightarrow> queued f i = m # ms \<Longrightarrow>
    flow_step cap Q bytes_add f
      (f\<lparr>phase := (phase f)(i := Writing m), taken := (taken f)(i := taken f i + 1)\<rparr>)"
| writes: "phase f i = Writing m \<Longrightarrow>
    flow_step cap Q bytes_add f
      (f\<lparr>phase := (phase f)(i := Selecting), put_out := (put_out f)(i := put_out f i @ [m])\<rparr>)"
| breaks: "phase f i = Selecting \<Longrightarrow>
    flow_step cap Q bytes_add f (f\<lparr>phase := (phase f)(i := Leaving)\<rparr>)"
| leaves: "phase f i = Leaving \<Longrightarrow> length (arrived f) < cap \<Longrightarrow>
    flow_step cap Q bytes_add f
      (f\<lparr>phase := (phase f)(i := Returning), arrived := arrived f @ [(i, Dropped)],
         heard := (heard f)(i := heard f i @ [Dropped])\<rparr>)"
| quits: "phase f i = Returning \<or> phase f i = Selecting \<or> (\<exists>m. phase f i = Writing m) \<Longrightarrow>
    system_event Q bytes_add (Hangup i) (core f) = Inr y \<Longrightarrow>
    flow_step cap Q bytes_add f (f\<lparr>core := y, phase := (phase f)(i := Ended)\<rparr>)"

definition flow_start :: "'q server_state \<Rightarrow> 'q flow" where
  "flow_start s0 = \<lparr>core = system_start s0, doing = None, arrived = [], phase = (\<lambda>_. Ended),
     taken = (\<lambda>_. 0), heard = (\<lambda>_. []), put_out = (\<lambda>_. [])\<rparr>"

text \<open>
  What is assumed of the environment, as in \<open>honest\<close>: there are fewer than \<open>2 ^ 32\<close> connections,
  remotes say what they may say given what they were sent, durations can be added up, and
  a connection task has returned when its \<open>Dropped\<close> is handled.
\<close>

definition civil :: "'q flow \<Rightarrow> 'q flow \<Rightarrow> bool" where
  "civil f f' \<longleftrightarrow>
     length (remotes (srv (core f))) < 2 ^ 32 \<and>
     (\<forall>i m. heard f' i = heard f i @ [m] \<longrightarrow>
        may_say (take (taken f i) (received (srv (core f)) i)) (heard f i) m) \<and>
     (\<forall>E i m. doing f = Some (Inbound E i m) \<and> doing f' = None \<longrightarrow>
        sums_fit (srv (core f)) m \<and> (m = Dropped \<longrightarrow> \<not> chan_open (send_chan (remotes (srv (core f)) ! i))))"

definition civil_step ::
  "nat \<Rightarrow> 'q task_pq \<Rightarrow> (nat \<Rightarrow> nat \<Rightarrow> nat) \<Rightarrow> 'q flow \<Rightarrow> 'q flow \<Rightarrow> bool" where
  "civil_step cap Q bytes_add f f' \<longleftrightarrow> flow_step cap Q bytes_add f f' \<and> civil f f'"

section \<open>What holds in every state\<close>

text \<open>The messages of a remote that were read and not handled yet, oldest first.\<close>

definition in_hand :: "'q flow \<Rightarrow> nat \<Rightarrow> message list" where
  "in_hand f i =
     (case doing f of Some (Inbound E j m) \<Rightarrow> if j = i then [m] else [] | _ \<Rightarrow> []) @
     map snd (filter (\<lambda>(j, _). j = i) (arrived f)) @
     (case phase f i of Relaying m \<Rightarrow> [m] | _ \<Rightarrow> [])"

text \<open>No channel holds more than its capacity; the channel of a task that has gone is closed.\<close>

definition within_bounds :: "nat \<Rightarrow> 'q flow \<Rightarrow> bool" where
  "within_bounds cap f \<longleftrightarrow>
     doing f \<noteq> Some Accept \<and> length (arrived f) \<le> cap \<and> has_room cap (taken f) (srv (core f)) \<and>
     (\<forall>i < length (remotes (srv (core f))).
        taken f i \<le> length (received (srv (core f)) i) \<and>
        (phase f i = Ended \<longrightarrow> \<not> chan_open (send_chan (remotes (srv (core f)) ! i)))) \<and>
     (\<forall>i \<ge> length (remotes (srv (core f))). phase f i = Ended \<and> taken f i = 0)"

lemma system_event_srv:
  "system_event Q bytes_add ev y = Inr y' \<Longrightarrow> on_event Q bytes_add ev (srv y) = Inr (srv y')"
  by (cases ev) (auto simp: system_event_def and_then_eq_Inr)

lemma hangup_srv: "system_event Q bytes_add (Hangup i) y = Inr y' \<longleftrightarrow> y' = y\<lparr>srv := hang_up i (srv y)\<rparr>"
  by (auto simp: system_event_def on_event_def)

lemma hang_up_received [simp]:
  "received (hang_up i s) j = received s j" "length (remotes (hang_up i s)) = length (remotes s)"
  "paired_id (remotes (hang_up i s) ! j) = paired_id (remotes s ! j)"
  "conn_type (remotes (hang_up i s) ! j) = conn_type (remotes s ! j)"
  by (cases "i = j"; auto simp: received_def hang_up_def set_remote_def)+

lemma hang_up_open [simp]:
  "j < length (remotes s) \<Longrightarrow>
   chan_open (send_chan (remotes (hang_up i s) ! j)) \<longleftrightarrow> j \<noteq> i \<and> chan_open (send_chan (remotes s ! j))"
  by (cases "i = j") (auto simp: hang_up_def set_remote_def)

lemma bounds_event:
  assumes "within_bounds cap f" and "on_event Q bytes_add ev (srv (core f)) = Inr (srv y)" and "ev \<noteq> Accept"
    and "has_room cap (taken f) (srv y)"
  shows "within_bounds cap (f\<lparr>core := y, doing := None\<rparr>)"
proof -
  have g: "grows (srv (core f)) (srv y)" by (rule on_event_grows [OF assms(2,3)])
  then have n: "length (remotes (srv y)) = length (remotes (srv (core f)))" by (simp add: grows_def)
  have "taken f i \<le> length (received (srv y) i)" if "i < length (remotes (srv y))" for i
    using that assms(1) grows_received(1) [OF g, of i] by (fastforce simp: within_bounds_def n dest: prefix_length_le)
  then show ?thesis
    using assms(1,4) grows_received(2) [OF g] by (auto simp: within_bounds_def n)
qed

lemma flow_step_bounds:
  assumes "flow_step cap Q bytes_add f f'" and "within_bounds cap f"
  shows "within_bounds cap f'"
  using assms
proof (induction rule: flow_step.induct)
  case (accepts f y)
  then show ?case
    using accept_remotes [OF system_event_srv [OF accepts(2)]]
    by (auto simp: within_bounds_def has_room_def received_def nth_append less_Suc_eq)
next
  case (finishes f ev y)
  then show ?case by (intro bounds_event [OF finishes(4) system_event_srv [OF finishes(2)]]) (auto simp: within_bounds_def)
next
  case (takes f i m ms)
  have "taken f i < length (received (srv (core f)) i)"
    using takes(2) by (metis queued_def drop_all list.distinct(1) not_le)
  moreover have "length (received (srv (core f)) i) \<le> Suc (taken f i + cap)" if "i < length (remotes (srv (core f)))"
    using takes(3) that by (auto simp: within_bounds_def has_room_def)
  ultimately show ?case
    using takes(1,3) by (auto simp: within_bounds_def has_room_def)
next
  case (quits f i y)
  then show ?case
    by (auto simp: within_bounds_def has_room_def hangup_srv)
qed (auto simp: within_bounds_def)

text \<open>
  What was written to a socket are the first messages the server sent to that remote; only a
  task that has gone may have lost the one it was writing.
\<close>

definition written_in_order :: "'q flow \<Rightarrow> bool" where
  "written_in_order f \<longleftrightarrow>
     (\<forall>i < length (remotes (srv (core f))).
        prefix (put_out f i) (received (srv (core f)) i) \<and>
        (phase f i \<noteq> Ended \<longrightarrow>
           put_out f i @ (case phase f i of Writing m \<Rightarrow> [m] | _ \<Rightarrow> []) = take (taken f i) (received (srv (core f)) i))) \<and>
     (\<forall>i \<ge> length (remotes (srv (core f))). put_out f i = [])"

lemma take_prefix_same: "prefix xs ys \<Longrightarrow> n \<le> length xs \<Longrightarrow> take n ys = take n xs"
  by (auto simp: prefix_def)

lemma flow_step_written:
  assumes "flow_step cap Q bytes_add f f'" and "within_bounds cap f" and "written_in_order f"
  shows "written_in_order f'"
  using assms
proof (induction rule: flow_step.induct)
  case (accepts f y)
  then show ?case
    using accept_remotes [OF system_event_srv [OF accepts(2)]]
    by (auto simp: written_in_order_def within_bounds_def received_def nth_append less_Suc_eq)
next
  case (finishes f ev y)
  then have g: "grows (srv (core f)) (srv y)"
    by (intro on_event_grows [OF system_event_srv [OF finishes(2)]]) (auto simp: within_bounds_def)
  then have n: "length (remotes (srv y)) = length (remotes (srv (core f)))" by (simp add: grows_def)
  have "take (taken f i) (received (srv y) i) = take (taken f i) (received (srv (core f)) i)"
    if "i < length (remotes (srv y))" for i
    using that finishes(4) grows_received(1) [OF g, of i] by (intro take_prefix_same) (auto simp: within_bounds_def n)
  then show ?case
    using finishes(5) grows_received(1) [OF g] by (auto simp: written_in_order_def n intro: prefix_order.trans)
next
  case (takes f i m ms)
  have i: "i < length (remotes (srv (core f)))"
    using takes(1,3) unfolding within_bounds_def by (metis conn_phase.distinct(9) not_le)
  have "taken f i < length (received (srv (core f)) i)" "received (srv (core f)) i ! taken f i = m"
    using takes(2) by (auto simp: queued_def nth_via_drop dest: arg_cong [where f = length])
  then have "put_out f i @ [m] = take (Suc (taken f i)) (received (srv (core f)) i)"
    using takes(1,4) i by (auto simp: written_in_order_def take_Suc_conv_app_nth)
  then show ?case using takes(4) by (auto simp: written_in_order_def)
next
  case (writes f i m)
  have i: "i < length (remotes (srv (core f)))"
    using writes(1,2) unfolding within_bounds_def by (metis conn_phase.distinct not_le)
  then have "put_out f i @ [m] = take (taken f i) (received (srv (core f)) i)"
    using writes(1,3) by (auto simp: written_in_order_def)
  then have "prefix (put_out f i @ [m]) (received (srv (core f)) i)" by (simp add: take_is_prefix)
  then show ?case using writes(1,3) i \<open>put_out f i @ [m] = _\<close> by (auto simp: written_in_order_def)
next
  case (quits f i y)
  then show ?case by (auto simp: written_in_order_def hangup_srv)
qed (auto simp: written_in_order_def)

text \<open>Everything heard keeps to the rule for remotes.\<close>

definition rule_kept :: "'q server_state \<Rightarrow> (nat \<Rightarrow> message list) \<Rightarrow> bool" where
  "rule_kept s told \<longleftrightarrow>
     (\<forall>i k. k < length (told i) \<longrightarrow>
        i < length (remotes s) \<and> may_say (received s i) (take k (told i)) (told i ! k))"

lemma may_say_mono: "may_say got sd m \<Longrightarrow> tasks_in got \<le> tasks_in got' \<Longrightarrow> may_say got' sd m"
  by (auto simp: may_say_def split: message.splits)

lemma tasks_in_prefix: "prefix ms ms' \<Longrightarrow> tasks_in ms \<le> tasks_in ms'"
  by (auto simp: tasks_in_def prefix_def)

lemma rule_kept_grows:
  assumes "rule_kept s told" and "grows s s'"
  shows "rule_kept s' told"
proof -
  have "may_say (received s' i) (take k (told i)) (told i ! k)" if "k < length (told i)" for i k
    using assms(1) that grows_received(1) [OF assms(2), of i]
    by (auto simp: rule_kept_def intro: may_say_mono tasks_in_prefix)
  then show ?thesis using assms by (auto simp: rule_kept_def grows_def)
qed

lemma rule_kept_accept:
  assumes "rule_kept s told" and "on_event Q bytes_add Accept s = Inr s'"
  shows "rule_kept s' told"
  using assms(1) accept_remotes [OF assms(2)] by (auto simp: rule_kept_def received_def nth_append less_Suc_eq)

lemma rule_kept_says:
  assumes "rule_kept s told" and "may_say (take n (received s i)) (told i) m" and "i < length (remotes s)"
  shows "rule_kept s (told(i := told i @ [m]))"
proof -
  have "prefix (take n (received s i)) (received s i)" by (rule take_is_prefix)
  then have "may_say (received s i) (told i) m" using assms(2) may_say_mono tasks_in_prefix by blast
  then show ?thesis using assms(1,3) by (auto simp: rule_kept_def nth_append less_Suc_eq)
qed

text \<open>What was read is what was handled and what is on its way, and all of it was allowed.\<close>

definition conversations :: "'q flow \<Rightarrow> bool" where
  "conversations f \<longleftrightarrow>
     (\<forall>i. heard f i = said (core f) i @ in_hand f i) \<and> rule_kept (srv (core f)) (heard f)"

lemma handling_keeps_to_rule:
  assumes "conversations f" and "doing f = Some (Inbound E i m)"
  shows "i < length (remotes (srv (core f)))" and "may_say (received (srv (core f)) i) (said (core f) i) m"
proof -
  let ?k = "length (said (core f) i)"
  have h: "heard f i = said (core f) i @ in_hand f i" using assms(1) by (simp add: conversations_def)
  then have "?k < length (heard f i)" "heard f i ! ?k = m" "take ?k (heard f i) = said (core f) i"
    using assms(2) by (simp_all add: in_hand_def)
  then show "i < length (remotes (srv (core f)))" "may_say (received (srv (core f)) i) (said (core f) i) m"
    using assms(1) unfolding conversations_def rule_kept_def by metis+
qed

lemma handled_honest:
  assumes "conversations f" and "doing f = Some ev" and "doing f' = None" and "civil f f'"
  shows "honest (core f) ev"
proof (cases ev)
  case (Inbound E i m)
  then show ?thesis
    using handling_keeps_to_rule [OF assms(1)] assms(2-4) by (simp add: honest_def civil_def)
qed (use assms(4) in \<open>simp_all add: honest_def civil_def\<close>)

lemma finish_conversations:
  assumes "conversations f" and "doing f = Some ev" and "system_event Q bytes_add ev (core f) = Inr y"
    and "ev \<noteq> Accept"
  shows "conversations (f\<lparr>core := y, doing := None\<rparr>)"
proof -
  have "rule_kept (srv y) (heard f)"
    using assms(1) rule_kept_grows on_event_grows [OF system_event_srv [OF assms(3)] assms(4)]
    by (auto simp: conversations_def)
  then show ?thesis
    using assms by (cases ev) (auto simp: conversations_def in_hand_def system_event_def and_then_eq_Inr)
qed

text \<open>A connection task reads a message, or sends its last one.\<close>

lemma says_conversations:
  assumes "conversations f" and "civil f f'" and "core f' = core f" and "i < length (remotes (srv (core f)))"
    and "heard f' = (heard f)(i := heard f i @ [m])"
    and "\<And>j. in_hand f' j = in_hand f j @ (if j = i then [m] else [])"
  shows "conversations f'"
proof -
  have "may_say (take (taken f i) (received (srv (core f)) i)) (heard f i) m"
    using assms(2) by (simp add: civil_def assms(5))
  then have "rule_kept (srv (core f')) (heard f')"
    using assms(1,3,4) rule_kept_says [of "srv (core f)" "heard f"] by (simp add: conversations_def assms(5))
  moreover have "heard f' j = said (core f') j @ in_hand f' j" for j
    using assms(1,3) by (simp add: conversations_def assms(5,6))
  ultimately show ?thesis by (simp add: conversations_def)
qed

lemma accept_conversations:
  assumes "conversations f" and "doing f = None" and "system_event Q bytes_add Accept (core f) = Inr y"
    and "phase f (length (remotes (srv (core f)))) = Ended"
  shows "conversations (f\<lparr>core := y, phase := (phase f)(length (remotes (srv (core f))) := Selecting)\<rparr>)"
proof -
  have "said y = said (core f)" using assms(3) by (auto simp: system_event_def and_then_eq_Inr)
  then show ?thesis
    using assms rule_kept_accept [OF _ system_event_srv [OF assms(3)]] by (auto simp: conversations_def in_hand_def)
qed

lemma quit_conversations:
  assumes "conversations f" and "system_event Q bytes_add (Hangup i) (core f) = Inr y"
    and "phase f i = Returning \<or> phase f i = Selecting \<or> (\<exists>m. phase f i = Writing m)"
  shows "conversations (f\<lparr>core := y, phase := (phase f)(i := Ended)\<rparr>)"
proof -
  have "grows (srv (core f)) (srv y)" using on_event_grows [OF system_event_srv [OF assms(2)]] by simp
  moreover have "said y = said (core f)" using assms(2) by (simp add: hangup_srv)
  ultimately show ?thesis using assms(1,3) rule_kept_grows by (auto simp: conversations_def in_hand_def)
qed

lemma civil_step_system:
  assumes "civil_step cap Q bytes_add f f'" and "within_bounds cap f" and "conversations f"
  shows "conversations f' \<and> (system_step Q bytes_add)\<^sup>*\<^sup>* (core f) (core f')"
proof -
  have civ: "civil f f'" and st: "flow_step cap Q bytes_add f f'" using assms(1) by (simp_all add: civil_step_def)
  have step: "(system_step Q bytes_add)\<^sup>*\<^sup>* (core f) y" if "honest (core f) ev" "system_event Q bytes_add ev (core f) = Inr y" for ev y
    using that by (intro r_into_rtranclp) (auto simp: system_step_def)
  have at: "i < length (remotes (srv (core f)))" if "phase f i \<noteq> Ended" for i
    using assms(2) that unfolding within_bounds_def by (meson not_le)
  have quiet: "honest (core f) Accept" "honest (core f) (Hangup i)" for i
    using civ by (simp_all add: honest_def civil_def)
  from st show ?thesis
  proof (cases rule: flow_step.cases)
    case (accepts y)
    then show ?thesis
      using step [OF quiet(1)] at accept_conversations [OF assms(3) accepts(2,3)] by auto
  next
    case (finishes ev y)
    have "honest (core f) ev"
      using finishes(2) by (intro handled_honest [OF assms(3) _ _ civ]) (simp_all add: finishes(1))
    moreover have "ev \<noteq> Accept" using assms(2) finishes(2) by (auto simp: within_bounds_def)
    ultimately show ?thesis
      using step finishes finish_conversations [OF assms(3) finishes(2,3)] by simp
  next
    case (reads i m)
    then show ?thesis
      using at [of i] says_conversations [OF assms(3) civ, of i m] by (auto simp: in_hand_def)
  next
    case (leaves i)
    then show ?thesis
      using at [of i] says_conversations [OF assms(3) civ, of i Dropped] by (auto simp: in_hand_def)
  next
    case (quits i y)
    then show ?thesis using step [OF quiet(2)] quit_conversations [OF assms(3) quits(3,2)] by simp
  qed (use assms(3) in \<open>auto simp: conversations_def in_hand_def split: event.splits\<close>)
qed

section \<open>Runs\<close>

lemma flow_start_ok: "remotes s0 = [] \<Longrightarrow> within_bounds cap (flow_start s0) \<and> conversations (flow_start s0)"
  by (simp add: flow_start_def within_bounds_def has_room_def conversations_def in_hand_def rule_kept_def system_start_def)

lemma flow_run_written:
  assumes "remotes s0 = []" and "(civil_step cap Q bytes_add)\<^sup>*\<^sup>* (flow_start s0) f"
  shows "within_bounds cap f \<and> written_in_order f"
  using assms(2)
proof (induction rule: rtranclp_induct)
  case base
  show ?case
    using flow_start_ok [OF assms(1)] assms(1) by (simp add: flow_start_def written_in_order_def system_start_def)
next
  case (step f f')
  then show ?case using flow_step_bounds flow_step_written by (auto simp: civil_step_def)
qed

lemma flow_run:
  assumes "remotes s0 = []" and "(civil_step cap Q bytes_add)\<^sup>*\<^sup>* (flow_start s0) f"
  shows "within_bounds cap f \<and> conversations f \<and> (system_step Q bytes_add)\<^sup>*\<^sup>* (system_start s0) (core f)"
  using assms(2)
proof (induction rule: rtranclp_induct)
  case base
  show ?case
    using flow_start_ok [OF assms(1)] by (simp add: flow_start_def)
next
  case (step f f')
  then have "flow_step cap Q bytes_add f f'" by (simp add: civil_step_def)
  then show ?case
    using step flow_step_bounds civil_step_system [OF step(2)] by (meson rtranclp_trans)
qed

text \<open>The simulation of the system by its tasks and channels, as an instance of the locale.\<close>

sublocale server_queue < chan: simulation "civil_step cap Q bytes_add" "\<lambda>f. within_bounds cap f \<and> conversations f"
    "system_step Q bytes_add" "\<lambda>y. inv (srv y) \<and> system_agrees y" core for cap bytes_add
proof unfold_locales
  fix f f' assume f: "within_bounds cap f \<and> conversations f" "civil_step cap Q bytes_add f f'"
  show "within_bounds cap f' \<and> conversations f'" "(system_step Q bytes_add)\<^sup>*\<^sup>* (core f) (core f')"
    using f civil_step_system [OF f(2)] flow_step_bounds by (auto simp: civil_step_def)
qed (rule sys.cinv_step)

context server_queue
begin

lemma flow_reached:
  assumes "(civil_step cap Q bytes_add)\<^sup>*\<^sup>* (flow_start s0) f" and "fresh Q s0"
  shows "within_bounds cap f \<and> conversations f" and "inv (srv (core f)) \<and> system_agrees (core f)"
proof -
  have start: "within_bounds cap (flow_start s0) \<and> conversations (flow_start s0)"
    using assms(2) by (intro flow_start_ok) (simp add: fresh_def)
  show "within_bounds cap f \<and> conversations f" by (rule chan.refines(1) [OF assms(1) start])
  show "inv (srv (core f)) \<and> system_agrees (core f)"
    using fresh_inv [OF assms(2)] agrees_start [of s0] assms(2)
    by (intro chan.transfers [OF assms(1) start]) (simp add: flow_start_def system_start_def fresh_def)
qed

end

section \<open>A run\<close>

text \<open>Steps with remotes that keep to their side.\<close>

lemma civil_accepts:
  assumes "doing f = None" and "system_event Q bytes_add Accept (core f) = Inr y"
    and "length (remotes (srv (core f))) < 2 ^ 32"
  shows "civil_step cap Q bytes_add f (f\<lparr>core := y, phase := (phase f)(length (remotes (srv (core f))) := Selecting)\<rparr>)"
  using flow_step.accepts [OF assms(1,2)] assms(1,3) by (simp add: civil_step_def civil_def)

lemma civil_reads:
  assumes "phase f i = Selecting" and "may_say (take (taken f i) (received (srv (core f)) i)) (heard f i) m"
    and "length (arrived f) < cap" and "length (remotes (srv (core f))) < 2 ^ 32"
  shows "(civil_step cap Q bytes_add)\<^sup>*\<^sup>* f
    (f\<lparr>arrived := arrived f @ [(i, m)], heard := (heard f)(i := heard f i @ [m])\<rparr>)"
proof -
  let ?g = "f\<lparr>phase := (phase f)(i := Relaying m), heard := (heard f)(i := heard f i @ [m])\<rparr>"
  have "civil_step cap Q bytes_add f ?g"
    using flow_step.reads [OF assms(1)] assms(2,4) by (auto simp: civil_step_def civil_def split: if_splits)
  moreover have "civil_step cap Q bytes_add ?g (?g\<lparr>phase := (phase ?g)(i := Selecting), arrived := arrived ?g @ [(i, m)]\<rparr>)"
    using flow_step.relays [of ?g i m cap Q bytes_add] assms(3,4) by (auto simp: civil_step_def civil_def)
  moreover have "?g\<lparr>phase := (phase ?g)(i := Selecting), arrived := arrived ?g @ [(i, m)]\<rparr> =
      f\<lparr>arrived := arrived f @ [(i, m)], heard := (heard f)(i := heard f i @ [m])\<rparr>"
    using assms(1) by (cases f) (simp add: fun_upd_idem)
  ultimately show ?thesis by (metis (no_types, lifting) converse_rtranclp_into_rtranclp r_into_rtranclp)
qed

lemma civil_receives:
  assumes "doing f = None" and "arrived f = (i, m) # ms" and "length (remotes (srv (core f))) < 2 ^ 32"
  shows "civil_step cap Q bytes_add f (f\<lparr>doing := Some (Inbound E i m), arrived := ms\<rparr>)"
  using flow_step.receives [OF assms(1,2)] assms by (simp add: civil_step_def civil_def)

lemma civil_finishes:
  assumes "doing f = Some (Inbound E i m)" and "system_event Q bytes_add (Inbound E i m) (core f) = Inr y"
    and "has_room cap (taken f) (srv y)" and "length (remotes (srv (core f))) < 2 ^ 32"
    and "sums_fit (srv (core f)) m" and "m \<noteq> Dropped"
  shows "civil_step cap Q bytes_add f (f\<lparr>core := y, doing := None\<rparr>)"
  using flow_step.finishes [OF assms(1-3)] assms by (simp add: civil_step_def civil_def)

lemma civil_message:
  assumes "doing f = None" and "arrived f = []" and "phase f i = Selecting"
    and "may_say (take (taken f i) (received (srv (core f)) i)) (heard f i) m" and "0 < cap"
    and "length (remotes (srv (core f))) < 2 ^ 32"
    and "system_event Q bytes_add (Inbound E i m) (core f) = Inr y" and "has_room cap (taken f) (srv y)"
    and "sums_fit (srv (core f)) m" and "m \<noteq> Dropped"
  shows "(civil_step cap Q bytes_add)\<^sup>*\<^sup>* f (f\<lparr>core := y, heard := (heard f)(i := heard f i @ [m])\<rparr>)"
proof -
  let ?g = "f\<lparr>arrived := [(i, m)], heard := (heard f)(i := heard f i @ [m])\<rparr>"
  have "(civil_step cap Q bytes_add)\<^sup>*\<^sup>* f ?g" using civil_reads [OF assms(3,4) _ assms(6)] assms(2,5) by simp
  moreover have "civil_step cap Q bytes_add ?g (?g\<lparr>doing := Some (Inbound E i m), arrived := []\<rparr>)"
    using assms(1,6) by (intro civil_receives) simp_all
  moreover have "civil_step cap Q bytes_add (?g\<lparr>doing := Some (Inbound E i m), arrived := []\<rparr>)
      (?g\<lparr>doing := Some (Inbound E i m), arrived := [], core := y, doing := None\<rparr>)"
    using assms(6-10) by (intro civil_finishes) simp_all
  moreover have "?g\<lparr>doing := Some (Inbound E i m), arrived := [], core := y, doing := None\<rparr> =
      f\<lparr>core := y, heard := (heard f)(i := heard f i @ [m])\<rparr>"
    using assms(1,2) by (cases f) simp
  ultimately show ?thesis by (metis (no_types, lifting) rtranclp.rtrancl_into_rtrancl)
qed

lemma civil_delivers:
  assumes "phase f i = Selecting" and "queued f i = m # ms" and "length (remotes (srv (core f))) < 2 ^ 32"
  shows "(civil_step cap Q bytes_add)\<^sup>*\<^sup>* f
    (f\<lparr>taken := (taken f)(i := taken f i + 1), put_out := (put_out f)(i := put_out f i @ [m])\<rparr>)"
proof -
  let ?g = "f\<lparr>phase := (phase f)(i := Writing m), taken := (taken f)(i := taken f i + 1)\<rparr>"
  let ?h = "?g\<lparr>phase := (phase ?g)(i := Selecting), put_out := (put_out ?g)(i := put_out ?g i @ [m])\<rparr>"
  have "civil_step cap Q bytes_add f ?g"
    using flow_step.takes [OF assms(1,2)] assms(3) by (auto simp: civil_step_def civil_def)
  moreover have "civil_step cap Q bytes_add ?g ?h"
    using flow_step.writes [of ?g i m] assms(3) by (auto simp: civil_step_def civil_def)
  moreover have "?h = f\<lparr>taken := (taken f)(i := taken f i + 1), put_out := (put_out f)(i := put_out f i @ [m])\<rparr>"
    using assms(1) by (cases f) (simp add: fun_upd_idem)
  ultimately show ?thesis by (metis (no_types, lifting) converse_rtranclp_into_rtranclp r_into_rtranclp)
qed

definition empty_output :: message where
  "empty_output = TaskOutput Stdout []"

text \<open>Executor 0 works for client 1, which was sent \<open>n\<close> messages that its task has not taken.\<close>

definition streaming :: "nat \<Rightarrow> 'q flow \<Rightarrow> bool" where
  "streaming n f \<longleftrightarrow>
     remotes (srv (core f)) =
       [\<lparr>conn_type = Exec, send_chan = \<lparr>chan_sent = [Task 0 0 demo_task], chan_open = True\<rparr>, paired_id = Some 1\<rparr>,
        \<lparr>conn_type = Client, send_chan = \<lparr>chan_sent = replicate n empty_output, chan_open = True\<rparr>, paired_id = Some 0\<rparr>] \<and>
     phase f 0 = Selecting \<and> phase f 1 = Selecting \<and> taken f 0 = 1 \<and> taken f 1 = 0 \<and>
     heard f 0 \<noteq> [] \<and> is_hello (hd (heard f 0)) \<and> Dropped \<notin> set (heard f 0) \<and> finals_in (heard f 0) = 0 \<and>
     heard f 1 = [Task 42 7 demo_task]"

lemma streaming_may_say:
  "streaming n f \<Longrightarrow> may_say (take (taken f 0) (received (srv (core f)) 0)) (heard f 0) empty_output"
  by (simp add: streaming_def may_say_def received_def tasks_in_def empty_output_def)

lemma streaming_step:
  assumes "streaming n f" and "doing f = None" and "arrived f = []" and "n < cap"
  shows "\<exists>f'. (civil_step cap demo_queue (+))\<^sup>*\<^sup>* f f' \<and> streaming (Suc n) f' \<and> doing f' = None \<and> arrived f' = []"
proof -
  let ?s = "srv (core f)"
  obtain y where y: "system_event demo_queue (+) (Inbound demo_env 0 empty_output) (core f) = Inr y"
      "remotes (srv y) =
       [\<lparr>conn_type = Exec, send_chan = \<lparr>chan_sent = [Task 0 0 demo_task], chan_open = True\<rparr>, paired_id = Some 1\<rparr>,
        \<lparr>conn_type = Client, send_chan = \<lparr>chan_sent = replicate (Suc n) empty_output, chan_open = True\<rparr>, paired_id = Some 0\<rparr>]"
    using assms(1)
    by (simp add: streaming_def system_event_def on_event_def handle_msg_def send_to_paired_remote_def index_def
        chan_send_def set_remote_def activity_occurred_def empty_output_def replicate_append_same)
  have "(civil_step cap demo_queue (+))\<^sup>*\<^sup>* f (f\<lparr>core := y, heard := (heard f)(0 := heard f 0 @ [empty_output])\<rparr>)"
    using assms streaming_may_say [OF assms(1)]
    by (intro civil_message [OF _ _ _ _ _ _ y(1)])
      (auto simp: streaming_def has_room_def y(2) received_def less_Suc_eq sums_fit_def empty_output_def)
  then show ?thesis
    using assms y(2)
    by (intro exI [of _ "f\<lparr>core := y, heard := (heard f)(0 := heard f 0 @ [empty_output])\<rparr>"])
      (simp add: streaming_def empty_output_def)
qed

lemma streaming_many:
  assumes "streaming 0 f" and "doing f = None" and "arrived f = []" and "n \<le> cap"
  shows "\<exists>f'. (civil_step cap demo_queue (+))\<^sup>*\<^sup>* f f' \<and> streaming n f' \<and> doing f' = None \<and> arrived f' = []"
  using assms(4)
proof (induction n)
  case 0
  then show ?case using assms(1-3) by blast
next
  case (Suc n)
  then obtain f1 where "(civil_step cap demo_queue (+))\<^sup>*\<^sup>* f f1" "streaming n f1" "doing f1 = None" "arrived f1 = []"
    by auto
  then show ?case using streaming_step [of n f1 cap] Suc.prems by (meson Suc_le_lessD rtranclp_trans)
qed

lemma stream_arrives:
  assumes "streaming n f" and "length (arrived f) < cap"
  shows "\<exists>f'. (civil_step cap demo_queue (+))\<^sup>*\<^sup>* f f' \<and> streaming n f' \<and> doing f' = doing f \<and>
     arrived f' = arrived f @ [(0, empty_output)]"
proof -
  have "(civil_step cap demo_queue (+))\<^sup>*\<^sup>* f
      (f\<lparr>arrived := arrived f @ [(0, empty_output)], heard := (heard f)(0 := heard f 0 @ [empty_output])\<rparr>)"
    using assms streaming_may_say [OF assms(1)] by (intro civil_reads) (auto simp: streaming_def)
  then show ?thesis
    using assms(1)
    by (intro exI [of _ "f\<lparr>arrived := arrived f @ [(0, empty_output)], heard := (heard f)(0 := heard f 0 @ [empty_output])\<rparr>"])
      (simp add: streaming_def empty_output_def)
qed

lemma stream_fills:
  assumes "streaming n f" and "arrived f = []" and "k \<le> cap"
  shows "\<exists>f'. (civil_step cap demo_queue (+))\<^sup>*\<^sup>* f f' \<and> streaming n f' \<and> doing f' = doing f \<and>
     arrived f' = replicate k (0, empty_output)"
  using assms(3)
proof (induction k)
  case 0
  then show ?case using assms by auto
next
  case (Suc k)
  then obtain f1 where "(civil_step cap demo_queue (+))\<^sup>*\<^sup>* f f1" "streaming n f1" "doing f1 = doing f"
      "arrived f1 = replicate k (0, empty_output)" by auto
  then show ?case
    using stream_arrives [of n f1 cap] Suc.prems
    by (metis Suc_le_lessD length_replicate replicate_Suc replicate_append_same rtranclp_trans)
qed

definition demo_core :: "nat \<Rightarrow> (task_item \<times> duration) list system" where
  "demo_core k = the (run_system demo_queue (+) (take k demo_busy) (system_start demo_start))"

lemmas core_simps = demo_core_def demo_defs server_simps system_simps wf_task_def

lemma demo_core_start: "demo_core 0 = system_start demo_start"
  by (simp add: demo_core_def)

lemma demo_core_events:
  "system_event demo_queue (+) Accept (demo_core 0) = Inr (demo_core 1)"
  "system_event demo_queue (+) Accept (demo_core 1) = Inr (demo_core 2)"
  "system_event demo_queue (+) (Inbound demo_env 0 (YourObedientServant 42 7)) (demo_core 2) = Inr (demo_core 3)"
  "system_event demo_queue (+) (Inbound demo_env 1 (Task 42 7 demo_task)) (demo_core 3) = Inr (demo_core 4)"
  by (simp_all add: core_simps)

lemma demo_core_remotes:
  "remotes (srv (demo_core 0)) = []" "length (remotes (srv (demo_core 1))) = 1"
  "remotes (srv (demo_core 2)) = [demo_remote Pending, demo_remote Pending]"
  "remotes (srv (demo_core 3)) = [demo_remote Exec, demo_remote Pending]"
  "remotes (srv (demo_core 4)) =
     [\<lparr>conn_type = Exec, send_chan = \<lparr>chan_sent = [Task 0 0 demo_task], chan_open = True\<rparr>, paired_id = Some 1\<rparr>,
      \<lparr>conn_type = Client, send_chan = \<lparr>chan_sent = [], chan_open = True\<rparr>, paired_id = Some 0\<rparr>]"
  "sums_fit (srv (demo_core 3)) (Task 42 7 demo_task)"
  by (simp_all add: core_simps demo_remote_def)

text \<open>The executor has been written its task and has said nothing of it.\<close>

definition demo_flow :: "(task_item \<times> duration) list flow" where
  "demo_flow = \<lparr>core = demo_core 4, doing = None, arrived = [], phase = (\<lambda>_. Ended)(0 := Selecting, 1 := Selecting),
     taken = (\<lambda>_. 0)(0 := 1), heard = (\<lambda>_. [])(0 := [YourObedientServant 42 7], 1 := [Task 42 7 demo_task]),
     put_out = (\<lambda>_. [])(0 := [Task 0 0 demo_task])\<rparr>"

lemma demo_flow_run:
  assumes "0 < cap"
  shows "(civil_step cap demo_queue (+))\<^sup>*\<^sup>* (flow_start demo_start) demo_flow"
proof -
  let ?C = "civil_step cap demo_queue (+)"
  define f0 where "f0 = flow_start demo_start"
  define f1 where "f1 = f0\<lparr>core := demo_core 1, phase := (phase f0)(0 := Selecting)\<rparr>"
  define f2 where "f2 = f1\<lparr>core := demo_core 2, phase := (phase f1)(1 := Selecting)\<rparr>"
  define f3 where "f3 = f2\<lparr>core := demo_core 3, heard := (heard f2)(0 := heard f2 0 @ [YourObedientServant 42 7])\<rparr>"
  define f4 where "f4 = f3\<lparr>core := demo_core 4, heard := (heard f3)(1 := heard f3 1 @ [Task 42 7 demo_task])\<rparr>"
  have wf: "wf_task demo_task" by (simp add: demo_task_def wf_task_def)
  note D = f0_def f1_def f2_def f3_def f4_def flow_start_def
  have "?C f0 f1"
    using civil_accepts [of f0 demo_queue "(+)" "demo_core 1"] demo_core_events(1) demo_core_remotes(1)
    by (simp add: D demo_core_start)
  moreover have "?C f1 f2"
    using civil_accepts [of f1 demo_queue "(+)" "demo_core 2"] demo_core_events(2) demo_core_remotes(2)
    by (simp add: D)
  moreover have "?C\<^sup>*\<^sup>* f2 f3"
    unfolding f3_def
    by (rule civil_message [where E = demo_env])
      (simp_all add: D assms demo_core_events demo_core_remotes may_say_def has_room_def sums_fit_def demo_remote_def
        received_def less_Suc_eq)
  moreover have "?C\<^sup>*\<^sup>* f3 f4"
    unfolding f4_def
    by (rule civil_message [where E = demo_env])
      (use assms in \<open>auto simp: D demo_core_events [unfolded One_nat_def] demo_core_remotes may_say_def has_room_def
        demo_remote_def received_def less_Suc_eq wf\<close>)
  moreover have "?C\<^sup>*\<^sup>* f4 demo_flow"
    using civil_delivers [of f4 0 "Task 0 0 demo_task" "[]" cap demo_queue "(+)"]
    by (simp add: D demo_flow_def queued_def received_def demo_core_remotes fun_upd_twist)
  ultimately show ?thesis
    unfolding f0_def by (meson converse_rtranclp_into_rtranclp rtranclp_trans)
qed

lemma stream_starts:
  assumes "0 < cap"
  shows "\<exists>f. (civil_step cap demo_queue (+))\<^sup>*\<^sup>* (flow_start demo_start) f \<and> streaming 0 f \<and> doing f = None \<and> arrived f = []"
  using demo_flow_run [OF assms]
  by (intro exI [of _ demo_flow]) (simp add: demo_flow_def streaming_def demo_core_remotes finals_in_def)



end
