(* ===== verification/Spray_Farm.thy ===== *)
theory Spray_Farm
  imports Spray_Build Server_Flow
begin

text \<open>
  The farm: the server process with its connection tasks and bounded channels, executors
  that work off what is written to their sockets, and a client that reads what is written to
  its own.
\<close>

section \<open>A build\<close>


text \<open>The executor prints a line and sends one output file; a codec for these messages.\<close>

definition demo_output :: "message list" where
  "demo_output = [TaskOutput Stdout [104, 105, 10], TaskOutput (File 0) [7], TaskDone (Some 0) ''a.o'' 9 2]"

definition demo_build :: "event list" where
  "demo_build = demo_busy @ map (Inbound demo_env 0) demo_output"

definition demo_compile :: child where
  "demo_compile = demo_child\<lparr>ch_reads := (\<lambda>_. Some [Bytes [7]]), ch_run_time := 9, ch_send_time := 2\<rparr>"

definition build_ser :: "message \<Rightarrow> u8 list option" where
  "build_ser m = Some (if m = demo_output ! 0 then [1] else if m = demo_output ! 1 then [2]
     else if m = demo_output ! 2 then [3] else [4])"

definition build_deser :: "u8 list \<Rightarrow> message option" where
  "build_deser bs = (if bs = [] then None else if hd bs = 1 then Some (demo_output ! 0)
     else if hd bs = 2 then Some (demo_output ! 1) else if hd bs = 3 then Some (demo_output ! 2) else None)"

definition build_env :: client_env where
  "build_env = (tiny_env [])\<lparr>ser_msg := build_ser, deser_msg := build_deser\<rparr>"

lemma all_less_two: "(\<forall>e < (2::nat). P e) \<longleftrightarrow> P 0 \<and> P 1"
  by (auto simp: less_2_cases_iff)

lemma build_codec: "\<forall>m \<in> set demo_output. codec_ok build_ser build_deser m"
  by (simp add: codec_ok_def build_ser_def build_deser_def demo_output_def)

lemmas build_simps = demo_build_def demo_output_def demo_defs server_simps system_simps wf_task_def
  send_to_paired_remote_def record_elapsed_def history_update_def

text \<open>The server when it has handled \<open>k\<close> of these messages, and the tasks when the client was written \<open>p\<close>.\<close>

definition build_core :: "nat \<Rightarrow> (task_item \<times> duration) list system" where
  "build_core k = the (run_system demo_queue (+) (take (4 + k) demo_build) (system_start demo_start))"

definition farm :: "nat \<Rightarrow> nat \<Rightarrow> (task_item \<times> duration) list flow" where
  "farm k p = \<lparr>core = build_core k, doing = None, arrived = [], phase = (\<lambda>_. Ended)(0 := Selecting, 1 := Selecting),
     taken = (\<lambda>_. 0)(0 := 1, 1 := p),
     heard = (\<lambda>_. [])(0 := YourObedientServant 42 7 # take k demo_output, 1 := [Task 42 7 demo_task]),
     put_out = (\<lambda>_. [])(0 := [Task 0 0 demo_task], 1 := take p demo_output)\<rparr>"

lemma demo_flow_farm: "demo_flow = farm 0 0"
  by (auto simp: demo_flow_def farm_def build_core_def demo_core_def demo_build_def demo_defs fun_eq_iff)

lemma three_cases: "k < (3::nat) \<longleftrightarrow> k = 0 \<or> k = 1 \<or> k = 2"
  by auto

lemma build_core_remotes:
  "k \<le> 3 \<Longrightarrow> remotes (srv (build_core k)) =
     [\<lparr>conn_type = Exec, send_chan = \<lparr>chan_sent = [Task 0 0 demo_task], chan_open = True\<rparr>,
        paired_id = if k = 3 then None else Some 1\<rparr>,
      \<lparr>conn_type = Client, send_chan = \<lparr>chan_sent = take k demo_output, chan_open = True\<rparr>, paired_id = Some 0\<rparr>]"
  by (auto simp: le_less three_cases build_core_def build_simps)

lemma build_core_event:
  "k < 3 \<Longrightarrow> system_event demo_queue (+) (Inbound demo_env 0 (demo_output ! k)) (build_core k) = Inr (build_core (Suc k))"
  by (auto simp: three_cases build_core_def build_simps)

lemma build_core_fits: "k < 3 \<Longrightarrow> sums_fit (srv (build_core k)) (demo_output ! k)"
  by (auto simp: three_cases build_core_def build_simps)


lemma farm_says:
  assumes "k < 3" and "3 \<le> cap"
  shows "(civil_step cap demo_queue (+))\<^sup>*\<^sup>* (farm k 0) (farm (Suc k) 0)"
proof -
  have "length demo_output = 3" by (simp add: demo_output_def)
  then have next_one: "take (Suc k) demo_output = take k demo_output @ [demo_output ! k]"
    using assms(1) by (simp add: take_Suc_conv_app_nth)
  have ev: "system_event demo_queue (+) (Inbound demo_env 0 (demo_output ! k)) (core (farm k 0)) = Inr (build_core (Suc k))"
    using build_core_event [OF assms(1)] by (simp add: farm_def)
  have say: "may_say [Task 0 0 demo_task] (YourObedientServant 42 7 # take k demo_output) (demo_output ! k)"
    using assms(1) by (auto simp: three_cases may_say_def demo_output_def finals_in_def tasks_in_def)
  have nd: "demo_output ! k \<noteq> Dropped" using assms(1) by (auto simp: three_cases demo_output_def)
  have "(civil_step cap demo_queue (+))\<^sup>*\<^sup>* (farm k 0) ((farm k 0)\<lparr>core := build_core (Suc k),
      heard := (heard (farm k 0))(0 := heard (farm k 0) 0 @ [demo_output ! k])\<rparr>)"
    by (rule civil_message [OF _ _ _ _ _ _ ev])
      (use assms say nd in \<open>auto simp: farm_def build_core_remotes build_core_fits received_def has_room_def less_Suc_eq
        \<open>length demo_output = 3\<close>\<close>)
  moreover have "(farm k 0)\<lparr>core := build_core (Suc k),
      heard := (heard (farm k 0))(0 := heard (farm k 0) 0 @ [demo_output ! k])\<rparr> = farm (Suc k) 0"
    by (simp add: farm_def next_one fun_upd_twist)
  ultimately show ?thesis by simp
qed

lemma farm_writes:
  assumes "p < 3"
  shows "(civil_step cap demo_queue (+))\<^sup>*\<^sup>* (farm 3 p) (farm 3 (Suc p))"
proof -
  have len: "length demo_output = 3" by (simp add: demo_output_def)
  then have next_one: "take (Suc p) demo_output = take p demo_output @ [demo_output ! p]"
    "queued (farm 3 p) 1 = demo_output ! p # drop (Suc p) demo_output"
    using assms by (simp_all add: take_Suc_conv_app_nth queued_def farm_def received_def build_core_remotes Cons_nth_drop_Suc)
  have "(civil_step cap demo_queue (+))\<^sup>*\<^sup>* (farm 3 p) ((farm 3 p)\<lparr>taken := (taken (farm 3 p))(1 := taken (farm 3 p) 1 + 1),
      put_out := (put_out (farm 3 p))(1 := put_out (farm 3 p) 1 @ [demo_output ! p])\<rparr>)"
    by (rule civil_delivers [OF _ next_one(2)]) (simp_all add: farm_def build_core_remotes)
  moreover have "(farm 3 p)\<lparr>taken := (taken (farm 3 p))(1 := taken (farm 3 p) 1 + 1),
      put_out := (put_out (farm 3 p))(1 := put_out (farm 3 p) 1 @ [demo_output ! p])\<rparr> = farm 3 (Suc p)"
    by (simp add: farm_def next_one fun_upd_twist)
  ultimately show ?thesis by simp
qed

lemma farm_run: "(civil_step chan_capacity demo_queue (+))\<^sup>*\<^sup>* (flow_start demo_start) (farm 3 3)"
proof -
  let ?C = "civil_step chan_capacity demo_queue (+)"
  have cap: "0 < chan_capacity" "3 \<le> chan_capacity" by (simp_all add: chan_capacity_def)
  have "?C\<^sup>*\<^sup>* (farm 0 0) (farm 3 0)"
    using farm_says [OF _ cap(2), of 0] farm_says [OF _ cap(2), of 1] farm_says [OF _ cap(2), of 2]
    by (simp add: numeral_3_eq_3 numeral_2_eq_2)
  moreover have "?C\<^sup>*\<^sup>* (farm 3 0) (farm 3 3)"
    using farm_writes [of 0 chan_capacity] farm_writes [of 1 chan_capacity] farm_writes [of 2 chan_capacity]
    by (simp add: numeral_3_eq_3 numeral_2_eq_2)
  ultimately show ?thesis
    using demo_flow_run [OF cap(1)] unfolding demo_flow_farm by (meson rtranclp_trans)
qed

lemma demo_output_report: "full_report demo_task demo_compile demo_output"
proof -
  have "demo_output = map out_msg [(Stdout, [104, 105, 10]), (File 0, [7])] @
      [TaskDone (Some 0) ''a.o'' (ch_run_time demo_compile) (ch_send_time demo_compile)]"
    by (simp add: demo_output_def out_msg_def demo_compile_def)
  moreover have "faithful_outputs demo_compile [''/tmp/x/a.o''] [(Stdout, [104, 105, 10]), (File 0, [7])]"
    by (simp add: faithful_outputs_def chunks_def carries_def file_content_def demo_compile_def demo_child_def
        echo.simps next_line_def Let_def)
  ultimately show ?thesis
    unfolding full_report_def
    by (intro exI [of _ "[(Stdout, [104, 105, 10]), (File 0, [7])]"] exI [of _ "[''/tmp/x/a.o'']"]
        exI [of _ "''a.o''"] exI [of _ "Some 0"])
      (simp add: demo_compile_def demo_child_def demo_task_def get_target_id_def arg_at_def)
qed

lemma demo_works_off: "works_off [demo_compile] [Task 0 0 demo_task] (YourObedientServant 42 7 # demo_output)"
  unfolding works_off_def
  by (intro exI [of _ "YourObedientServant 42 7"] exI [of _ "[demo_task]"] exI [of _ "[demo_output]"])
    (simp add: demo_output_report, simp add: demo_output_def)

lemma farm_remotes:
  "remotes (srv (core (farm 3 3))) =
     [\<lparr>conn_type = Exec, send_chan = \<lparr>chan_sent = [Task 0 0 demo_task], chan_open = True\<rparr>, paired_id = None\<rparr>,
      \<lparr>conn_type = Client, send_chan = \<lparr>chan_sent = demo_output, chan_open = True\<rparr>, paired_id = Some 0\<rparr>]"
  "put_out (farm 3 3) 0 = [Task 0 0 demo_task]" "put_out (farm 3 3) 1 = demo_output"
  "heard (farm 3 3) 0 = YourObedientServant 42 7 # demo_output" "heard (farm 3 3) 1 = [Task 42 7 demo_task]"
  by (simp_all add: farm_def build_core_remotes demo_output_def)

lemma farm_works_off:
  "\<forall>e < length (remotes (srv (core (farm 3 3)))). task_msgs (remotes (srv (core (farm 3 3))) ! e) \<noteq> [] \<longrightarrow>
     works_off [demo_compile] (filter is_task_msg (put_out (farm 3 3) e)) (heard (farm 3 3) e)"
proof (intro allI impI)
  fix e assume "e < length (remotes (srv (core (farm 3 3))))" "task_msgs (remotes (srv (core (farm 3 3))) ! e) \<noteq> []"
  then have "e = 0" by (auto simp: farm_remotes(1) task_msgs_def demo_output_def less_Suc_eq)
  then show "works_off [demo_compile] (filter is_task_msg (put_out (farm 3 3) e)) (heard (farm 3 3) e)"
    using demo_works_off by (simp add: farm_remotes)
qed


end
