(* ===== verification/Server_Progress.thy ===== *)
theory Server_Progress
  imports Server_Relay
begin

text \<open>
  The server makes progress: as long as an executor is connected and executors report on what
  they were given, every task that was submitted is answered, one with each report.
\<close>

section \<open>What is outstanding\<close>

text \<open>The clients whose task waits or is being worked on.\<close>

definition outstanding :: "('q \<Rightarrow> (task_item \<rightharpoonup> duration)) \<Rightarrow> 'q server_state \<Rightarrow> nat set" where
  "outstanding items s =
     fst ` dom (items (task_queue s)) \<union> {c. \<exists>e < length (remotes s). works_for (remotes s ! e) = Some c}"

lemma outstanding_sched:
  "outstanding items s = waiting (sched_of items s) \<union> ran (running (sched_of items s))"
  by (auto simp: outstanding_def sched_of_def at_remote_def ran_def split: if_splits)

lemma running_sched:
  "running (sched_of items s) e = (if e < length (remotes s) then works_for (remotes s ! e) else None)"
  by (simp add: sched_of_def at_remote_def)

text \<open>
  \<open>settles s s'\<close>: from \<open>s\<close> to \<open>s'\<close> tasks were given out, but no role and no receiver changed,
  and only executors were sent something.
\<close>

definition settles :: "('q \<Rightarrow> (task_item \<rightharpoonup> duration)) \<Rightarrow> 'q server_state \<Rightarrow> 'q server_state \<Rightarrow> bool" where
  "settles items s s' \<longleftrightarrow>
     length (remotes s') = length (remotes s) \<and> outstanding items s' = outstanding items s \<and>
     set (exec_queue s') \<subseteq> set (exec_queue s) \<and>
     (\<forall>j < length (remotes s). conn_type (remotes s' ! j) = conn_type (remotes s ! j) \<and>
        chan_open (send_chan (remotes s' ! j)) = chan_open (send_chan (remotes s ! j)) \<and>
        (conn_type (remotes s ! j) \<noteq> Exec \<longrightarrow>
           chan_sent (send_chan (remotes s' ! j)) = chan_sent (send_chan (remotes s ! j))))"

lemma settles_same:
  "remotes s' = remotes s \<Longrightarrow> task_queue s' = task_queue s \<Longrightarrow> exec_queue s' = exec_queue s \<Longrightarrow>
     settles items s s'"
  by (simp add: settles_def outstanding_def)

lemma settles_trans: "settles items s s' \<Longrightarrow> settles items s' s'' \<Longrightarrow> settles items s s''"
  by (auto simp: settles_def)

lemma settlesD:
  assumes "settles items s s'" and "j < length (remotes s)"
  shows "conn_type (remotes s' ! j) = conn_type (remotes s ! j)"
    "chan_open (send_chan (remotes s' ! j)) = chan_open (send_chan (remotes s ! j))"
    "conn_type (remotes s ! j) \<noteq> Exec \<Longrightarrow>
       chan_sent (send_chan (remotes s' ! j)) = chan_sent (send_chan (remotes s ! j))"
  using assms by (auto simp: settles_def)

definition open_queue :: "'q server_state \<Rightarrow> bool" where
  "open_queue s \<longleftrightarrow> (\<forall>e \<in> set (exec_queue s). chan_open (send_chan (remotes s ! e)))"

section \<open>Updates that complete\<close>

lemma spawn_loop_exact: "spawn_loop (\<lambda>k. k < T) (replicate (T - n) True @ r) n = Inr (max n T, r)"
proof (induction "T - n" arbitrary: n)
  case 0
  then show ?case by (cases r) (simp_all add: max_def)
next
  case (Suc m)
  then have "T - n = Suc (T - Suc n)" by simp
  moreover have "spawn_loop (\<lambda>k. k < T) (replicate (T - Suc n) True @ r) (Suc n) = Inr (max (Suc n) T, r)"
    using Suc.hyps(1) [of "Suc n"] Suc.hyps(2) by simp
  ultimately show ?case using Suc.hyps(2) by (simp add: max_def)
qed

lemma start_execs_in_queue_completes:
  assumes "alt \<longrightarrow> second_start_cmd s \<noteq> None"
  shows "\<exists>sp s'. \<forall>r. start_execs_in_queue Q alt keep (sp @ r) s = Inr (s', r)"
proof (cases alt)
  case True
  then obtain cmd where "second_start_cmd s = Some cmd" using assms by auto
  then show ?thesis
    using True spawn_loop_exact [of "exec_target Q s (pending_exec_count s) keep" "second_pending_exec_count s"]
    by (intro exI [of _ "replicate (exec_target Q s (pending_exec_count s) keep - second_pending_exec_count s) True"])
      (simp add: start_second_queue_eq)
next
  case False
  then show ?thesis
    using spawn_loop_exact [of "exec_target Q s (second_pending_exec_count s) keep" "pending_exec_count s"]
    by (intro exI [of _ "replicate (exec_target Q s (second_pending_exec_count s) keep - pending_exec_count s) True"])
      (simp add: start_queue_eq)
qed

lemma start_execs_completes: "\<exists>sp s' sp'. start_execs Q sp s = Inr (s', sp') \<and> only_starts s s'"
proof -
  let ?keep = "max (keep_pending (user_config s))
    (max (initial_count (user_config s)) (running_exec_count s) - running_exec_count s)"
  obtain sp s1 where one: "\<And>keep r. start_execs_in_queue Q False keep (sp keep @ r) s = Inr (s1 keep, r)"
    using start_execs_in_queue_completes [of False s Q] by metis
  have os: "only_starts s (s1 keep)" for keep
    using start_execs_in_queue_safe [of False s Q keep "sp keep"] one [of keep "[]"] by simp
  show ?thesis
  proof (cases "pq_is_empty Q (task_queue s) \<or> second_start_cmd s = None")
    case True
    then show ?thesis
      using one [of ?keep "[]"] os
      by (cases "pq_is_empty Q (task_queue s)")
        (auto simp: start_execs_def Let_def intro!: exI [of _ "sp ?keep"])
  next
    case False
    let ?half = "(?keep + 1) div 2"
    have "second_start_cmd (s1 ?half) \<noteq> None" using False only_starts_keeps(3) [OF os] by simp
    then obtain sp2 s2 where "\<And>r. start_execs_in_queue Q True ?half (sp2 @ r) (s1 ?half) = Inr (s2, r)"
      using start_execs_in_queue_completes [of True "s1 ?half" Q ?half] by metis
    from one [of ?half sp2] this [of "[]"] have "start_execs Q (sp ?half @ sp2) s = Inr (s2, [])"
      using False by (simp add: start_execs_def Let_def)
    then show ?thesis using start_execs_safe [of s Q "sp ?half @ sp2"] by auto
  qed
qed

context server_queue
begin

lemma assign_one_settles:
  assumes "inv s" and "assign_one Q s = Inr s'"
  shows "settles items s s'" "exec_queue s' = tl (exec_queue s)" "last_submit_time s' = last_submit_time s"
proof -
  note D = server_invD [OF assms(1)]
  obtain c d p q e es where pop: "pq_pop Q (task_queue s) = Some (((c, d), p), q)"
    and eq: "exec_queue s = e # es"
    and cd: "(c, d) \<in> dom (items (task_queue s))" "c < length (remotes s)" "e < length (remotes s)" "c \<noteq> e"
      "conn_type (remotes s ! c) = Client \<or> conn_type (remotes s ! c) = Dead" "conn_type (remotes s ! e) = Exec"
      "paired_id (remotes s ! e) = None"
    and s': "s' = s\<lparr>task_queue := q, exec_queue := es,
       remotes := (remotes s)[c := (remotes s ! c)\<lparr>paired_id := Some (word_of_nat e)\<rparr>,
         e := (remotes s ! e)\<lparr>paired_id := Some (word_of_nat c), send_chan := (send_chan (remotes s ! e))
           \<lparr>chan_sent := chan_sent (send_chan (remotes s ! e)) @ [Task 0 0 d]\<rparr>\<rparr>]\<rparr>"
    by (rule assign_one_returns [OF assms])
  have u: "unat (word_of_nat c :: u32) = c" using cd(2) D(2) by (intro unat_id) simp
  have w: "fst ` dom (items q) = fst ` dom (items (task_queue s)) - {c}"
    using task_queueD(6) [OF wiringD(2) [OF D(3)] cd(1)] unfolding dom_pop(1) [OF D(1) pop] by force
  have len: "length (remotes s') = length (remotes s)" by (simp add: s')
  have works: "works_for (remotes s' ! j) = (if j = e then Some c else works_for (remotes s ! j))"
    if "j < length (remotes s)" for j
    using that cd(2-6) u by (auto simp: s' works_for_def nth_list_update)
  have idle: "works_for (remotes s ! e) = None" using cd(7) by (simp add: works_for_def)
  have run: "(\<exists>j < length (remotes s'). works_for (remotes s' ! j) = Some x) \<longleftrightarrow>
      (\<exists>j < length (remotes s). works_for (remotes s ! j) = Some x) \<or> x = c" for x
    unfolding len using works cd(3) idle by (metis option.inject option.distinct(1))
  have c: "c \<in> fst ` dom (items (task_queue s))" using cd(1) by force
  have "items (task_queue s') = items q" by (simp add: s')
  then have "outstanding items s' = outstanding items s"
    unfolding outstanding_def run using w c by auto
  moreover have "conn_type (remotes s' ! j) = conn_type (remotes s ! j)"
    "chan_open (send_chan (remotes s' ! j)) = chan_open (send_chan (remotes s ! j))"
    "conn_type (remotes s ! j) \<noteq> Exec \<Longrightarrow>
      chan_sent (send_chan (remotes s' ! j)) = chan_sent (send_chan (remotes s ! j))"
    if "j < length (remotes s)" for j
    using that cd(2-6) by (auto simp: s' nth_list_update)
  ultimately show "settles items s s'" using list.set_sel(2) by (auto simp: settles_def len s' eq)
  show "exec_queue s' = tl (exec_queue s)" "last_submit_time s' = last_submit_time s"
    by (simp_all add: s' eq)
qed

lemma assign_to_open:
  assumes "inv s" and "\<not> pq_is_empty Q (task_queue s)" and "exec_queue s = e # es"
    and "chan_open (send_chan (remotes s ! e))"
  shows "\<exists>s'. assign_one Q s = Inr s'"
proof -
  note D = server_invD [OF assms(1)]
  obtain c d p q where pop: "pq_pop Q (task_queue s) = Some (((c, d), p), q)"
    by (rule pop_nonempty [OF D(1) assms(2)]) (metis surj_pair)
  have c: "c < length (remotes s)" "paired_id (remotes s ! c) = None" "c \<noteq> e" "wf_task d"
    using task_queueD [OF wiringD(2) [OF D(3)] dom_pop(2) [OF D(1) pop]] assms(3) by auto
  have e: "e < length (remotes s)" "paired_id (remotes s ! e) = None"
    using exec_queueD(2,3) [OF wiringD(1) [OF D(3)], of e] assms(3) by auto
  show ?thesis
    using assms(4) assign_one_eq [OF pop assms(3) c(1) e(1) c(3,4,2) e(2)] by (simp add: chan_send_def)
qed

lemma assign_loop_completes:
  assumes "inv s" and "open_queue s"
  shows "\<exists>s'. assign_loop Q s = Inr s' \<and> settles items s s' \<and> last_submit_time s' = last_submit_time s"
  using assms
proof (induction "length (exec_queue s)" arbitrary: s rule: less_induct)
  case less
  show ?case
  proof (cases "\<not> pq_is_empty Q (task_queue s) \<and> exec_queue s \<noteq> []")
    case True
    then obtain e es where eq: "exec_queue s = e # es" by (cases "exec_queue s") auto
    obtain s1 where s1: "assign_one Q s = Inr s1"
      using assign_to_open [OF less.prems(1) _ eq] True less.prems(2) by (auto simp: open_queue_def eq)
    note S = assign_one_settles [OF less.prems(1) s1]
    have "inv s1" using assign_one_inv [OF less.prems(1)] True s1 by auto
    moreover have "open_queue s1"
      using less.prems(2) S(2) settlesD(2) [OF S(1)] exec_queueD(2) [OF wiringD(1) [OF server_invD(3) [OF less.prems(1)]]]
      by (auto simp: open_queue_def eq)
    ultimately obtain s2 where "assign_loop Q s1 = Inr s2" "settles items s1 s2"
        "last_submit_time s2 = last_submit_time s1"
      using less.hyps [OF assign_one_shrinks [OF s1]] by blast
    then show ?thesis
      using True s1 S(3) settles_trans [OF S(1)] by (subst assign_loop.simps) auto
  qed (auto simp: assign_loop.simps [of Q s] intro: settles_same)
qed

text \<open>With enough successful spawns and before the release delay is over, \<open>update\<close> completes.\<close>

lemma update_completes:
  assumes "inv s" and "open_queue s"
  shows "\<exists>sp now s'. update Q sp now s = Inr s' \<and> settles items s s'"
proof -
  obtain sp s1 sp' where s1: "start_execs Q sp s = Inr (s1, sp')" "only_starts s s1"
    using start_execs_completes by blast
  have same: "remotes s1 = remotes s" "exec_queue s1 = exec_queue s" "task_queue s1 = task_queue s"
    using s1(2) by (auto simp: only_starts_def)
  obtain s2 where s2: "assign_loop Q s1 = Inr s2" "settles items s1 s2" "last_submit_time s2 = last_submit_time s1"
    using assign_loop_completes [of s1] assms only_starts_keeps(1) [OF s1(2)] same by (auto simp: open_queue_def)
  let ?now = "case last_submit_time s1 of None \<Rightarrow> 0 | Some t \<Rightarrow> t"
  have "\<not> ok_to_release ?now s2"
    using s2(3) by (auto simp: ok_to_release_def elapsed_secs_def duration_since_def as_secs_def split: option.splits)
  then have "update Q sp ?now s = Inr s2" using s1(1) s2(1) by (simp add: update_def check_queues_def)
  moreover have "settles items s s2" using settles_trans [OF settles_same s2(2)] same by simp
  ultimately show ?thesis by blast
qed

text \<open>The client of a busy executor is told.\<close>

lemma send_to_paired_remote_completes:
  assumes "inv s" and "is_busy s i"
  shows "\<exists>s'. send_to_paired_remote i msg s = Inr s'"
proof -
  obtain p where "i < length (remotes s)" "paired_id (remotes s ! i) = Some p" "unat p < length (remotes s)"
    by (rule busy_pair [OF assms])
  then show ?thesis by (auto simp: send_to_paired_remote_def Let_def chan_send_def)
qed

text \<open>One task less is outstanding when its executor is free again.\<close>

lemma finish_outstanding:
  assumes "sched_ok (sched_of items s)" and "i < length (remotes s)" and "works_for (remotes s ! i) = Some c"
    and "c \<noteq> i" and "sent_to c msg (remotes s) rs" and "remotes t = rs[i := (rs ! i)\<lparr>paired_id := None\<rparr>]"
    and "task_queue t = task_queue s"
  shows "outstanding items t = outstanding items s - {c}" "c \<in> outstanding items s"
proof -
  let ?a = "sched_of items s"
  have i: "running ?a i = Some c" using assms(2,3) by (simp add: running_sched)
  have same: "works_for (remotes t ! j) = works_for (remotes s ! j)" if "j \<noteq> i" "j < length (remotes s)" for j
    using assms(5) that by (cases "c = j") (auto simp: assms(6) works_for_def elim!: sent_to.cases)
  have free: "works_for (remotes t ! i) = None" and len: "length (remotes t) = length (remotes s)"
    using assms(2,4,5) by (auto simp: assms(6) works_for_def elim!: sent_to.cases)
  have "running (sched_of items t) j = ((running ?a)(i := None)) j" for j
    unfolding running_sched fun_upd_apply len using same [of j] free by simp
  then have "running (sched_of items t) = (running ?a)(i := None)" by (rule ext)
  moreover have "ran ((running ?a)(i := None)) = ran (running ?a) - {c}"
    by (rule ran_remove [of "running ?a" i c, OF i]) (rule sched_okD(6) [OF assms(1) _ i])
  ultimately have "ran (running (sched_of items t)) = ran (running ?a) - {c}" by simp
  moreover have "c \<notin> waiting ?a"
    using sched_okD(1) [OF assms(1), of c] ranI [of "running ?a" i c] i by (auto simp: places_def)
  moreover have "waiting (sched_of items t) = waiting ?a" using assms(7) by (simp add: sched_of_def)
  ultimately show "outstanding items t = outstanding items s - {c}" "c \<in> outstanding items s"
    using ranI [of "running ?a" i c] i unfolding outstanding_sched by auto
qed

end

section \<open>Durations never overflow\<close>

definition within :: "'q server_state \<Rightarrow> bool" where
  "within s \<longleftrightarrow> total_run_time s \<le> dur_max \<and> total_send_time s \<le> dur_max"

lemma update_same_totals: "update Q sp now s = Inr s' \<Longrightarrow> same_totals s s'"
proof -
  assume u: "update Q sp now s = Inr s'"
  obtain s1 sp1 s2 where 1: "start_execs Q sp s = Inr (s1, sp1)" "assign_loop Q s1 = Inr s2"
      "s' = s2 \<or> release_loop s2 = Inr s'"
    using u by (auto simp: update_def check_queues_def and_then_eq_Inr split: if_splits)
  have "same_totals s s1" using start_execs_safe [of s Q sp] 1(1) only_starts_keeps(2) by simp
  moreover have "same_totals s1 s2"
  proof (rule assign_loop_keeps [OF _ 1(2), where P = "same_totals s1"])
    fix t t' assume "same_totals s1 t" "assign_one Q t = Inr t'"
    then show "same_totals s1 t'"
      by (auto simp: assign_one_def and_then_eq_Inr Let_def set_remote_def same_totals_def
          split: option.splits list.splits prod.splits if_splits)
  qed simp
  moreover have "same_totals s2 s'" if "release_loop s2 = Inr s'"
  proof (rule release_loop_keeps [OF _ that, where P = "same_totals s2"])
    fix t t' assume "same_totals s2 t" "release_one t = Inr t'"
    then show "same_totals s2 t'"
      by (auto simp: release_one_def and_then_eq_Inr set_remote_def same_totals_def split: list.splits)
  qed simp
  ultimately show ?thesis using 1(3) by (auto dest: same_totals_trans)
qed

lemma within_update: "update Q sp now s = Inr s' \<Longrightarrow> within s' = within s"
  using update_same_totals by (fastforce simp: same_totals_def within_def)

lemma within_same [simp]:
  "within (s\<lparr>remotes := rs\<rparr>) = within s" "within (set_remote i r s) = within s"
  "within (s\<lparr>task_queue := q\<rparr>) = within s" "within (s\<lparr>exec_queue := es\<rparr>) = within s"
  "within (s\<lparr>submit_count := n\<rparr>) = within s" "within (s\<lparr>finish_count := n\<rparr>) = within s"
  "within (s\<lparr>last_submit_time := lt\<rparr>) = within s" "within (s\<lparr>running_exec_count := n\<rparr>) = within s"
  "within (s\<lparr>pending_exec_count := n\<rparr>) = within s" "within (s\<lparr>second_pending_exec_count := n\<rparr>) = within s"
  "within (s\<lparr>total_bytes := n\<rparr>) = within s" "within (s\<lparr>bytes_this_period := n\<rparr>) = within s"
  "within (s\<lparr>last_activity_time := at\<rparr>) = within s" "within (record_elapsed now t d s) = within s"
  by (simp_all add: within_def set_remote_def record_elapsed_def)

lemma send_to_paired_within: "send_to_paired_remote i msg s = Inr s' \<Longrightarrow> within s' = within s"
  by (auto simp: send_to_paired_remote_def Let_def and_then_eq_Inr split: option.splits if_splits sum.splits)

lemma handle_dropped_within: "handle_dropped i s = Inr s' \<Longrightarrow> within s' = within s"
  by (auto simp: handle_dropped_def and_then_eq_Inr split: if_splits option.splits prod.splits connection_type.splits)

lemma exec_is_ready_within: "exec_is_ready Q E i s = Inr s' \<Longrightarrow> within s' = within s"
  by (auto simp: exec_is_ready_def and_then_eq_Inr dest!: within_update)

lemma remote_is_exec_within: "remote_is_exec Q E i second s = Inr s' \<Longrightarrow> within s' = within s"
  by (auto simp: remote_is_exec_def Let_def and_then_eq_Inr dest!: exec_is_ready_within split: if_splits)

lemma remote_is_client_within: "remote_is_client Q E i d s = Inr s' \<Longrightarrow> within s' = within s"
  by (auto simp: remote_is_client_def and_then_eq_Inr dest!: within_update)

lemma handle_msg_within: "handle_msg Q bytes_add E i msg s = Inr s' \<Longrightarrow> within s \<Longrightarrow> within s'"
proof (cases msg)
  case (TaskDone code t run_time send_time)
  assume "handle_msg Q bytes_add E i msg s = Inr s'"
  then show ?thesis
    by (auto simp: TaskDone handle_msg_def and_then_eq_Inr Let_def dur_add_def within_def split: if_splits)
qed (auto simp: handle_msg_def and_then_eq_Inr dest!: send_to_paired_within handle_dropped_within
    exec_is_ready_within remote_is_exec_within remote_is_client_within)

lemma on_event_within: "on_event Q bytes_add ev s = Inr s' \<Longrightarrow> within s \<Longrightarrow> within s'"
  by (auto simp: on_event_def add_remote_def hang_up_def activity_occurred_def and_then_eq_Inr split: event.splits
      dest!: handle_msg_within within_update)

section \<open>A report\<close>

text \<open>The connections of all executors are up, and none was lost while it was idle.\<close>

definition up :: "'q system \<Rightarrow> bool" where
  "up y \<longleftrightarrow>
     open_queue (srv y) \<and>
     (\<forall>e < length (remotes (srv y)). conn_type (remotes (srv y) ! e) = Exec \<longrightarrow>
        chan_open (send_chan (remotes (srv y) ! e)) \<and> Dropped \<notin> set (said y e))"

text \<open>A final message that takes no time.\<close>

fun instant :: "message \<Rightarrow> bool" where
  "instant (TaskFailed _) = True"
| "instant (TaskDone _ _ run_time send_time) = (run_time = 0 \<and> send_time = 0)"
| "instant _ = False"

lemma instant_final: "instant m \<Longrightarrow> is_final m \<and> is_report m"
  by (cases m) auto

text \<open>Clients that still listen stay, and so do executors.\<close>

definition stays :: "'q server_state \<Rightarrow> 'q server_state \<Rightarrow> bool" where
  "stays s s' \<longleftrightarrow>
     length (remotes s') = length (remotes s) \<and>
     (\<forall>j < length (remotes s).
        (conn_type (remotes s ! j) = Exec \<longleftrightarrow> conn_type (remotes s' ! j) = Exec) \<and>
        chan_open (send_chan (remotes s' ! j)) = chan_open (send_chan (remotes s ! j)) \<and>
        (conn_type (remotes s ! j) = Client \<and> chan_open (send_chan (remotes s ! j)) \<longrightarrow>
           conn_type (remotes s' ! j) = Client))"

lemma stays_trans: "stays s s' \<Longrightarrow> stays s' s'' \<Longrightarrow> stays s s''"
  by (simp add: stays_def)

lemma settles_stays: "settles items s s' \<Longrightarrow> stays s s'"
  by (auto simp: settles_def stays_def)

lemma sent_to_stays:
  assumes "sent_to c msg (remotes s) rs" and "remotes t = rs[i := (rs ! i)\<lparr>paired_id := None\<rparr>]"
  shows "stays s t"
proof -
  have len: "length (remotes t) = length (remotes s)" using assms by (auto elim!: sent_to.cases)
  have "(conn_type (rs ! j) = Exec \<longleftrightarrow> conn_type (remotes s ! j) = Exec) \<and>
      chan_open (send_chan (rs ! j)) = chan_open (send_chan (remotes s ! j)) \<and>
      (conn_type (remotes s ! j) = Client \<and> chan_open (send_chan (remotes s ! j)) \<longrightarrow> conn_type (rs ! j) = Client)"
    if "j < length (remotes s)" for j
    using assms(1) that by (cases "c = j") (auto elim!: sent_to.cases)
  moreover have "conn_type (remotes t ! j) = conn_type (rs ! j) \<and>
      chan_open (send_chan (remotes t ! j)) = chan_open (send_chan (rs ! j))" if "j < length rs" for j
    using that by (cases "i = j") (simp_all add: assms(2))
  moreover have "length rs = length (remotes s)" using len assms(2) by simp
  ultimately show ?thesis by (simp add: stays_def len)
qed

context server_queue
begin

lemma report_frees:
  assumes "inv s" and "sched_ok (sched_of items s)" and "is_busy s i" and "is_final msg"
    and "open_queue s" and "chan_open (send_chan (remotes s ! i))"
  shows "\<exists>sp now s1 s2 c. send_to_paired_remote i msg s = Inr s1 \<and>
     (\<forall>E. spawns E = sp \<and> at_check E = now \<longrightarrow>
        exec_is_ready Q E i (s1\<lparr>finish_count := finish_count s1 + 1\<rparr>) = Inr s2) \<and>
     c \<in> outstanding items s \<and> outstanding items s2 = outstanding items s - {c} \<and> stays s s2 \<and> open_queue s2"
proof -
  obtain s1 where s1: "send_to_paired_remote i msg s = Inr s1"
    using send_to_paired_remote_completes [OF assms(1,3)] by blast
  obtain c where c: "i < length (remotes s)" "c < length (remotes s)" "c \<noteq> i"
      "conn_type (remotes s ! i) = Exec" "works_for (remotes s ! i) = Some c"
      "task_queue s1 = task_queue s" "sent_to c msg (remotes s) (remotes s1)"
    by (rule send_to_paired_remote_returns [OF assms(1,3) s1])
  have same: "exec_queue s1 = exec_queue s"
    using s1 by (auto simp: send_to_paired_remote_def Let_def and_then_eq_Inr set_remote_def
        split: option.splits if_splits sum.splits)
  have inv1: "inv s1" "is_busy s1 i" using send_to_paired_remote_inv [OF assms(1,3), of msg] s1 by auto
  obtain p where i: "i < length (remotes s1)" "conn_type (remotes s1 ! i) = Exec"
      "paired_id (remotes s1 ! i) = Some p"
    using busy_pair [OF inv1] by metis
  define t where "t = (set_remote i ((remotes s1 ! i)\<lparr>paired_id := None\<rparr>)
    (s1\<lparr>finish_count := finish_count s1 + 1\<rparr>))\<lparr>exec_queue := exec_queue s1 @ [i]\<rparr>"
  have t: "remotes t = (remotes s1)[i := (remotes s1 ! i)\<lparr>paired_id := None\<rparr>]" "task_queue t = task_queue s"
    "exec_queue t = exec_queue s @ [i]"
    by (simp_all add: t_def set_remote_def same c(6))
  have "inv t" by (rule inv_free_exec [OF inv1(1) i]) (simp_all add: t_def set_remote_def)
  moreover have st: "stays s t" by (rule sent_to_stays [OF c(7) t(1)])
  have "open_queue t"
    using assms(5,6) st c(1) exec_queueD(2) [OF wiringD(1) [OF server_invD(3) [OF assms(1)]]]
    by (auto simp: open_queue_def t(3) stays_def)
  ultimately obtain sp now s2 where s2: "update Q sp now t = Inr s2" "settles items t s2"
    using update_completes by blast
  have "exec_is_ready Q E i (s1\<lparr>finish_count := finish_count s1 + 1\<rparr>) = Inr s2"
    if "spawns E = sp \<and> at_check E = now" for E
    using that s2(1) i(1) by (simp add: exec_is_ready_def t_def set_remote_def)
  moreover have "open_queue s2"
  proof -
    have "e < length (remotes t)" if "e \<in> set (exec_queue t)" for e
      using that exec_queueD(2) [OF wiringD(1) [OF server_invD(3) [OF \<open>inv t\<close>]]] by blast
    then show ?thesis using s2(2) \<open>open_queue t\<close> by (auto simp: open_queue_def settles_def)
  qed
  moreover have "outstanding items s2 = outstanding items s - {c}" "c \<in> outstanding items s"
    using finish_outstanding [OF assms(2) c(1,5,3,7) t(1,2)] s2(2) by (simp_all add: settles_def)
  moreover have "stays s s2" by (rule stays_trans [OF st settles_stays [OF s2(2)]])
  ultimately show ?thesis using s1 by blast
qed

lemma honest_report:
  assumes "system_agrees y" and "delivers items (said y) (srv y)" and "up y" and "within (srv y)"
    and "is_busy (srv y) i" and "instant msg"
  shows "honest y (Inbound E i msg)"
proof -
  have i: "i < length (remotes (srv y))" "conn_type (remotes (srv y) ! i) = Exec"
      "is_busy_exec (remotes (srv y) ! i)"
    using assms(5) by (auto simp: is_busy_def is_busy_exec_def)
  have "introduced (said y) i" by (rule deliversD(4) [OF assms(2) i(1,2)])
  moreover have here: "Dropped \<notin> set (said y i)" using assms(3) i by (simp add: up_def)
  moreover have "finals_in (said y i) < tasks_in (received (srv y) i)"
    using system_agreesD(1) [OF assms(1) i(1)] i(3) \<open>introduced (said y) i\<close> here
    by (auto simp: agrees_def introduced_def settled_def received_def)
  ultimately show ?thesis
    using i assms(4,6)
    by (cases msg) (auto simp: honest_def may_say_def sums_fit_def within_def introduced_def)
qed

lemma report_step:
  assumes I: "inv (srv y)" "sched_ok (sched_of items (srv y))" "up y" "within (srv y)"
    and b: "is_busy (srv y) i" and m: "instant msg"
  shows "\<exists>E y'. system_event Q bytes_add (Inbound E i msg) y = Inr y' \<and> up y' \<and> stays (srv y) (srv y') \<and>
     (\<exists>c \<in> outstanding items (srv y). outstanding items (srv y') = outstanding items (srv y) - {c})"
proof -
  define s where "s = (case msg of
      TaskDone code t rt _ \<Rightarrow> if code = Some 0 then record_elapsed 0 t rt (srv y) else srv y
    | _ \<Rightarrow> srv y)"
  have same: "remotes s = remotes (srv y)" "task_queue s = task_queue (srv y)" "exec_queue s = exec_queue (srv y)"
    "inv s = inv (srv y)" "within s = within (srv y)"
    by (auto simp: s_def record_elapsed_def server_inv_def within_def split: message.splits)
  have i: "i < length (remotes (srv y))" "conn_type (remotes (srv y) ! i) = Exec"
    using b by (auto simp: is_busy_def is_busy_exec_def)
  have "inv s" "sched_ok (sched_of items s)" "is_busy s i" "open_queue s" "chan_open (send_chan (remotes s ! i))"
    using I b i by (simp_all add: same sched_of_same [OF same(1,2)] is_busy_def open_queue_def up_def)
  from report_frees [OF this(1-3) conjunct1 [OF instant_final [OF m]] this(4,5)]
  obtain sp now s1 s2 c where r: "send_to_paired_remote i msg s = Inr s1"
      "\<And>E. spawns E = sp \<Longrightarrow> at_check E = now \<Longrightarrow>
        exec_is_ready Q E i (s1\<lparr>finish_count := finish_count s1 + 1\<rparr>) = Inr s2"
      "c \<in> outstanding items s" "outstanding items s2 = outstanding items s - {c}" "stays s s2" "open_queue s2"
    by metis
  let ?E = "\<lparr>at_record = 0, at_submit = 0, at_check = now, at_activity = 0, spawns = sp\<rparr>"
  have "within s2"
    using I(4) send_to_paired_within [OF r(1)] exec_is_ready_within [OF r(2) [of ?E]] same(5) by simp
  then obtain s3 where s3: "handle_msg Q bytes_add ?E i msg (srv y) = Inr s3" "remotes s3 = remotes s2"
      "task_queue s3 = task_queue s2" "exec_queue s3 = exec_queue s2"
    using m r(1) r(2) [of ?E]
    by (cases msg; cases "\<exists>t. msg = TaskDone (Some 0) t 0 0")
      (auto simp: handle_msg_def dur_add_def within_def s_def Let_def)
  define y' where "y' = \<lparr>srv = activity_occurred 0 s3, said = (said y)(i := said y i @ [msg])\<rparr>"
  have "system_event Q bytes_add (Inbound ?E i msg) y = Inr y'"
    using s3(1) by (simp add: system_event_def on_event_def y'_def)
  moreover have srv: "remotes (srv y') = remotes s2" "task_queue (srv y') = task_queue s2"
      "exec_queue (srv y') = exec_queue s2"
    by (simp_all add: y'_def activity_occurred_def s3)
  moreover have "stays (srv y) (srv y')" using r(5) by (simp add: stays_def srv same)
  moreover have "Dropped \<in> set (said y' e) \<longleftrightarrow> Dropped \<in> set (said y e)" for e
    using m by (cases msg) (auto simp: y'_def)
  moreover have "up y'"
    using calculation(6) I(3) r(6) \<open>stays (srv y) (srv y')\<close>
    by (auto simp: up_def open_queue_def srv stays_def)
  moreover have "outstanding items (srv y') = outstanding items (srv y) - {c}" "c \<in> outstanding items (srv y)"
    using r(3,4) by (simp_all add: outstanding_def srv same)
  ultimately show ?thesis by blast
qed

text \<open>What is known of every state the system reaches.\<close>

definition sound :: "'q system \<Rightarrow> bool" where
  "sound y \<longleftrightarrow> inv (srv y) \<and> system_agrees y \<and> sched_ok (sched_of items (srv y)) \<and>
     delivers items (said y) (srv y) \<and> within (srv y) \<and> work_conserving Q (srv y)"

lemma system_sound:
  assumes "(system_step Q bytes_add)\<^sup>*\<^sup>* (system_start s0) y" and "fresh Q s0" and "within s0"
  shows "sound y"
proof -
  have "inv s0 \<and> system_agrees (system_start s0)"
    using fresh_inv [OF assms(2)] agrees_start [of s0] assms(2) by (simp add: fresh_def)
  then have steps: "(server_step Q bytes_add)\<^sup>*\<^sup>* s0 (srv y)"
    using sys.refines(2) [OF assms(1)] by (simp add: system_start_def)
  then have "within (srv y) \<and> work_conserving Q (srv y)"
    using assms(2,3)
    by (induction rule: rtranclp_induct)
      (auto simp: fresh_def work_conserving_def server_step_def dest: on_event_within on_event_done [unfolded work_conserving_def])
  moreover have "sched_ok (sched_of items (srv y))"
    by (rule sched.transfers [OF steps fresh_inv [OF assms(2)] fresh_sched [OF assms(2)]])
  ultimately show ?thesis
    using system_reached [OF assms(1,2)] system_delivers [OF assms(1,2)] by (simp add: sound_def)
qed

lemma finite_outstanding: "inv s \<Longrightarrow> finite (outstanding items s)"
proof (rule finite_subset)
  assume inv: "inv s"
  have "unat p < length (remotes s)"
    if "e < length (remotes s)" "conn_type (remotes s ! e) = Exec" "paired_id (remotes s ! e) = Some p" for e p
    using pairingD(1) [OF wiringD(3) [OF server_invD(3) [OF inv]] that] .
  moreover have "c < length (remotes s)" if "items (task_queue s) (c, d) = Some p" for c d p
    using task_queueD(1) [OF wiringD(2) [OF server_invD(3) [OF inv]], of c d] that by auto
  ultimately show "outstanding items s \<subseteq> {..<length (remotes s)}"
    by (auto simp: outstanding_def works_for_def split: if_splits)
qed simp

lemma somebody_works:
  assumes "inv s" and "work_conserving Q s" and "outstanding items s \<noteq> {}"
    and "e < length (remotes s)" and "conn_type (remotes s ! e) = Exec"
  shows "\<exists>i. is_busy s i"
proof (cases "dom (items (task_queue s)) = {}")
  case True
  then obtain c i where "i < length (remotes s)" "works_for (remotes s ! i) = Some c"
    using assms(3) by (auto simp: outstanding_def)
  then show ?thesis by (auto simp: works_for_def is_busy_def is_busy_exec_def split: if_splits)
next
  case False
  then have "exec_queue s = []"
    using assms(2) is_empty_items [OF server_invD(1) [OF assms(1)]] by (auto simp: work_conserving_def)
  then show ?thesis
    using exec_queueD(5) [OF wiringD(1) [OF server_invD(3) [OF assms(1)]]] assms(4,5)
    by (cases "paired_id (remotes s ! e)") (auto simp: is_busy_def is_busy_exec_def)
qed

lemma all_get_answered:
  assumes "(system_step Q bytes_add)\<^sup>*\<^sup>* (system_start s0) y" and "fresh Q s0" and "within s0"
    and "up y" and "e < length (remotes (srv y))" and "conn_type (remotes (srv y) ! e) = Exec"
    and "\<forall>i. instant (reply i)"
  shows "\<exists>evs y'. run_system Q bytes_add evs y = Some y' \<and> length evs = card (outstanding items (srv y)) \<and>
     list_all (\<lambda>ev. \<exists>E i. ev = Inbound E i (reply i)) evs \<and> sound y' \<and>
     outstanding items (srv y') = {} \<and> stays (srv y) (srv y')"
  using assms
proof (induction "card (outstanding items (srv y))" arbitrary: y)
  case 0
  note S = system_sound [OF 0(2) assms(2,3)]
  have "outstanding items (srv y) = {}"
    using 0(1) S finite_outstanding by (simp add: sound_def)
  then show ?case using S by (intro exI [of _ "[]"] exI [of _ y]) (simp add: stays_def)
next
  case (Suc n)
  have S: "inv (srv y)" "system_agrees y" "sched_ok (sched_of items (srv y))"
      "delivers items (said y) (srv y)" "within (srv y)" "work_conserving Q (srv y)"
    using system_sound [OF Suc(3) assms(2,3)] by (simp_all add: sound_def)
  obtain i where i: "is_busy (srv y) i"
    using somebody_works [OF S(1,6) _ Suc.prems(5,6)] Suc(2) by fastforce
  have honest: "honest y (Inbound E i (reply i))" for E
    using honest_report [OF S(2,4) Suc.prems(4) S(5) i] assms(7) by blast
  obtain E y1 c where y1: "system_event Q bytes_add (Inbound E i (reply i)) y = Inr y1" "up y1"
      "stays (srv y) (srv y1)" "c \<in> outstanding items (srv y)"
      "outstanding items (srv y1) = outstanding items (srv y) - {c}"
    using report_step [OF S(1,3) Suc.prems(4) S(5) i] assms(7) by blast
  have "(system_step Q bytes_add)\<^sup>*\<^sup>* (system_start s0) y1"
    using Suc.prems(1) y1(1) honest unfolding system_step_def by (blast intro: rtranclp.rtrancl_into_rtrancl)
  moreover have "n = card (outstanding items (srv y1))"
    using Suc(2) y1(4,5) finite_outstanding [OF S(1)] by (simp add: card_Diff_singleton)
  moreover have "e < length (remotes (srv y1))" "conn_type (remotes (srv y1) ! e) = Exec"
    using y1(3) Suc.prems(5,6) by (auto simp: stays_def)
  ultimately obtain evs y' where "run_system Q bytes_add evs y1 = Some y'"
      "length evs = n" "list_all (\<lambda>ev. \<exists>E i. ev = Inbound E i (reply i)) evs" "sound y'"
      "outstanding items (srv y') = {}" "stays (srv y1) (srv y')"
    using Suc(1) [of y1] assms(2,3,7) y1(2) by blast
  then show ?case
    using y1(1) honest Suc(2) stays_trans [OF y1(3)]
    by (intro exI [of _ "Inbound E i (reply i) # evs"] exI [of _ y']) auto
qed

end

section \<open>The property\<close>

text \<open>
  C6: The server makes progress.  In every state it reaches with remotes that keep to their
  side, if an executor is connected and no executor has been lost, then as many reports as
  there are clients whose task waits or is worked on are enough to answer them all: the
  server never gets stuck on the way, whatever final messages that take no time the executors report
  with, and in the end nothing waits, nobody works, and every client that still listens has been sent
  exactly one final message.
\<close>

theorem every_client_gets_answered:
  assumes "priority_queue Q items q_ok"
    and "server_new Q cfg hist now port key cpus alt both verb = Inr s0"
    and "(system_step Q bytes_add)\<^sup>*\<^sup>* (system_start s0) y" and "up y"
    and "e < length (remotes (srv y))" and "conn_type (remotes (srv y) ! e) = Exec"
    and "\<forall>i. instant (reply i)"
  shows "\<exists>evs y'. run_system Q bytes_add evs y = Some y' \<and> length evs = card (outstanding items (srv y)) \<and>
     list_all (\<lambda>ev. \<exists>E i. ev = Inbound E i (reply i)) evs \<and> outstanding items (srv y') = {} \<and>
     (\<forall>c < length (remotes (srv y)).
        conn_type (remotes (srv y) ! c) = Client \<and> chan_open (send_chan (remotes (srv y) ! c)) \<longrightarrow>
        conn_type (remotes (srv y') ! c) = Client \<and> finals_in (received (srv y') c) = 1)"
proof -
  note sq = server_queue.intro [OF assms(1)]
  have "within s0" using assms(2) by (auto simp: server_new_def Let_def within_def split: if_splits)
  from server_queue.all_get_answered [OF sq assms(3) server_new_fresh [OF assms(2)] this assms(4-7)]
  obtain evs y' where y': "run_system Q bytes_add evs y = Some y'" "length evs = card (outstanding items (srv y))"
      "list_all (\<lambda>ev. \<exists>E i. ev = Inbound E i (reply i)) evs" "server_queue.sound Q items q_ok y'"
      "outstanding items (srv y') = {}" "stays (srv y) (srv y')"
    by blast
  have ok: "sched_ok (sched_of items (srv y'))" using y'(4) by (simp add: server_queue.sound_def [OF sq])
  have "finals_in (received (srv y') c) = 1"
    if "c < length (remotes (srv y'))" "conn_type (remotes (srv y') ! c) = Client" for c
    using sched_okD(2) [OF ok, of c] that y'(5) unfolding outstanding_sched places_def
    by (auto simp: sched_of_def where_is_def is_client_def at_remote_def answers_to_def received_def)
  then show ?thesis using y' by (intro exI [of _ evs] exI [of _ y']) (auto simp: stays_def)
qed

theorem every_client_gets_answered_witness:
  "\<exists>evs y'. run_system demo_queue (+) evs demo_system = Some y' \<and> finals_in (received (srv y') 1) = 1"
proof -
  have y: "up demo_system" "0 < length (remotes (srv demo_system))" "1 < length (remotes (srv demo_system))"
    "conn_type (remotes (srv demo_system) ! 0) = Exec" "conn_type (remotes (srv demo_system) ! 1) = Client"
    "chan_open (send_chan (remotes (srv demo_system) ! 1))"
    by (simp_all add: up_def open_queue_def demo_system_eq demo_state_eq All_less_Suc)
  have "\<forall>i :: nat. instant (TaskFailed ''x'')" by simp
  from every_client_gets_answered [OF demo_priority_queue demo_new_start demo_system_steps y(1,2,4) this]
  show ?thesis using y(3,5,6) by blast
qed

end
