(* ===== verification/Server_Deadlock.thy ===== *)
theory Server_Deadlock
  imports Server_Flow
begin

text \<open>
  When the main task of the server is blocked for good: the exact condition, and a run with
  remotes that keep to their side which leads there.
\<close>

section \<open>A blocked main task\<close>

text \<open>The main task is passing a report \<open>m\<close> of executor \<open>e\<close> on to client \<open>c\<close>, which can be sent messages.\<close>

definition passing :: "'q flow \<Rightarrow> nat \<Rightarrow> message \<Rightarrow> nat \<Rightarrow> bool" where
  "passing f e m c \<longleftrightarrow>
     (\<exists>E. doing f = Some (Inbound E e m)) \<and> is_report m \<and>
     e < length (remotes (srv (core f))) \<and> c < length (remotes (srv (core f))) \<and>
     map_option unat (paired_id (remotes (srv (core f)) ! e)) = Some c"

definition listening :: "'q flow \<Rightarrow> nat \<Rightarrow> bool" where
  "listening f c \<longleftrightarrow>
     conn_type (remotes (srv (core f)) ! c) = Client \<and> chan_open (send_chan (remotes (srv (core f)) ! c))"

text \<open>
  The channel of the client is full; its connection task does not take messages out of it,
  but waits to hand one to the main task, whose channel is full as well.
\<close>

definition deadlocked :: "nat \<Rightarrow> 'q flow \<Rightarrow> nat \<Rightarrow> bool" where
  "deadlocked cap f c \<longleftrightarrow>
     (\<exists>e m. passing f e m c) \<and> listening f c \<and> taken f c + cap \<le> length (received (srv (core f)) c) \<and>
     (phase f c = Leaving \<or> (\<exists>m. phase f c = Relaying m)) \<and> cap \<le> length (arrived f)"

lemma relay_sent:
  assumes "e < length (remotes s)" and "c < length (remotes s)"
    and "map_option unat (paired_id (remotes s ! e)) = Some c"
  shows "\<exists>s'. send_to_paired_remote e m s = Inr s' \<and> length (remotes s') = length (remotes s) \<and>
    (\<forall>i < length (remotes s). received s' i = received s i @
      (if i = c \<and> conn_type (remotes s ! c) = Client \<and> chan_open (send_chan (remotes s ! c)) then [m] else []))"
proof -
  let ?r = "remotes s ! c"
  let ?t = "if conn_type ?r = Client then
      if chan_open (send_chan ?r) then
        set_remote c (?r\<lparr>send_chan := (send_chan ?r)\<lparr>chan_sent := chan_sent (send_chan ?r) @ [m]\<rparr>\<rparr>) s
      else set_remote c (?r\<lparr>conn_type := Dead\<rparr>) s
    else s"
  have "send_to_paired_remote e m s = Inr ?t"
    using assms by (auto simp: send_to_paired_remote_def index_def Let_def chan_send_def)
  then show ?thesis by (intro exI [of _ ?t]) (simp add: set_remote_def received_def nth_updated)
qed

lemma relay_to_listening:
  assumes "handle_msg Q bytes_add E e m s = Inr s'" and "is_report m" and "e < length (remotes s)"
    and "c < length (remotes s)" and "map_option unat (paired_id (remotes s ! e)) = Some c"
    and "conn_type (remotes s ! c) = Client" and "chan_open (send_chan (remotes s ! c))"
  shows "length (received s c) < length (received s' c)"
proof -
  obtain s0 s1 where 1: "remotes s0 = remotes s" "send_to_paired_remote e m s0 = Inr s1" "grows s1 s'"
    using report_grows [OF assms(1,2)] by blast
  have "e < length (remotes s0)" "c < length (remotes s0)" "map_option unat (paired_id (remotes s0 ! e)) = Some c"
    using assms(3-5) by (simp_all add: 1(1))
  from relay_sent [OF this, of m] have "length (received s1 c) = Suc (length (received s c))"
      "length (remotes s1) = length (remotes s)"
    using 1(1,2) assms(4,6,7) by (auto simp: received_def)
  then show ?thesis using grows_received(1) [OF 1(3), of c] assms(4) by (auto dest!: prefix_length_le)
qed

lemma deadlock_stays:
  assumes "flow_step cap Q bytes_add f f'" and "deadlocked cap f c"
  shows "deadlocked cap f' c \<and> doing f' = doing f \<and> said (core f') = said (core f)"
proof -
  obtain E e m where p: "doing f = Some (Inbound E e m)" "passing f e m c"
    using assms(2) by (auto simp: deadlocked_def passing_def)
  from assms show ?thesis
  proof (cases rule: flow_step.cases)
    case (finishes ev y)
    then obtain s where s: "handle_msg Q bytes_add E e m (srv (core f)) = Inr s" "remotes (srv y) = remotes s"
      using p(1) system_event_srv [OF finishes(3)] by (auto elim!: inbound_handled)
    have "length (remotes s) = length (remotes (srv (core f)))"
      using handle_msg_grows [OF s(1)] by (simp add: grows_def)
    with s have "length (received (srv (core f)) c) < length (received (srv y) c)"
        "length (remotes (srv y)) = length (remotes (srv (core f)))"
      using relay_to_listening [OF s(1)] p(2) assms(2)
      by (auto simp: passing_def deadlocked_def listening_def received_def)
    then have "\<not> has_room cap (taken f) (srv y)"
      using assms(2) p(2) by (auto simp: has_room_def deadlocked_def passing_def intro!: exI [of _ c])
    then show ?thesis using finishes by simp
  next
    case (quits i y)
    then have "i \<noteq> c" using assms(2) by (auto simp: deadlocked_def)
    with quits show ?thesis using assms(2)
      by (auto simp: deadlocked_def passing_def listening_def hangup_srv queued_def)
  qed (use p in \<open>auto simp: deadlocked_def passing_def listening_def queued_def\<close>)
qed

lemma deadlock_is_final:
  assumes "(flow_step cap Q bytes_add)\<^sup>*\<^sup>* f f'" and "deadlocked cap f c"
  shows "deadlocked cap f' c \<and> doing f' = doing f \<and> said (core f') = said (core f)"
  using assms by (induction rule: rtranclp_induct) (auto dest: deadlock_stays)

text \<open>An output is passed on.\<close>

lemma output_finishes:
  assumes "within_bounds cap f" and "doing f = Some (Inbound E e (TaskOutput ot x))"
    and "passing f e (TaskOutput ot x) c" and "listening f c \<Longrightarrow> length (received (srv (core f)) c) < taken f c + cap"
  shows "\<exists>f'. flow_step cap Q bytes_add f f' \<and> doing f' = None"
proof -
  let ?s = "srv (core f)" and ?m = "TaskOutput ot x"
  have p: "e < length (remotes ?s)" "c < length (remotes ?s)" "map_option unat (paired_id (remotes ?s ! e)) = Some c"
    using assms(3) by (simp_all add: passing_def)
  define t where "t = ?s\<lparr>total_bytes := bytes_add (total_bytes ?s) (length x),
    bytes_this_period := bytes_add (bytes_this_period ?s) (length x)\<rparr>"
  have room: "length (received ?s i) \<le> taken f i + cap" if "i < length (remotes ?s)" for i
    using assms(1) that by (auto simp: within_bounds_def has_room_def)
  have t: "remotes t = remotes ?s" "received t = received ?s" by (simp_all add: t_def received_def fun_eq_iff)
  obtain t' where t': "send_to_paired_remote e ?m t = Inr t'" "length (remotes t') = length (remotes ?s)"
      "\<forall>i < length (remotes ?s).
        received t' i = received ?s i @ (if i = c \<and> listening f c then [?m] else [])"
    using relay_sent [of e t c ?m] p by (auto simp: t listening_def)
  define y where "y = \<lparr>srv = t'\<lparr>last_activity_time := at_activity E\<rparr>, said = (said (core f))(e := said (core f) e @ [?m])\<rparr>"
  have "system_event Q bytes_add (Inbound E e ?m) (core f) = Inr y"
    using t'(1) by (simp add: system_event_def on_event_def handle_msg_def t_def y_def activity_occurred_def)
  moreover have "length (received t' i) \<le> taken f i + cap" if "i < length (remotes ?s)" for i
    using room [OF that] t'(3) assms(4) that by auto
  then have "has_room cap (taken f) (srv y)"
    by (simp add: has_room_def y_def t'(2) received_def)
  ultimately show ?thesis
    using flow_step.finishes [OF assms(2)] by fastforce
qed

section \<open>No other reason to stay blocked\<close>

definition outputs_to :: "nat \<Rightarrow> 'q flow \<Rightarrow> nat \<Rightarrow> bool" where
  "outputs_to cap f c \<longleftrightarrow>
     within_bounds cap f \<and>
     (\<exists>E e ot x. doing f = Some (Inbound E e (TaskOutput ot x)) \<and> passing f e (TaskOutput ot x) c)"

definition serves :: "nat \<Rightarrow> 'q task_pq \<Rightarrow> (nat \<Rightarrow> nat \<Rightarrow> nat) \<Rightarrow> 'q flow \<Rightarrow> bool" where
  "serves cap Q bytes_add f \<longleftrightarrow> (\<exists>f'. (flow_step cap Q bytes_add)\<^sup>*\<^sup>* f f' \<and> doing f' = None)"

lemma serves_step: "flow_step cap Q bytes_add f g \<Longrightarrow> serves cap Q bytes_add g \<Longrightarrow> serves cap Q bytes_add f"
  unfolding serves_def by (blast intro: converse_rtranclp_into_rtranclp)

text \<open>Steps of connection tasks do not change what the main task is doing.\<close>

lemma outputs_to_step:
  assumes "outputs_to cap f c" and "flow_step cap Q bytes_add f g" and "doing g = doing f"
    and "core g = core f \<or> (\<exists>i. core g = (core f)\<lparr>srv := hang_up i (srv (core f))\<rparr>)"
  shows "outputs_to cap g c"
proof -
  have "within_bounds cap g" using flow_step_bounds [OF assms(2)] assms(1) by (simp add: outputs_to_def)
  moreover have "passing g e m c = passing f e m c" for e m
    using assms(3,4) by (auto simp: passing_def)
  ultimately show ?thesis using assms(1,3) by (simp add: outputs_to_def)
qed

lemma room_serves:
  assumes "outputs_to cap f c" and "listening f c \<Longrightarrow> length (received (srv (core f)) c) < taken f c + cap"
  shows "serves cap Q bytes_add f"
  using assms output_finishes unfolding outputs_to_def serves_def by (metis r_into_rtranclp)

lemma selecting_serves:
  assumes "outputs_to cap f c" and "phase f c = Selecting" and "0 < cap"
  shows "serves cap Q bytes_add f"
proof (cases "length (received (srv (core f)) c) < taken f c + cap")
  case False
  then obtain m ms where q: "queued f c = m # ms"
    using assms(3) by (cases "queued f c") (auto simp: queued_def)
  let ?g = "f\<lparr>phase := (phase f)(c := Writing m), taken := (taken f)(c := taken f c + 1)\<rparr>"
  have st: "flow_step cap Q bytes_add f ?g" by (rule flow_step.takes [OF assms(2) q])
  have "outputs_to cap ?g c" by (rule outputs_to_step [OF assms(1) st]) simp_all
  moreover have "length (received (srv (core ?g)) c) < taken ?g c + cap"
    using assms(1) by (auto simp: outputs_to_def within_bounds_def has_room_def passing_def less_Suc_eq_le)
  ultimately show ?thesis by (blast intro: serves_step [OF st] room_serves)
qed (use room_serves [OF assms(1)] in blast)

lemma returning_serves:
  assumes "outputs_to cap f c" and "phase f c = Returning"
  shows "serves cap Q bytes_add f"
proof -
  let ?y = "(core f)\<lparr>srv := hang_up c (srv (core f))\<rparr>"
  let ?g = "f\<lparr>core := ?y, phase := (phase f)(c := Ended)\<rparr>"
  have st: "flow_step cap Q bytes_add f ?g" by (rule flow_step.quits) (simp_all add: assms(2) hangup_srv)
  have "outputs_to cap ?g c" by (rule outputs_to_step [OF assms(1) st]) auto
  moreover have "\<not> listening ?g c" using assms(1) by (auto simp: listening_def outputs_to_def passing_def)
  ultimately show ?thesis by (blast intro: serves_step [OF st] room_serves)
qed

lemma writing_serves:
  assumes "outputs_to cap f c" and "phase f c = Writing m" and "0 < cap"
  shows "serves cap Q bytes_add f"
proof -
  have st: "flow_step cap Q bytes_add f
      (f\<lparr>phase := (phase f)(c := Selecting), put_out := (put_out f)(c := put_out f c @ [m])\<rparr>)"
    by (rule flow_step.writes [OF assms(2)])
  show ?thesis
    by (rule serves_step [OF st selecting_serves [OF outputs_to_step [OF assms(1) st] _ assms(3)]]) simp_all
qed

lemma relaying_serves:
  assumes "outputs_to cap f c" and "phase f c = Relaying m" and "length (arrived f) < cap"
  shows "serves cap Q bytes_add f"
proof -
  have st: "flow_step cap Q bytes_add f (f\<lparr>phase := (phase f)(c := Selecting), arrived := arrived f @ [(c, m)]\<rparr>)"
    by (rule flow_step.relays [OF assms(2,3)])
  show ?thesis
    by (rule serves_step [OF st selecting_serves [OF outputs_to_step [OF assms(1) st]]]) (use assms(3) in simp_all)
qed

lemma leaving_serves:
  assumes "outputs_to cap f c" and "phase f c = Leaving" and "length (arrived f) < cap"
  shows "serves cap Q bytes_add f"
proof -
  have st: "flow_step cap Q bytes_add f (f\<lparr>phase := (phase f)(c := Returning), arrived := arrived f @ [(c, Dropped)],
      heard := (heard f)(c := heard f c @ [Dropped])\<rparr>)"
    by (rule flow_step.leaves [OF assms(2,3)])
  show ?thesis by (rule serves_step [OF st returning_serves [OF outputs_to_step [OF assms(1) st]]]) simp_all
qed

lemma ended_deaf: "outputs_to cap f c \<Longrightarrow> phase f c = Ended \<Longrightarrow> \<not> listening f c"
  by (auto simp: outputs_to_def within_bounds_def listening_def passing_def)

lemma output_served_iff:
  assumes "outputs_to cap f c" and "0 < cap"
  shows "serves cap Q bytes_add f \<longleftrightarrow> \<not> deadlocked cap f c"
proof
  assume "serves cap Q bytes_add f"
  then show "\<not> deadlocked cap f c"
    using assms(1) deadlock_is_final by (fastforce simp: serves_def outputs_to_def)
next
  assume dl: "\<not> deadlocked cap f c"
  show "serves cap Q bytes_add f"
  proof (cases "listening f c \<and> taken f c + cap \<le> length (received (srv (core f)) c)")
    case True
    then have "length (arrived f) < cap" if "phase f c = Leaving \<or> (\<exists>m. phase f c = Relaying m)"
      using dl assms(1) that by (auto simp: deadlocked_def outputs_to_def)
    then show ?thesis
      using True ended_deaf [OF assms(1)] selecting_serves [OF assms(1) _ assms(2)] writing_serves [OF assms(1) _ assms(2)]
        relaying_serves [OF assms(1)] leaving_serves [OF assms(1)] returning_serves [OF assms(1)]
      by (cases "phase f c") blast+
  qed (use room_serves [OF assms(1)] in force)
qed

text \<open>
  C16: The deadlock is the only way for the main task to stay blocked.  When it passes an output
  on to a client, it can finish, by steps of connection tasks at most, exactly if it is not
  in a deadlock with the connection task of a client that is waiting to hand over a message
  itself.
\<close>

theorem blocked_or_deadlocked:
  assumes "priority_queue Q items q_ok"
    and "server_new Q cfg hist now port key cpus alt both verb = Inr s0"
    and "(civil_step cap Q bytes_add)\<^sup>*\<^sup>* (flow_start s0) f" and "0 < cap"
    and "doing f = Some (Inbound E e (TaskOutput ot x))"
  shows "(\<exists>f'. (flow_step cap Q bytes_add)\<^sup>*\<^sup>* f f' \<and> doing f' = None) \<longleftrightarrow> \<not> (\<exists>c. deadlocked cap f c)"
proof -
  note sq = server_queue.intro [OF assms(1)]
  note f = server_queue.flow_reached [OF sq assms(3) server_new_fresh [OF assms(2)]]
  have "honest (core f) (Inbound E e (TaskOutput ot x))"
    using handling_keeps_to_rule [OF conjunct2 [OF f(1)] assms(5)] by (simp add: honest_def sums_fit_def)
  then have "is_busy (srv (core f)) e"
    using agrees_conforms [OF conjunct2 [OF f(2)]] by (fastforce simp: conforms_def)
  from server_queue.busy_pair [OF sq conjunct1 [OF f(2)] this] obtain p where
    "e < length (remotes (srv (core f)))" "paired_id (remotes (srv (core f)) ! e) = Some p"
    "unat p < length (remotes (srv (core f)))" by blast
  then have o: "outputs_to cap f (unat p)" "\<And>c. deadlocked cap f c \<Longrightarrow> c = unat p"
    using conjunct1 [OF f(1)] assms(5) by (auto simp: outputs_to_def passing_def deadlocked_def)
  show ?thesis using output_served_iff [OF o(1) assms(4)] o(2) by (auto simp: serves_def)
qed

section \<open>A run into the deadlock\<close>

text \<open>An executor has streamed as many outputs as the channel to its client holds; one more blocks.\<close>

lemma stream_blocks:
  assumes "0 < cap"
  shows "\<exists>f. (civil_step cap demo_queue (+))\<^sup>*\<^sup>* (flow_start demo_start) f \<and> streaming cap f \<and>
     doing f = Some (Inbound demo_env 0 empty_output) \<and> arrived f = []"
proof -
  let ?C = "civil_step cap demo_queue (+)"
  obtain f0 where 0: "?C\<^sup>*\<^sup>* (flow_start demo_start) f0" "streaming 0 f0" "doing f0 = None" "arrived f0 = []"
    using stream_starts [OF assms] by blast
  obtain f1 where 1: "?C\<^sup>*\<^sup>* f0 f1" "streaming cap f1" "doing f1 = None" "arrived f1 = []"
    using streaming_many [OF 0(2-4), of cap cap] by blast
  obtain f2 where 2: "?C\<^sup>*\<^sup>* f1 f2" "streaming cap f2" "doing f2 = None" "arrived f2 = [(0, empty_output)]"
    using stream_arrives [OF 1(2)] assms 1(3,4) by (metis append_Nil list.size(3))
  let ?f = "f2\<lparr>doing := Some (Inbound demo_env 0 empty_output), arrived := []\<rparr>"
  have "?C f2 ?f" using 2 by (intro civil_receives) (simp_all add: streaming_def)
  with 0(1) 1(1) 2(1) have "?C\<^sup>*\<^sup>* (flow_start demo_start) ?f"
    by (meson rtranclp.rtrancl_into_rtrancl rtranclp_trans)
  moreover have "streaming cap ?f" using 2(2) by (simp add: streaming_def)
  ultimately show ?thesis by (intro exI [of _ ?f]) simp
qed

theorem blocked_or_deadlocked_witness:
  "\<exists>f. streaming chan_capacity f \<and> doing f = Some (Inbound demo_env 0 empty_output) \<and>
     (\<exists>f'. (flow_step chan_capacity demo_queue (+))\<^sup>*\<^sup>* f f' \<and> doing f' = None)"
proof -
  have cap: "0 < chan_capacity" by (simp add: chan_capacity_def)
  from stream_blocks [OF this] obtain f where
    f: "(civil_step chan_capacity demo_queue (+))\<^sup>*\<^sup>* (flow_start demo_start) f" "streaming chan_capacity f"
      "doing f = Some (Inbound demo_env 0 empty_output)" by blast
  have "\<not> (\<exists>c. deadlocked chan_capacity f c)"
    using f(2,3) by (auto simp: deadlocked_def passing_def streaming_def)
  then show ?thesis
    using blocked_or_deadlocked [OF demo_priority_queue demo_new_start f(1) cap f(3) [unfolded empty_output_def]] f(2,3)
    by blast
qed

text \<open>
  C17: The loss of a client can hang the server for good.  For every capacity of the channels there
  is a run, with remotes that keep to their side, in which an executor streams output to a
  client whose connection ends while its channel is full: its connection task then waits to
  hand over \<open>Dropped\<close>, and the main task waits to send to it.  From then on no step of any
  task lets the main task finish, and no message is ever handled again.
\<close>

theorem lost_client_deadlocks_the_server:
  assumes "0 < cap"
  shows "\<exists>f. (civil_step cap demo_queue (+))\<^sup>*\<^sup>* (flow_start demo_start) f \<and> deadlocked cap f 1 \<and>
     {f'. (flow_step cap demo_queue (+))\<^sup>*\<^sup>* f f'} \<subseteq> {f'. doing f' = doing f \<and> said (core f') = said (core f)}"
proof -
  let ?C = "civil_step cap demo_queue (+)"
  obtain f3 where 3: "?C\<^sup>*\<^sup>* (flow_start demo_start) f3" "streaming cap f3"
      "doing f3 = Some (Inbound demo_env 0 empty_output)" "arrived f3 = []"
    using stream_blocks [OF assms] by blast
  obtain f4 where 4: "?C\<^sup>*\<^sup>* f3 f4" "streaming cap f4" "doing f4 = Some (Inbound demo_env 0 empty_output)"
      "arrived f4 = replicate cap (0, empty_output)"
    using stream_fills [OF 3(2,4), of cap cap] by (auto simp: 3(3))
  let ?f = "f4\<lparr>phase := (phase f4)(1 := Leaving)\<rparr>"
  have "?C f4 ?f"
    using flow_step.breaks [of f4 1 cap demo_queue "(+)"] 4(2) by (auto simp: civil_step_def civil_def streaming_def)
  with 3(1) 4(1) have "?C\<^sup>*\<^sup>* (flow_start demo_start) ?f" by (meson rtranclp.rtrancl_into_rtrancl rtranclp_trans)
  moreover have dl: "deadlocked cap ?f 1"
    using 4 by (auto simp: deadlocked_def passing_def listening_def streaming_def received_def empty_output_def)
  ultimately show ?thesis
    using deadlock_is_final [OF _ dl] by (intro exI [of _ ?f]) blast
qed

theorem lost_client_deadlocks_the_server_witness:
  "\<exists>f. (civil_step chan_capacity demo_queue (+))\<^sup>*\<^sup>* (flow_start demo_start) f \<and> deadlocked chan_capacity f 1 \<and>
     {f'. (flow_step chan_capacity demo_queue (+))\<^sup>*\<^sup>* f f'} \<subseteq> {f'. doing f' = doing f \<and> said (core f') = said (core f)}"
  by (rule lost_client_deadlocks_the_server) (simp add: chan_capacity_def)

end
