(* ===== verification/Server_Turn.thy ===== *)
theory Server_Turn
  imports Server_Flow Server_Conn
begin

text \<open>
  The code of a connection task and its steps in \<open>Server_Flow\<close>: every turn of the loop of
  \<open>handle_connection\<close>, and what follows the loop, is a run of the flow in which only the task
  of this connection moves.
\<close>

section \<open>Runs of one connection task\<close>

text \<open>
  From \<open>f\<close> to \<open>f'\<close> only task \<open>i\<close> has moved: it has handed \<open>hs\<close> over to the server and written
  \<open>ps\<close> to its socket, and is in phase \<open>ph\<close> now; when it has gone, its channel is closed.
\<close>

definition task_run ::
  "nat \<Rightarrow> 'q task_pq \<Rightarrow> (nat \<Rightarrow> nat \<Rightarrow> nat) \<Rightarrow> nat \<Rightarrow> 'q flow \<Rightarrow> message list \<Rightarrow> message list \<Rightarrow> conn_phase \<Rightarrow>
     'q flow \<Rightarrow> bool" where
  "task_run cap Q bytes_add i f hs ps ph f' \<longleftrightarrow>
     (flow_step cap Q bytes_add)\<^sup>*\<^sup>* f f' \<and> doing f' = doing f \<and>
     core f' = (if ph = Ended then (core f)\<lparr>srv := hang_up i (srv (core f))\<rparr> else core f) \<and>
     arrived f' = arrived f @ map (Pair i) hs \<and> phase f' = (phase f)(i := ph) \<and>
     heard f' = (heard f)(i := heard f i @ hs) \<and> put_out f' = (put_out f)(i := put_out f i @ ps)"

lemma task_relays:
  assumes "phase f i = Selecting" and "length (arrived f) < cap"
  shows "\<exists>f'. task_run cap Q bytes_add i f [m] [] Selecting f'"
proof -
  let ?g = "f\<lparr>phase := (phase f)(i := Relaying m), heard := (heard f)(i := heard f i @ [m])\<rparr>"
  have "flow_step cap Q bytes_add f ?g" by (rule flow_step.reads [OF assms(1)])
  moreover have "flow_step cap Q bytes_add ?g (?g\<lparr>phase := (phase ?g)(i := Selecting), arrived := arrived ?g @ [(i, m)]\<rparr>)"
    using assms(2) by (intro flow_step.relays) simp_all
  ultimately show ?thesis
    unfolding task_run_def
    by (intro exI [of _ "?g\<lparr>phase := (phase ?g)(i := Selecting), arrived := arrived ?g @ [(i, m)]\<rparr>"])
      (simp add: converse_rtranclp_into_rtranclp)
qed

lemma task_writes:
  assumes "phase f i = Selecting" and "queued f i = m # ms"
  shows "\<exists>f'. task_run cap Q bytes_add i f [] [m] Selecting f'"
proof -
  let ?g = "f\<lparr>phase := (phase f)(i := Writing m), taken := (taken f)(i := taken f i + 1)\<rparr>"
  have "flow_step cap Q bytes_add f ?g" by (rule flow_step.takes [OF assms])
  moreover have "flow_step cap Q bytes_add ?g (?g\<lparr>phase := (phase ?g)(i := Selecting),
      put_out := (put_out ?g)(i := put_out ?g i @ [m])\<rparr>)"
    by (intro flow_step.writes) simp
  ultimately show ?thesis
    unfolding task_run_def
    by (intro exI [of _ "?g\<lparr>phase := (phase ?g)(i := Selecting), put_out := (put_out ?g)(i := put_out ?g i @ [m])\<rparr>"])
      (simp add: converse_rtranclp_into_rtranclp)
qed

lemma task_quits:
  assumes "phase f i = Selecting \<or> phase f i = Returning \<or> (\<exists>m. phase f i = Writing m)"
  shows "\<exists>f'. task_run cap Q bytes_add i f [] [] Ended f'"
proof -
  let ?y = "(core f)\<lparr>srv := hang_up i (srv (core f))\<rparr>"
  have "flow_step cap Q bytes_add f (f\<lparr>core := ?y, phase := (phase f)(i := Ended)\<rparr>)"
    using assms by (intro flow_step.quits) (auto simp: hangup_srv)
  then show ?thesis
    unfolding task_run_def by (intro exI [of _ "f\<lparr>core := ?y, phase := (phase f)(i := Ended)\<rparr>"]) auto
qed

lemma task_fails_to_write:
  assumes "phase f i = Selecting" and "queued f i = m # ms"
  shows "\<exists>f'. task_run cap Q bytes_add i f [] [] Ended f'"
proof -
  let ?g = "f\<lparr>phase := (phase f)(i := Writing m), taken := (taken f)(i := taken f i + 1)\<rparr>"
  have "flow_step cap Q bytes_add f ?g" by (rule flow_step.takes [OF assms])
  moreover obtain f' where "task_run cap Q bytes_add i ?g [] [] Ended f'" using task_quits [of ?g i cap] by auto
  ultimately show ?thesis
    unfolding task_run_def
    by (intro exI [of _ f']) (simp add: converse_rtranclp_into_rtranclp)
qed

lemma task_breaks: "phase f i = Selecting \<Longrightarrow> \<exists>f'. task_run cap Q bytes_add i f [] [] Leaving f'"
  using flow_step.breaks [of f i] unfolding task_run_def
  by (intro exI [of _ "f\<lparr>phase := (phase f)(i := Leaving)\<rparr>"]) auto

lemma task_leaves:
  assumes "phase f i = Leaving" and "length (arrived f) < cap"
  shows "\<exists>f'. task_run cap Q bytes_add i f [Dropped] [] Ended f'"
proof -
  let ?g = "f\<lparr>phase := (phase f)(i := Returning), arrived := arrived f @ [(i, Dropped)],
    heard := (heard f)(i := heard f i @ [Dropped])\<rparr>"
  have "flow_step cap Q bytes_add f ?g" by (rule flow_step.leaves [OF assms])
  moreover obtain f' where "task_run cap Q bytes_add i ?g [] [] Ended f'" using task_quits [of ?g i cap] by auto
  ultimately show ?thesis
    unfolding task_run_def
    by (intro exI [of _ f']) (simp add: converse_rtranclp_into_rtranclp)
qed

section \<open>The code of the task\<close>

definition phase_after :: "control \<Rightarrow> conn_phase" where
  "phase_after c = (case c of Continue \<Rightarrow> Selecting | Break \<Rightarrow> Leaving | Return _ \<Rightarrow> Ended)"

lemma socket_turn:
  assumes "socket_branch deser code key t = (t', c)" and "chan_open (ct_tx t)"
    and "phase f i = Selecting" and "length (arrived f) < cap"
  shows "\<exists>f' hs. task_run cap Q bytes_add i f hs [] (phase_after c) f' \<and>
     chan_sent (ct_tx t') = chan_sent (ct_tx t) @ hs \<and> chan_open (ct_tx t') \<and> ct_out t' = ct_out t"
proof -
  consider (relay) m where "chan_sent (ct_tx t') = chan_sent (ct_tx t) @ [m]" "c = Continue"
    | (stop) e where "ct_tx t' = ct_tx t" "c = Break \<or> c = Return e"
    using assms(1,2) by (auto simp: socket_branch_def chan_send_def split: sum.splits option.splits fault.splits)
  moreover have "chan_open (ct_tx t')" "ct_out t' = ct_out t"
    using assms(1,2) by (auto simp: socket_branch_def chan_send_def split: sum.splits option.splits fault.splits)
  ultimately show ?thesis
    using task_relays [OF assms(3,4)] task_breaks [OF assms(3)] task_quits [of f i cap] assms(3)
    by cases (fastforce simp: phase_after_def)+
qed

lemma server_turn:
  assumes "server_branch ser om t = (t', c)" and "phase f i = Selecting"
    and "\<forall>m. om = Some m \<longrightarrow> (\<exists>ms. queued f i = m # ms)"
  shows "\<exists>f' ps. task_run cap Q bytes_add i f [] ps (phase_after c) f' \<and> ct_tx t' = ct_tx t \<and>
     written (ct_out t') = written (ct_out t) @ concat (map (frame ser) ps)"
proof (cases om)
  case None
  then show ?thesis
    using assms(1) task_breaks [OF assms(2)] by (fastforce simp: server_branch_def phase_after_def)
next
  case (Some m)
  then obtain ms where q: "queued f i = m # ms" using assms(3) by blast
  show ?thesis
  proof (cases "write_message ser (ct_out t) m")
    case (Inl e)
    then show ?thesis
      using Some assms(1) task_fails_to_write [OF assms(2) q] by (fastforce simp: server_branch_def phase_after_def)
  next
    case (Inr w)
    then have "written w = written (ct_out t) @ frame ser m" by (rule write_message_appends)
    moreover obtain f' where "task_run cap Q bytes_add i f [] [m] Selecting f'" using task_writes [OF assms(2) q] by blast
    ultimately show ?thesis
      using Inr Some assms(1)
      by (intro exI [of _ f'] exI [of _ "[m]"]) (auto simp: server_branch_def phase_after_def)
  qed
qed



text \<open>After the loop the task hands over \<open>Dropped\<close> and returns.\<close>

lemma connection_finish_is_flow:
  assumes "conn_finish t = (t', r)" and "chan_open (ct_tx t)" and "phase f i = Leaving" and "length (arrived f) < cap"
  shows "r = Inr () \<and> (\<exists>f'. task_run cap Q bytes_add i f [Dropped] [] Ended f' \<and>
     chan_sent (ct_tx t') = chan_sent (ct_tx t) @ [Dropped] \<and> written (ct_out t') = written (ct_out t))"
  using assms(1,2) task_leaves [OF assms(3,4)] by (auto simp: conn_finish_def chan_send_def)

end
