(* ===== verification/Spray_Main.thy ===== *)
theory Spray_Main
  imports Config
begin

text \<open>
  The entry point (\<open>src/src/main.rs\<close>): what each subcommand does with its arguments, and the exit
  status of the process.

  The declaration of the command line is data; what the \<open>clap\<close> library accepts of it is the
  predicate \<open>accepted\<close>.  The subcommands themselves are arguments, as is the parser of socket
  addresses.  A panic of the main task is an outcome \<open>Panic\<close>.
\<close>

section \<open>Arguments\<close>

datatype subcommand =
    ServerCmd "string option" bool bool bool
  | ExecCmd "string option" "string option"
  | RunCmd "string list option"
  | FakeccCmd "string list option" bool
  | InitCmd

text \<open>\<open>str::parse\<close> for an unsigned type: decimal digits after an optional plus sign.\<close>

definition parse_uint :: "nat \<Rightarrow> string \<Rightarrow> nat option" where
  "parse_uint limit s =
     (let ds = (if s \<noteq> [] \<and> hd s = CHR ''+'' then tl s else s)
      in if ds \<noteq> [] \<and> list_all is_digit ds \<and> digits_val ds \<le> limit then Some (digits_val ds) else None)"

definition usize_max :: nat where
  "usize_max = 2 ^ 64 - 1"

definition cpus_arg :: "string option \<Rightarrow> nat option outcome" where
  "cpus_arg v =
     (case map_option (parse_uint usize_max) v of
        Some (Some n) \<Rightarrow>
          if n > 0 then Inr (Some n) else Inl (Panic ''Invalid --cpus argument, must be a positive integer'')
      | Some None \<Rightarrow> Inl (Panic ''Invalid --cpus argument, must be a positive integer'')
      | None \<Rightarrow> Inr None)"

text \<open>The arguments of \<open>server::run\<close>.\<close>

definition server_args :: "string option \<Rightarrow> bool \<Rightarrow> bool \<Rightarrow> bool \<Rightarrow> (nat option \<times> bool \<times> bool \<times> bool) outcome" where
  "server_args cpus alt both verb =
     and_then (cpus_arg cpus) (\<lambda>max_cpus. Inr (max_cpus, alt \<and> \<not> both, both, verb))"

text \<open>The argument of \<open>exec::run\<close>.\<close>

definition exec_args :: "(string \<Rightarrow> string option) \<Rightarrow> string option \<Rightarrow> string option \<Rightarrow> call_me outcome" where
  "exec_args parse_addr callme code =
     (case (callme, code) of
        (Some a, Some c) \<Rightarrow>
          (case parse_uint usize_max c of
             Some n \<Rightarrow>
               (case parse_addr a of
                  Some address \<Rightarrow> Inr \<lparr>addr = address, access_code = word_of_nat n\<rparr>
                | None \<Rightarrow>
                    Inl (Panic (''Error: 'callme' must be an IPv4 address and port number, got: '' @ a)))
           | None \<Rightarrow> Inl (Panic (''Error: access code must be a numeric value, got: '' @ c)))
      | _ \<Rightarrow> Inl (Panic ''assertion failed''))"

section \<open>Small subcommands\<close>

text \<open>\<open>fakecc\<close> writes the name of each file into it, without truncating an existing one.\<close>

fun fakecc :: "text_fs \<Rightarrow> string list \<Rightarrow> text_fs outcome" where
  "fakecc fs [] = Inr fs"
| "fakecc fs (f # names) =
     (if denied fs f then Inl (Panic ''called Result::unwrap() on an Err value'')
      else fakecc (write_file (octal 6 6 6) f f fs) names)"

definition initialize_environment ::
  "(string \<Rightarrow> user_private_key option) \<Rightarrow> (user_private_key \<Rightarrow> string) \<Rightarrow> bool \<Rightarrow> u64 \<Rightarrow> string option \<Rightarrow> (nat \<times> nat) option \<Rightarrow> (nat \<Rightarrow> bool) \<Rightarrow>
     text_fs \<Rightarrow> text_fs \<times> (nat \<times> nat) option" where
  "initialize_environment from_toml to_toml can_write rnd home limits set_ok fs =
     (snd (load_user_private_key from_toml to_toml can_write rnd True home fs),
      fst (setup_process_file_limit limits set_ok True))"

section \<open>Dispatch and exit status\<close>

record subcommands =
  do_server :: "nat option \<Rightarrow> bool \<Rightarrow> bool \<Rightarrow> bool \<Rightarrow> unit outcome"
  do_exec :: "call_me \<Rightarrow> unit outcome"
  do_client :: "string list \<Rightarrow> int outcome"
  do_init :: "unit outcome"

text \<open>The last \<open>match\<close> of \<open>main\<close>.\<close>

definition exit_status :: "unit outcome \<Rightarrow> int outcome" where
  "exit_status res =
     (case res of
        Inr _ \<Rightarrow> Inr 0
      | Inl (Err _) \<Rightarrow> Inr 1
      | Inl f \<Rightarrow> Inl f)"

definition main :: "(string \<Rightarrow> string option) \<Rightarrow> subcommands \<Rightarrow> text_fs \<Rightarrow> subcommand \<Rightarrow> int outcome" where
  "main parse_addr S fs cmd =
     (case cmd of
        ServerCmd cpus alt both verb \<Rightarrow>
          and_then (server_args cpus alt both verb) (\<lambda>(max_cpus, alt, both, verb).
            exit_status (do_server S max_cpus alt both verb))
      | ExecCmd callme code \<Rightarrow>
          and_then (exec_args parse_addr callme code) (\<lambda>c. exit_status (do_exec S c))
      | RunCmd (Some args) \<Rightarrow>
          (case do_client S args of
             Inr ec \<Rightarrow> if ec > 0 then Inr ec else if ec < 0 then Inr (-1) else exit_status (Inr ())
           | Inl f \<Rightarrow> exit_status (Inl f))
      | RunCmd None \<Rightarrow> Inl (Panic '''spraycc run' must be followed by the command line to be run'')
      | FakeccCmd outputs fail \<Rightarrow>
          (case outputs of
             None \<Rightarrow> Inl (Panic ''called Option::unwrap() on a None value'')
           | Some names \<Rightarrow>
               and_then (fakecc fs names) (\<lambda>_.
                 if fail then Inl (Panic ''Failing as requested'') else exit_status (Inr ())))
      | InitCmd \<Rightarrow> exit_status (do_init S))"

section \<open>The command line\<close>

text \<open>
  The declaration that \<open>main\<close> hands to the \<open>clap\<close> library, as data; help texts are left out.
  An argument with neither a short nor a long name is positional.
\<close>

record arg_decl =
  arg_name :: string
  arg_short :: "char option"
  arg_long :: "string option"
  takes_value :: bool
  multiple :: bool
  conflicts_with :: "string list"

record sub_decl =
  sub_name :: string
  sub_args :: "arg_decl list"
  trailing_var_arg :: bool
  hidden :: bool

definition arg_with_name :: "string \<Rightarrow> arg_decl" where
  "arg_with_name n = \<lparr>arg_name = n, arg_short = None, arg_long = None, takes_value = False, multiple = False,
     conflicts_with = []\<rparr>"

definition sub_with_name :: "string \<Rightarrow> sub_decl" where
  "sub_with_name n = \<lparr>sub_name = n, sub_args = [], trailing_var_arg = False, hidden = False\<rparr>"

definition cli :: "sub_decl list" where
  "cli =
     [(sub_with_name ''exec'')\<lparr>sub_args :=
        [(arg_with_name ''callme'')\<lparr>arg_long := Some ''callme'', takes_value := True\<rparr>,
         (arg_with_name ''access_code'')\<lparr>arg_long := Some ''code'', takes_value := True\<rparr>]\<rparr>,
      (sub_with_name ''server'')\<lparr>sub_args :=
        [(arg_with_name ''max_cpus'')\<lparr>arg_short := Some (CHR ''c''), arg_long := Some ''cpus'', takes_value := True\<rparr>,
         (arg_with_name ''alt_start_cmd'')\<lparr>arg_short := Some (CHR ''a''), arg_long := Some ''alt'',
            conflicts_with := [''both_queues'']\<rparr>,
         (arg_with_name ''both_queues'')\<lparr>arg_short := Some (CHR ''b''), arg_long := Some ''both''\<rparr>,
         (arg_with_name ''verbose'')\<lparr>arg_short := Some (CHR ''v''), arg_long := Some ''verbose''\<rparr>]\<rparr>,
      (sub_with_name ''run'')\<lparr>trailing_var_arg := True, sub_args :=
        [(arg_with_name ''compiler_options'')\<lparr>multiple := True\<rparr>]\<rparr>,
      sub_with_name ''last'',
      (sub_with_name ''fakecc'')\<lparr>hidden := True, trailing_var_arg := True, sub_args :=
        [(arg_with_name ''output_file'')\<lparr>arg_short := Some (CHR ''o''), multiple := True, takes_value := True\<rparr>,
         (arg_with_name ''fail'')\<lparr>arg_long := Some ''fail''\<rparr>]\<rparr>,
      sub_with_name ''init'']"

text \<open>What \<open>get_matches\<close> returns: the subcommand, and the arguments present with their values.\<close>

type_synonym arg_matches = "(string \<times> string list) list"

definition is_present :: "arg_matches \<Rightarrow> string \<Rightarrow> bool" where
  "is_present m a \<longleftrightarrow> map_of m a \<noteq> None"

definition values_of :: "arg_matches \<Rightarrow> string \<Rightarrow> string list option" where
  "values_of m a = map_of m a"

definition value_of :: "arg_matches \<Rightarrow> string \<Rightarrow> string option" where
  "value_of m a = (case map_of m a of Some (v # _) \<Rightarrow> Some v | _ \<Rightarrow> None)"

text \<open>
  What the program relies on of \<open>clap\<close> (with \<open>SubcommandRequiredElseHelp\<close>; on other command
  lines it prints the usage and exits): the subcommand is a declared one, the arguments
  present are declared for it, those that take values have at least one, and just one unless
  they are \<open>multiple\<close>, and no two conflicting arguments are present.
\<close>

definition has_values :: "arg_decl \<Rightarrow> bool" where
  "has_values d \<longleftrightarrow> takes_value d \<or> arg_short d = None \<and> arg_long d = None"

definition accepted :: "sub_decl list \<Rightarrow> string \<Rightarrow> arg_matches \<Rightarrow> bool" where
  "accepted subs n m \<longleftrightarrow>
     list_ex (\<lambda>sd. sub_name sd = n \<and>
       list_all (\<lambda>(a, vs). list_ex (\<lambda>d. arg_name d = a \<and>
         (has_values d \<longrightarrow> vs \<noteq> [] \<and> (multiple d \<or> length vs = 1)) \<and>
         list_all (\<lambda>c. \<not> is_present m c) (conflicts_with d)) (sub_args sd)) m) subs"

text \<open>The chain of conditions of \<open>main\<close>, which asks for the arguments by name.\<close>

definition of_matches :: "string \<Rightarrow> arg_matches \<Rightarrow> subcommand option" where
  "of_matches n m =
     (if n = ''server'' then
        Some (ServerCmd (value_of m ''max_cpus'') (is_present m ''alt_start_cmd'') (is_present m ''both_queues'')
          (is_present m ''verbose''))
      else if n = ''exec'' then Some (ExecCmd (value_of m ''callme'') (value_of m ''access_code''))
      else if n = ''run'' then Some (RunCmd (values_of m ''compiler_options''))
      else if n = ''fakecc'' then Some (FakeccCmd (values_of m ''output_file'') (is_present m ''fail''))
      else if n = ''init'' then Some InitCmd
      else None)"

definition run_main ::
  "(string \<Rightarrow> string option) \<Rightarrow> subcommands \<Rightarrow> text_fs \<Rightarrow> string \<Rightarrow> arg_matches \<Rightarrow> int outcome" where
  "run_main parse_addr S fs n m =
     (case of_matches n m of
        Some cmd \<Rightarrow> main parse_addr S fs cmd
      | None \<Rightarrow> Inl (Panic ''internal error: entered unreachable code''))"

section \<open>Properties\<close>

lemma plus_not_digit: "\<not> is_digit (CHR ''+'')"
  by (simp add: is_digit_def)

lemma parse_show [simp]: "n \<le> limit \<Longrightarrow> parse_uint limit (show_nat n) = Some n"
proof -
  assume "n \<le> limit"
  moreover have "hd (show_nat n) \<noteq> CHR ''+''"
    using show_nat_digits [of n] plus_not_digit by (cases "show_nat n") auto
  ultimately show ?thesis using show_nat_digits [of n] by (simp add: parse_uint_def)
qed

text \<open>
  The exit status of \<open>spraycc run\<close> is zero exactly when the task ended with exit code zero; a
  positive exit code is passed on, a negative status becomes \<open>-1\<close>, and an error of the client
  itself becomes 1.
\<close>

theorem run_exit_status:
  "main parse_addr S fs (RunCmd (Some args)) =
     (case do_client S args of
        Inr ec \<Rightarrow> Inr (if ec > 0 then ec else if ec < 0 then -1 else 0)
      | Inl (Err _) \<Rightarrow> Inr 1
      | Inl f \<Rightarrow> Inl f) \<and>
   (main parse_addr S fs (RunCmd (Some args)) = Inr 0 \<longleftrightarrow> do_client S args = Inr 0)"
proof (cases "do_client S args")
  case (Inl f)
  then show ?thesis by (cases f) (simp_all add: main_def exit_status_def)
qed (simp add: main_def exit_status_def)

text \<open>
  The access code that the server writes on the command line of an executor is the code the
  executor announces itself with.
\<close>

lemma exec_args_show:
  assumes "parse_addr a = Some address"
  shows "exec_args parse_addr (Some a) (Some (show_nat (unat code))) =
     Inr \<lparr>addr = address, access_code = code\<rparr>"
proof -
  have "unat code \<le> usize_max" using unsigned_less [of code, where ?'a = nat] by (simp add: usize_max_def)
  then show ?thesis using assms by (simp add: exec_args_def)
qed

lemma fakecc_panics: "(\<exists>fs'. fakecc fs names = Inr fs') \<and> list_all (\<lambda>f. \<not> denied fs f) names \<or>
    panics (fakecc fs names) \<and> \<not> list_all (\<lambda>f. \<not> denied fs f) names"
  by (induction fs names rule: fakecc.induct) (auto simp: panics_def)

lemma accepted_name: "accepted cli n m \<Longrightarrow> n \<in> {''exec'', ''server'', ''run'', ''last'', ''fakecc'', ''init''}"
  by (auto simp: accepted_def cli_def sub_with_name_def)

lemma accepted_both:
  assumes "accepted cli ''server'' m" and "is_present m ''alt_start_cmd''"
  shows "\<not> is_present m ''both_queues''"
proof -
  obtain vs where "(''alt_start_cmd'', vs) \<in> set m"
    using assms(2) by (auto simp: is_present_def dest: map_of_SomeD)
  then show ?thesis
    using assms(1) by (auto simp: accepted_def cli_def sub_with_name_def arg_with_name_def list_all_iff)
qed

lemma exit_status_panics [simp]: "panics (exit_status r) = panics r"
  by (auto simp: exit_status_def panics_def split: sum.splits fault.splits)

text \<open>
  C34: Which command lines that \<open>clap\<close> accepts make the process panic, when the subcommands
  themselves do not: \<open>last\<close>, which is declared but has no branch; \<open>server\<close> with a number of
  CPUs that is not a positive integer; \<open>exec\<close> without an address that parses and a numeric
  code; \<open>run\<close> without a command; \<open>fakecc\<close> without a file, with one that cannot be written, or
  when told to fail.  Every other one ends with an exit status, and in the arguments of the
  server the two start commands exclude each other.
\<close>

theorem command_line_panics:
  assumes "accepted cli n m"
    and "\<And>cpus alt both verb. \<not> panics (do_server S cpus alt both verb)" and "\<And>c. \<not> panics (do_exec S c)"
    and "\<And>args. \<not> panics (do_client S args)" and "\<not> panics (do_init S)"
  shows "(panics (run_main parse_addr S fs n m) \<longleftrightarrow>
      n = ''last'' \<or>
      n = ''server'' \<and> (\<exists>v. value_of m ''max_cpus'' = Some v \<and> parse_uint usize_max v \<in> {None, Some 0}) \<or>
      n = ''exec'' \<and> (\<forall>a c. value_of m ''callme'' = Some a \<and> value_of m ''access_code'' = Some c \<longrightarrow>
        parse_uint usize_max c = None \<or> parse_addr a = None) \<or>
      n = ''run'' \<and> \<not> is_present m ''compiler_options'' \<or>
      n = ''fakecc'' \<and> (\<not> is_present m ''output_file'' \<or> is_present m ''fail'' \<or>
        list_ex (denied fs) (the (values_of m ''output_file'')))) \<and>
    (n = ''server'' \<longrightarrow> \<not> (is_present m ''alt_start_cmd'' \<and> is_present m ''both_queues''))"
proof -
  note defs = run_main_def of_matches_def main_def
  have r_last: "panics (run_main parse_addr S fs ''last'' m)"
    by (simp add: defs panics_def)
  have r_server: "panics (run_main parse_addr S fs ''server'' m) \<longleftrightarrow>
      (\<exists>v. value_of m ''max_cpus'' = Some v \<and> parse_uint usize_max v \<in> {None, Some 0})"
    using assms(2)
    by (auto simp: defs server_args_def cpus_arg_def split: option.splits)
  have r_exec: "panics (run_main parse_addr S fs ''exec'' m) \<longleftrightarrow>
      (\<forall>a c. value_of m ''callme'' = Some a \<and> value_of m ''access_code'' = Some c \<longrightarrow>
        parse_uint usize_max c = None \<or> parse_addr a = None)"
    using assms(3) by (auto simp: defs exec_args_def split: option.splits)
  have r_run: "panics (run_main parse_addr S fs ''run'' m) \<longleftrightarrow> \<not> is_present m ''compiler_options''"
    using assms(4) [of "the (map_of m ''compiler_options'')"]
    by (auto simp: defs values_of_def is_present_def exit_status_def
        split: option.splits sum.splits fault.splits)
  have r_fakecc: "panics (run_main parse_addr S fs ''fakecc'' m) \<longleftrightarrow> \<not> is_present m ''output_file'' \<or> is_present m ''fail'' \<or>
        list_ex (denied fs) (the (values_of m ''output_file''))"
    using fakecc_panics [of fs "the (values_of m ''output_file'')"]
    by (auto simp: defs values_of_def is_present_def list_all_iff list_ex_iff exit_status_def panics_and_then
        split: option.splits)
  have r_init: "\<not> panics (run_main parse_addr S fs ''init'' m)"
    using assms(5) by (simp add: defs)
  from accepted_name [OF assms(1)]
  have "n = ''exec'' \<or> n = ''server'' \<or> n = ''run'' \<or> n = ''last'' \<or> n = ''fakecc'' \<or> n = ''init''" by simp
  then show ?thesis
    by (elim disjE) (use accepted_both [of m] assms(1) in \<open>simp_all add: r_last r_server r_exec r_run r_fakecc r_init\<close>)
qed

definition quiet_subcommands :: subcommands where
  "quiet_subcommands = \<lparr>do_server = (\<lambda>_ _ _ _. Inr ()), do_exec = (\<lambda>_. Inr ()), do_client = (\<lambda>_. Inr 0),
     do_init = Inr ()\<rparr>"

theorem command_line_panics_witness:
  "panics (run_main Some quiet_subcommands \<lparr>files = Map.empty, denied = (\<lambda>_. False), modes = (\<lambda>_. 0), umask = octal 0 2 2\<rparr> ''last'' []) \<and>
   \<not> panics (run_main Some quiet_subcommands \<lparr>files = Map.empty, denied = (\<lambda>_. False), modes = (\<lambda>_. 0), umask = octal 0 2 2\<rparr> ''run''
     [(''compiler_options'', [''gcc'', ''-c''])])"
proof -
  have "accepted cli ''last'' []" "accepted cli ''run'' [(''compiler_options'', [''gcc'', ''-c''])]"
    by (simp_all add: accepted_def cli_def sub_with_name_def arg_with_name_def has_values_def)
  then show ?thesis
    using command_line_panics [of _ _ quiet_subcommands Some "\<lparr>files = Map.empty, denied = (\<lambda>_. False), modes = (\<lambda>_. 0), umask = octal 0 2 2\<rparr>"]
    by (simp add: quiet_subcommands_def panics_def is_present_def)
qed

end
