(* ===== verification/Spray_Tests.thy ===== *)
theory Spray_Tests
  imports Spray_Client Spray_Task History
begin

text \<open>
  The repository's unit tests on the model.  A test is a predicate on its environment, true
  when no \<open>unwrap\<close>, \<open>expect\<close> or assertion of it fails, and what is proved says in which
  environments it passes.  What a process does that a test starts, and whether dropping a
  temporary directory deletes it, is part of the environment.
\<close>

section \<open>Target identifiers (\<open>ipc.rs\<close>)\<close>

definition test_task :: "string list \<Rightarrow> u16 list \<Rightarrow> task_details" where
  "test_task arguments outs = \<lparr>working_dir = ''/an/absolute/dir'', td_cmd = ''/path/to/binary'', td_args = arguments,
     output_args = outs, td_env = Mapping.empty, priority_task = False\<rparr>"

definition test_task_details_target :: bool where
  "test_task_details_target =
     (let t1 = get_target_id (test_task [''-c'', ''-o'', ''objs/foo.o'', ''-I'', ''../include''] [2]);
          t2 = get_target_id (test_task [''-c'', ''-MF'', ''objs/foo.d'', ''objs/foo.o'', ''-I'', ''../include''] [2, 3]);
          t3 = get_target_id (test_task [''-c'', ''-I'', ''../include'', ''-O3'', ''-o'', ''objs/foo.o''] [5]);
          t4 = get_target_id (test_task [''run_test'', ''-test-name'', ''test1''] []);
          t5 = get_target_id (test_task [''run_test'', ''-test_name'', ''test1'', ''--silent''] []);
          t6 = get_target_id ((test_task [''run_test'', ''-test_name'', ''test1''] [])
                 \<lparr>working_dir := path_join ''/an/absolute/dir'' ''extra_path'', priority_task := True\<rparr>)
      in list_all returns [t1, t2, t3, t4, t5, t6] \<and>
         t1 \<noteq> t2 \<and> t1 = t3 \<and> t1 \<noteq> t4 \<and> t4 \<noteq> t5 \<and> t5 \<noteq> t6)"

lemma test_task_details_target_passes: "test_task_details_target"
  by (simp add: test_task_details_target_def test_task_def get_target_id_def arg_at_def index_def join.simps
      path_join_def Let_def)

section \<open>Sending and receiving (\<open>ipc.rs\<close>)\<close>

definition vec_of_size :: "nat \<Rightarrow> u8 list" where
  "vec_of_size sz = replicate sz 0"

definition test_messages :: "message list" where
  "test_messages = [YourObedientServant 123 666, TaskDone (Some 0) [] (from_secs 2) (15 * 10 ^ 6),
     TaskOutput (File 1) (vec_of_size (8192 * 16)), PissOff]"

text \<open>The loops of the receiver; \<open>next_message\<close> tries again when the stream has ended.\<close>

partial_function (option) next_message ::
  "(u8 list \<Rightarrow> message option) \<Rightarrow> connection \<Rightarrow> (message \<times> connection) option option" where
  "next_message deser c =
     (case read_message deser c of
        Inr (Some msg, c') \<Rightarrow> Some (Some (msg, c'))
      | Inl _ \<Rightarrow> Some None
      | Inr (None, c') \<Rightarrow> next_message deser c')"

partial_function (option) count_received ::
  "(u8 list \<Rightarrow> message option) \<Rightarrow> nat \<Rightarrow> connection \<Rightarrow> nat option" where
  "count_received deser n c =
     Option.bind (next_message deser c) (\<lambda>r.
       case r of
         None \<Rightarrow> Some n
       | Some (msg, c') \<Rightarrow> if msg = PissOff then Some (n + 1) else count_received deser (n + 1) c')"

definition test_msgs ::
  "(message \<Rightarrow> u8 list option) \<Rightarrow> (u8 list \<Rightarrow> message option) \<Rightarrow> read_res list \<Rightarrow> bool" where
  "test_msgs ser deser st \<longleftrightarrow>
     returns (write_messages ser \<lparr>written = [], room = None\<rparr> test_messages) \<and>
     count_received deser 0 (new_connection st) = Some 4"

text \<open>Any number of messages before \<open>PissOff\<close> are counted, however the stream is cut.\<close>

lemma count_received_frames:
  assumes "\<forall>m \<in> set (ms @ [PissOff]). codec_ok ser deser m" and "PissOff \<notin> set ms"
    and "list_all data_chunk (conn_stream c)" and "unread c = concat (map (frame ser) (ms @ [PissOff]))"
  shows "count_received deser n c = Some (n + length ms + 1)"
  using assms
proof (induction ms arbitrary: n c)
  case Nil
  obtain c' where "read_message deser c = Inr (Some PissOff, c')"
    using read_message_codec [of ser deser PissOff c "[]"] Nil by auto
  then show ?case by (subst count_received.simps) (simp add: next_message.simps)
next
  case (Cons m ms)
  obtain c' where c': "read_message deser c = Inr (Some m, c')"
      "unread c' = concat (map (frame ser) (ms @ [PissOff]))" "list_all data_chunk (conn_stream c')"
    using read_message_codec [of ser deser m c "concat (map (frame ser) (ms @ [PissOff]))"] Cons.prems by auto
  then have "next_message deser c = Some (Some (m, c'))" by (simp add: next_message.simps)
  then show ?case
    using Cons.IH [OF _ _ c'(3,2)] Cons.prems(1,2) by (subst count_received.simps) auto
qed

lemma test_msgs_passes:
  assumes "\<forall>m \<in> set test_messages. codec_ok ser deser m" and "list_all data_chunk st"
    and "stream_bytes st = concat (map (frame ser) test_messages)"
  shows "test_msgs ser deser st"
proof -
  let ?ms = "butlast test_messages"
  have ms: "test_messages = ?ms @ [PissOff]" "PissOff \<notin> set ?ms" "length ?ms = 3"
    by (simp_all add: test_messages_def)
  have "ser m \<noteq> None" if "m \<in> set test_messages" for m using assms(1) that by (auto simp: codec_ok_def)
  then have "returns (write_messages ser w ms)" if "set ms \<subseteq> set test_messages" "room w = None" for w ms
    using that
  proof (induction ms arbitrary: w)
    case (Cons m ms)
    then obtain data where "ser m = Some data" using \<open>\<And>m. m \<in> set test_messages \<Longrightarrow> ser m \<noteq> None\<close> by fastforce
    then show ?case using Cons by (simp add: write_message_bytes)
  qed simp
  moreover have "count_received deser 0 (new_connection st) = Some 4"
    using count_received_frames [of ?ms ser deser "new_connection st" 0] ms assms
    by (simp add: new_connection_def unread_def)
  ultimately show ?thesis by (simp add: test_msgs_def)
qed

section \<open>A process and output names (\<open>task.rs\<close>)\<close>

text \<open>
  \<open>run\<close> gives the exit code of a process, or the error of waiting for it, and what the first read
  of its output returns.  The bytes read are compared: text that is not valid would not
  become the expected one.
\<close>

definition ascii :: "string \<Rightarrow> u8 list" where
  "ascii = map of_char"

definition hi_person :: string where
  "hi_person = ''echo '' @ [CHR 0x22] @ ''Hi ${PERSON}'' @ [CHR 0x22]"

definition task_start_task ::
  "(string \<Rightarrow> bool) \<Rightarrow>
   (string \<times> string list \<times> string \<times> (string, string) mapping \<Rightarrow> (string + int option) \<times> u8 list) \<Rightarrow> bool" where
  "task_start_task can_spawn run =
     (let env = Mapping.update ''PERSON'' ''Mom'' Mapping.empty
      in case start_task can_spawn ''.'' ''sh'' [''sh'', ''-c'', hi_person] env of
           Inl _ \<Rightarrow> False
         | Inr child \<Rightarrow>
             (case run child of
                (Inr (Some code), out) \<Rightarrow> code = 0 \<and> out = ascii (''Hi Mom'' @ [CHR 0x0A])
              | _ \<Rightarrow> False))"

lemma task_start_task_passes:
  "task_start_task can_spawn run \<longleftrightarrow> can_spawn ''sh'' \<and>
     run (''sh'', [''-c'', hi_person], ''.'', Mapping.update ''PERSON'' ''Mom'' Mapping.empty) =
       (Inr (Some 0), ascii (''Hi Mom'' @ [CHR 0x0A]))"
  by (auto simp: task_start_task_def start_task_def Let_def split: prod.split sum.split option.split)

definition task_unique_paths :: "string \<Rightarrow> (string \<Rightarrow> bool) \<Rightarrow> bool" where
  "task_unique_paths pipe_dir exists_after_drop =
     (let (path, taken_names) = generate_unique_file pipe_dir [] ''notunique'';
          (path2, taken_names) = generate_unique_file pipe_dir taken_names ''notunique'';
          (path3, taken_names) = generate_unique_file pipe_dir taken_names ''unique''
      in path \<noteq> path2 \<and> path \<noteq> path3 \<and> \<not> exists_after_drop pipe_dir)"

lemma task_unique_paths_passes: "\<not> exists_after_drop pipe_dir \<Longrightarrow> task_unique_paths pipe_dir exists_after_drop"
proof -
  obtain p1 t1 p2 t2 p3 t3 where g: "generate_unique_file pipe_dir [] ''notunique'' = (p1, t1)"
      "generate_unique_file pipe_dir t1 ''notunique'' = (p2, t2)" "generate_unique_file pipe_dir t2 ''unique'' = (p3, t3)"
    by (metis surj_pair)
  obtain u1 u2 u3 where u: "plain_name u1" "plain_name u2" "plain_name u3" "t1 = [u1]" "u2 \<notin> set t1"
      "t2 = u2 # t1" "u3 \<notin> set t2" "p1 = path_join pipe_dir u1" "p2 = path_join pipe_dir u2" "p3 = path_join pipe_dir u3"
    using generate_unique [OF g(1)] generate_unique [OF g(2)] generate_unique [OF g(3)] by auto
  then have "p1 \<noteq> p2" "p1 \<noteq> p3" using path_join_inject [of u1 _ pipe_dir] by (auto simp: plain_name_def)
  moreover assume "\<not> exists_after_drop pipe_dir"
  ultimately show ?thesis using g by (simp add: task_unique_paths_def)
qed

section \<open>The command line (\<open>client.rs\<close>)\<close>

definition test_cmdline_handling ::
  "(string \<Rightarrow> string option) \<Rightarrow> (string \<times> string) list \<Rightarrow> string option \<Rightarrow> bool" where
  "test_cmdline_handling which vars cwd =
     (case interpret_command_line which vars cwd [''g++'', ''test.cpp'', ''-c'', ''-o'', ''test.o''] of
        Inr (local, task) \<Rightarrow> local = False \<and> index (td_args task) 0 = Inr ''g++''
      | Inl _ \<Rightarrow> False)"

lemma test_cmdline_handling_passes:
  assumes "which ''g++'' = Some cmd" and "file_name cmd = Some name" and "cwd \<noteq> None"
  shows "test_cmdline_handling which vars cwd"
  using assms
  by (auto simp: test_cmdline_handling_def interpret_command_line_def index_def handle_gnu_def gnu_arg_def Let_def
      upt_rec)

section \<open>The history file (\<open>history.rs\<close>)\<close>

definition reload ::
  "(string \<Rightarrow> history option) \<Rightarrow> string \<Rightarrow> text_fs \<Rightarrow> (history \<Rightarrow> bool) \<Rightarrow> bool" where
  "reload from_str home fs check =
     (case fst (load_history_internal from_str fs (path_to_history home)) of Inr h \<Rightarrow> check h | Inl _ \<Rightarrow> False)"

text \<open>\<open>n1\<close>, \<open>n2\<close> and \<open>n3\<close> are what the clock shows one after the other.\<close>

definition test_read_write_history ::
  "(string \<Rightarrow> history option) \<Rightarrow> (history \<Rightarrow> string option) \<Rightarrow> temp_file \<Rightarrow> systime \<Rightarrow> systime \<Rightarrow> systime \<Rightarrow>
     string \<Rightarrow> text_fs \<Rightarrow> bool" where
  "test_read_write_history from_str to_vec tmp n1 n2 n3 home fs =
     (let h = history_update (history_update history_default ''foo.o'' (from_secs 5) n1) ''bar.o'' (from_secs 55) n2
      in case write_history_file_internal from_str to_vec tmp n3 h home fs of
           (Inl _, _) \<Rightarrow> False
         | (Inr _, fs) \<Rightarrow> reload from_str home fs (\<lambda>htest.
             history_get htest ''foo.o'' = Some (from_secs 5) \<and> history_get htest ''bar.o'' = Some (from_secs 55)))"

definition days :: "nat \<Rightarrow> int" where
  "days n = int (from_secs (3600 * 24 * n))"

definition test_update :: "history \<Rightarrow> string \<Rightarrow> duration \<Rightarrow> systime \<Rightarrow> history" where
  "test_update h target elapsed as_of = h\<lparr>hist_map := Mapping.update target (elapsed, as_of) (hist_map h)\<rparr>"

definition merge_base :: "systime \<Rightarrow> systime \<Rightarrow> history" where
  "merge_base n0 n1 =
     (let six_mos_ago = n0 - days 180; year_ago = six_mos_ago - days 180;
          h2 = history_update history_default ''fuz_test'' (from_secs 321) n1;
          h2 = test_update h2 ''foo.o'' (from_secs 7) six_mos_ago;
          h2 = test_update h2 ''bar.o'' (from_secs 7) year_ago
      in test_update h2 ''wayold'' (from_secs 7) year_ago)"

definition merge_new :: "systime \<Rightarrow> systime \<Rightarrow> history" where
  "merge_new n3 n4 = history_update (history_update history_default ''foo.o'' (from_secs 5) n3) ''bar.o'' (from_secs 55) n4"

definition test_merge_history ::
  "(string \<Rightarrow> history option) \<Rightarrow> (history \<Rightarrow> string option) \<Rightarrow> temp_file \<Rightarrow>
     systime \<Rightarrow> systime \<Rightarrow> systime \<Rightarrow> systime \<Rightarrow> systime \<Rightarrow> systime \<Rightarrow> string \<Rightarrow> text_fs \<Rightarrow> bool" where
  "test_merge_history from_str to_vec tmp n0 n1 n2 n3 n4 n5 home fs =
     (case write_history_file_internal from_str to_vec tmp n2 (merge_base n0 n1) home fs of
        (Inl _, _) \<Rightarrow> False
      | (Inr _, fs) \<Rightarrow>
          (case write_history_file_internal from_str to_vec tmp n5 (merge_new n3 n4) home fs of
             (Inl _, _) \<Rightarrow> False
           | (Inr _, fs) \<Rightarrow> reload from_str home fs (\<lambda>htest.
               history_get htest ''foo.o'' = Some (from_secs 5) \<and>
               history_get htest ''bar.o'' = Some (from_secs 55) \<and>
               history_get htest ''fuz_test'' = Some (from_secs 321) \<and>
               history_get htest ''wayold'' = None)))"

text \<open>A directory without a history, in which the file operations succeed.\<close>

definition fresh_dir :: "temp_file \<Rightarrow> string \<Rightarrow> text_fs \<Rightarrow> bool" where
  "fresh_dir tmp home fs \<longleftrightarrow> tmp_new tmp \<and> tmp_write tmp \<and> tmp_persist tmp \<and>
     \<not> denied fs (path_to_history home) \<and> files fs (path_to_history home) = None"

lemma write_internal_loads:
  assumes "tmp_new tmp" and "tmp_write tmp" and "tmp_persist tmp" and "\<not> denied fs (path_to_history home)"
    and "json_ok from_str to_vec (total_history now (load_current_history from_str (Some home) fs) h)"
  obtains fs' where "write_history_file_internal from_str to_vec tmp now h home fs = (Inr (), fs')"
    "denied fs' = denied fs" "load_current_history from_str (Some home) fs' =
       total_history now (load_current_history from_str (Some home) fs) h"
    "\<And>check. reload from_str home fs' check =
       check (total_history now (load_current_history from_str (Some home) fs) h)"
  using written_history_loads [OF assms]
  by (auto simp: write_history_file_def reload_def load_internal_eq load_current_history_alt)

lemma fresh_load: "fresh_dir tmp home fs \<Longrightarrow> load_current_history from_str (Some home) fs = history_default"
  by (simp add: fresh_dir_def load_current_history_alt read_history_file_def read_file_def)

lemma test_read_write_history_passes:
  assumes "fresh_dir tmp home fs" and "cutoff_time n3 < n1" and "cutoff_time n3 < n2"
    and "json_ok from_str to_vec (total_history n3 history_default (history_update
      (history_update history_default ''foo.o'' (from_secs 5) n1) ''bar.o'' (from_secs 55) n2))"
  shows "test_read_write_history from_str to_vec tmp n1 n2 n3 home fs"
proof -
  obtain fs' where "write_history_file_internal from_str to_vec tmp n3 (history_update
      (history_update history_default ''foo.o'' (from_secs 5) n1) ''bar.o'' (from_secs 55) n2) home fs = (Inr (), fs')"
      "\<And>check. reload from_str home fs' check = check (total_history n3 history_default (history_update
      (history_update history_default ''foo.o'' (from_secs 5) n1) ''bar.o'' (from_secs 55) n2))"
    using write_internal_loads [of tmp fs home from_str to_vec n3] assms(1,4) fresh_load [OF assms(1)]
    by (metis fresh_dir_def)
  then show ?thesis
    using assms(2,3)
    by (simp add: test_read_write_history_def history_get_def lookup_total kept_entry_def history_update_def
        history_default_def lookup_update')
qed

text \<open>
  The merge test passes wherever the clock does not jump: its readings do not decrease, and
  they lie less than half a year apart.
\<close>

lemma test_merge_history_passes:
  assumes "fresh_dir tmp home fs" and "n0 \<le> n1" "n1 \<le> n2" "n2 \<le> n3" "n3 \<le> n4" "n4 \<le> n5" and "n5 < n0 + days 183"
    and "json_ok from_str to_vec (total_history n2 history_default (merge_base n0 n1))"
    and "json_ok from_str to_vec
      (total_history n5 (total_history n2 history_default (merge_base n0 n1)) (merge_new n3 n4))"
  shows "test_merge_history from_str to_vec tmp n0 n1 n2 n3 n4 n5 home fs"
proof -
  let ?old = "total_history n2 history_default (merge_base n0 n1)"
  have ok: "tmp_new tmp" "tmp_write tmp" "tmp_persist tmp" "\<not> denied fs (path_to_history home)"
    using assms(1) by (simp_all add: fresh_dir_def)
  obtain fs1 where 1: "write_history_file_internal from_str to_vec tmp n2 (merge_base n0 n1) home fs = (Inr (), fs1)"
      "denied fs1 = denied fs" "load_current_history from_str (Some home) fs1 = ?old"
    using write_internal_loads [OF ok, of from_str to_vec n2 "merge_base n0 n1"] assms(8) fresh_load [OF assms(1)]
    by metis
  obtain fs2 where 2: "write_history_file_internal from_str to_vec tmp n5 (merge_new n3 n4) home fs1 = (Inr (), fs2)"
      "\<And>check. reload from_str home fs2 check = check (total_history n5 ?old (merge_new n3 n4))"
    using write_internal_loads [OF ok(1-3), of fs1 home from_str to_vec n5 "merge_new n3 n4"] ok(4) 1(2,3) assms(9)
    by metis
  have half: "cutoff_time n = n - days 183" for n by (simp add: cutoff_time_def days_def)
  have "days 183 \<ge> 0" "days 180 + days 180 > days 183"
    by (simp_all add: days_def from_secs_def nanos_per_sec_def)
  then show ?thesis
    using 1(1) 2 assms(2-7)
    by (simp add: test_merge_history_def history_get_def lookup_total kept_entry_def history_update_def half
        history_default_def lookup_update' merge_base_def test_update_def merge_new_def Let_def)
qed

section \<open>The contact file and the private key (\<open>config.rs\<close>)\<close>

definition config_read_write_callme ::
  "(call_me \<Rightarrow> string option) \<Rightarrow> (string \<Rightarrow> call_me option) \<Rightarrow> text_fs \<Rightarrow> string list \<Rightarrow> bool" where
  "config_read_write_callme to_toml from_toml fs cwd =
     (let config = \<lparr>addr = ''192.168.5.6:1234'', access_code = 6789\<rparr>
      in case write_server_contact_info to_toml fs cwd config of
           Inl _ \<Rightarrow> False
         | Inr fs' \<Rightarrow>
             (case read_server_contact_info_from from_toml fs' cwd of
                None \<Rightarrow> False
              | Some c2 \<Rightarrow> addr c2 = addr config \<and> access_code c2 = access_code config) \<and>
             read_server_contact_info_from from_toml (server_config_cleanup fs' cwd) cwd = None)"

text \<open>
  In a directory without a contact file the test passes exactly when no enclosing directory
  leads to a server: below the directory of a running server it fails.
\<close>

lemma config_read_write_callme_passes:
  assumes "to_toml \<lparr>addr = ''192.168.5.6:1234'', access_code = 6789\<rparr> = Some t"
    and "from_toml t = Some \<lparr>addr = ''192.168.5.6:1234'', access_code = 6789\<rparr>"
    and "files fs (abs_path (cwd @ [CONNECT_FILE])) = None" and "\<not> denied fs (abs_path (cwd @ [CONNECT_FILE]))"
  shows "config_read_write_callme to_toml from_toml fs cwd \<longleftrightarrow> read_server_contact_info_from from_toml fs cwd = None"
proof -
  let ?p = "abs_path (cwd @ [CONNECT_FILE])"
  let ?fs = "write_file (octal 6 6 6) ?p t fs"
  have t: "files ?fs = (files fs)(?p \<mapsto> t)" using assms(3) by (simp add: overwrite_def)
  have "write_server_contact_info to_toml fs cwd \<lparr>addr = ''192.168.5.6:1234'', access_code = 6789\<rparr> = Inr ?fs"
    using assms by (simp add: write_server_contact_info_def Let_def)
  moreover have "read_server_contact_info_from from_toml ?fs cwd = Some \<lparr>addr = ''192.168.5.6:1234'', access_code = 6789\<rparr>"
    using search_skips [of "[]" ?fs cwd from_toml] assms t by (simp add: deserialize_contact_info_def read_file_def)
  moreover have "read_server_contact_info_from from_toml (server_config_cleanup ?fs cwd) cwd =
      read_server_contact_info_from from_toml fs cwd"
    using assms(3) t by (intro search_reads_files) (simp_all add: server_config_cleanup_def fun_upd_idem)
  ultimately show ?thesis by (simp add: config_read_write_callme_def)
qed

definition config_read_write_private_key ::
  "(string \<Rightarrow> user_private_key option) \<Rightarrow> (user_private_key \<Rightarrow> string) \<Rightarrow> bool \<Rightarrow> u64 \<Rightarrow> text_fs \<Rightarrow> string \<Rightarrow> bool" where
  "config_read_write_private_key from_toml to_toml can_write rnd fs private_file =
     ((case load_user_private_key_internal from_toml fs private_file of Inl _ \<Rightarrow> True | Inr _ \<Rightarrow> False) \<and>
      (case write_user_private_key to_toml can_write rnd fs private_file of
         (Inl _, _) \<Rightarrow> False
       | (Inr value_new, fs') \<Rightarrow>
           modes fs' private_file AND octal 7 7 7 = octal 6 0 0 \<and>
           load_user_private_key_internal from_toml fs' private_file = Inr value_new))"

text \<open>The check of the permission bits passes unless the process keeps its owner out of new files.\<close>

lemma unmasked:
  assumes "m AND octal 6 0 0 = 0"
  shows "(octal 6 0 0 AND NOT m) AND octal 7 7 7 = octal 6 0 0"
proof -
  have "\<not> (bit m n \<and> bit (octal 6 0 0) n)" for n
    using arg_cong [OF assms, of "\<lambda>w. bit w n"] by (simp add: bit_and_iff)
  then have "octal 6 0 0 AND NOT m = octal 6 0 0"
    by (intro bit_word_eqI) (auto simp: bit_and_iff bit_not_iff)
  then show ?thesis by (simp add: octal_def)
qed

lemma config_read_write_private_key_passes:
  assumes "\<forall>k. from_toml (to_toml k) = Some k" and "files fs p = None" and "\<not> denied fs p" and "can_write"
    and "umask fs AND octal 6 0 0 = 0"
  shows "config_read_write_private_key from_toml to_toml can_write rnd fs p"
  using assms
  by (simp add: config_read_write_private_key_def load_user_private_key_internal_def write_user_private_key_def
      read_file_def overwrite_def new_file_mode unmasked Let_def)

end
