(* ===== verification/Spec2Isabelle.thy ===== *)
theory Spec2Isabelle
  imports Spray_Farm Server_Progress Server_Deadlock Server_Turn Spray_Main Spray_Tests
begin

text \<open>
  A verification library of SprayCC, a distributed compiler wrapper.

  \<^bold>\<open>The program.\<close>  One executable plays four parts.  A \<^emph>\<open>server\<close> (\<open>src/src/server.rs\<close>) accepts
  connections, queues the tasks of clients, starts executors on the farm, hands tasks to idle
  executors and relays their output.  A \<^emph>\<open>client\<close> (\<open>src/src/client.rs\<close>) stands in for one call of
  the compiler: it interprets the command line, submits the task and writes the returned
  output.  An \<^emph>\<open>executor\<close> (\<open>src/src/exec.rs\<close>, \<open>src/src/task.rs\<close>) runs tasks and reports them.  \<open>main\<close>
  (\<open>src/src/main.rs\<close>) dispatches.  They share the messages and their framing
  (\<open>src/src/ipc.rs\<close>), the configuration, contact and key files (\<open>src/src/config.rs\<close>) and the record of
  elapsed times (\<open>src/src/history.rs\<close>).

  \<^bold>\<open>The theories.\<close>
  \<^item> \<open>Spray_Prelude\<close>: outcomes of fallible computations (\<open>Panic\<close>, \<open>Err\<close>, \<open>NotDone\<close>), the calculus
    \<open>safely\<close> for "does not panic, and what it returns satisfies", checked indexing and
    subtraction, durations, strings, paths and text files; the locale \<open>simulation\<close>.
  \<^item> \<open>Ipc\<close>: messages, \<open>get_target_id\<close>, \<open>read_message\<close> and \<open>write_message\<close>.  Framing is a round trip
    however the stream is cut; truncated streams are errors; lengths from \<open>2 ^ 31\<close> never arrive.
  \<^item> \<open>History\<close>, \<open>Config\<close>: the files.  Round trips across processes, atomic replacement, the search
    for the nearest contact file.
  \<^item> \<open>Task_Queue\<close>: the interface \<open>priority_queue\<close> of the queue crate as a locale, interpreted on
    association lists.
  \<^item> \<open>Server\<close>: \<open>ServerState\<close> as a record and one definition per operation; \<open>Server_Inv\<close>: the
    invariant \<open>server_inv\<close> and the state transitions that keep it; \<open>Server_Safe\<close>: every handler
    keeps it and does not panic, proved once for every queue in the locale \<open>server_queue\<close>;
    \<open>Server_Conn\<close>: the task of one connection, reads that \<open>select!\<close> drops half way included;
    \<open>Server_Loop\<close>: the main loop and its reachable states; \<open>Server_Props\<close>: what the server
    guarantees; \<open>Server_Spawns\<close>: how many executors it starts.
  \<^item> \<open>Server_System\<close>: the server together with its remotes, each held to a rule about its own side
    of the conversation only (\<open>may_say\<close>); it simulates the server of \<open>Server_Loop\<close>.
    \<open>Server_Sched\<close>: an abstract scheduler, and the simulation of it by the server.
    \<open>Server_Trust\<close>: what the two simulations give.  With remotes that keep to the rule the server
    never panics, an executor has one task at a time, and no task is lost or answered twice.
    \<open>Server_Relay\<close>: the conversation of an executor falls into one report per task, and a client is
    sent exactly the report on the task it submitted.  \<open>Server_Progress\<close>: the server never gets
    stuck; as many reports as tasks are outstanding answer every client.
  \<^item> \<open>Server_Grows\<close>: no operation takes a message back.  \<open>Server_Flow\<close>: the main task and the
    connection tasks as a step relation with bounded channels, a simulation of the system; what
    holds of the system holds of it.  \<open>Server_Turn\<close>: the code of a connection task,
    turn by turn, as steps of this relation.  \<open>Server_Deadlock\<close>: when the main task is blocked for
    good.
  \<^item> \<open>Spray_Client\<close>, \<open>Spray_Task\<close>, \<open>Spray_Exec\<close>, \<open>Spray_Main\<close>: the other parts.  \<open>Exec_Session\<close>: whole
    sessions of an executor; it keeps to the rule of \<open>Server_System\<close> and serves every task.
    \<open>Spray_Build\<close>: executor, server and client together.  \<open>Spray_Farm\<close>: the same over the tasks
    and bounded channels of \<open>Server_Flow\<close> and what they write to their sockets; a build on the
    farm ends like one on the client's host.
  \<^item> \<open>Spray_Tests\<close>: the unit tests of the repository, and the environments in which they pass.
  \<^item> this theory: properties that span components.

  \<^bold>\<open>Conventions.\<close>  Code outside the repository is an argument: the codec, the TOML and JSON
  libraries, the priority queue, command lookup, processes, clocks, random numbers and the
  results of system calls.  What is relied on is a named hypothesis (\<open>codec_ok\<close>, \<open>json_ok\<close>,
  \<open>priority_queue\<close>).  A loop that waits for its environment consumes a list of events and is
  \<open>NotDone\<close> when the list is used up; loops over data are total functions with a measure.
  Identifiers that the source keeps in 32 or 16 bits are words; counters of type \<open>usize\<close> are
  natural numbers with checked decrements, since they count connections and tasks.  Memory
  is unbounded.  The 256 slots of a channel (\<open>chan_capacity\<close>) count in \<open>Server_Flow\<close>; the other
  theories speak of channels without bound, which is what its simulation justifies.

  \<^bold>\<open>What is assumed of the remotes.\<close>  \<open>conforms\<close> says what a remote may send in a given state of
  the server, \<open>may_say\<close> what it may send given what it has received and sent; the second implies
  the first, and the executor's and the client's own code satisfy it
  (\<open>executor_keeps_to_its_side\<close>, \<open>client_keeps_to_its_side\<close>).  The findings show what happens without it: an
  unidentified peer can make the server panic, the loss of an idle executor ends the server
  with the next task, and the loss of a client can hang it.

  \<^bold>\<open>Not modelled.\<close>  Printed messages and help texts; the \<open>Debug\<close> formatting is modelled in
  \<open>Ipc\<close>, but the texts of panics are cut short before the message; process statistics at
  shutdown; directories and owners of files; the parser behind \<open>clap\<close>.
\<close>

unbundle bit_operations_syntax

section \<open>From the executor's host to the client's files\<close>



section \<open>From the server to its executors\<close>

text \<open>The flags on the command line of an executor are those that \<open>main\<close> declares.\<close>

lemma exec_command_flags:
  "\<exists>callme code. map arg_long (sub_args (hd cli)) = [Some callme, Some code] \<and>
     exec_command cmd a c = cmd @ '' '' @ sub_name (hd cli) @ '' --'' @ callme @ ''='' @ a @ '' --'' @ code @ ''='' @
       show_nat (unat c)"
  by (simp add: exec_command_def cli_def sub_with_name_def arg_with_name_def)

text \<open>
  C33: An executor started with the server's command announces itself with a code that the
  server accepts; one started with the command of the second queue as well, and it is counted
  as one of that queue.
\<close>

theorem launched_executor_is_accepted:
  assumes "server_new Q cfg hist now \<lparr>addr = a, access_code = new_access_code rnd\<rparr> key cpus alt both verb = Inr s"
    and "parse_addr a = Some a"
  shows "\<exists>cmd. start_cmd s = exec_command cmd a (new_access_code rnd) \<and>
     exec_args parse_addr (Some a) (Some (show_nat (unat (new_access_code rnd)))) =
       Inr \<lparr>addr = a, access_code = new_access_code rnd\<rparr> \<and>
     \<not> must_drop (new_access_code rnd) key (YourObedientServant (new_access_code rnd) key) \<and>
     (\<forall>second. second_start_cmd s = Some second \<longrightarrow>
        (\<exists>cmd. second = exec_command cmd a (new_access_code rnd + 1)) \<and>
        exec_args parse_addr (Some a) (Some (show_nat (unat (new_access_code rnd + 1)))) =
          Inr \<lparr>addr = a, access_code = new_access_code rnd + 1\<rparr> \<and>
        \<not> must_drop (new_access_code rnd) key (YourObedientServant (new_access_code rnd + 1) key) \<and>
        (new_access_code rnd + 1) AND 1 \<noteq> 0)"
proof -
  have parse: "exec_args parse_addr (Some a) (Some (show_nat (unat (c :: u64)))) =
      Inr \<lparr>addr = a, access_code = c\<rparr>" for c
    by (rule exec_args_show) (rule assms(2))
  have "\<exists>cmd. start_cmd s = exec_command cmd a (new_access_code rnd)"
    and "second_start_cmd s = Some second \<Longrightarrow> \<exists>cmd. second = exec_command cmd a (new_access_code rnd + 1)"
    for second
    using assms(1) by (auto simp: server_new_def Let_def split: if_splits)
  moreover have "\<not> must_drop (new_access_code rnd) key (YourObedientServant c key)"
    if "c = new_access_code rnd \<or> c = new_access_code rnd + 1" for c
    using that exec_code_iff [of c rnd] by (simp add: must_drop_def)
  ultimately show ?thesis using parse new_access_code_odd by blast
qed

theorem launched_executor_is_accepted_witness:
  "\<exists>s. server_new demo_queue exec_config_default history_default 0
       \<lparr>addr = ''10.0.0.1:7'', access_code = new_access_code 84\<rparr> 7 None False True False = Inr s \<and>
     (\<exists>cmd. start_cmd s = exec_command cmd ''10.0.0.1:7'' (new_access_code 84)) \<and>
     \<not> must_drop (new_access_code 84) 7 (YourObedientServant (new_access_code 84) 7)"
proof -
  obtain s where "server_new demo_queue exec_config_default history_default 0
      \<lparr>addr = ''10.0.0.1:7'', access_code = new_access_code 84\<rparr> 7 None False True False = Inr s"
    by (simp add: server_new_def Let_def new_access_code_even)
  from launched_executor_is_accepted [OF this, of Some] this show ?thesis by blast
qed

section \<open>From one server to the next\<close>

text \<open>
  C27: The elapsed time recorded for a target by one server is the priority with which the next
  server queues that target, plus five minutes for an urgent task, provided the history could
  be written and the recording is not older than the cut-off.
\<close>

theorem recorded_time_is_next_priority:
  assumes "Mapping.lookup (hist_map (in_the_making s)) k = Some (d, t)" and "cutoff_time now < t"
    and "tmp_new tmp" and "tmp_write tmp" and "tmp_persist tmp" and "\<not> denied fs (path_to_history home)"
    and "json_ok from_str to_vec
      (total_history now (load_current_history from_str (Some home) fs) (in_the_making s))"
  shows "\<exists>s' fs'. shutdown from_str to_vec tmp now (Some home) fs s = (s', fs') \<and>
     task_priority (load_current_history from_str (Some home) fs') k urgent =
       dur_add d (from_secs (if urgent then 300 else 0))"
proof -
  have "history_get (in_the_making s) k = Some d" using assms(1) by (simp add: history_get_def)
  then have ne: "\<not> history_is_empty (in_the_making s)" by (auto simp: hist.is_empty_iff)
  then show ?thesis
    using written_history_loads [OF assms(3-7)] assms(1,2)
    by (auto simp: shutdown_def load_current_history_alt task_priority_def history_get_def lookup_total kept_entry_def)
qed

theorem recorded_time_is_next_priority_witness:
  "\<exists>s' fs'. shutdown (\<lambda>_. Some (total_history 0 history_default (one_entry ''b.o'' 9 0))) (\<lambda>h. Some ''new'')
       \<lparr>tmp_new = True, tmp_write = True, tmp_persist = True, tmp_mode = octal 6 0 0\<rparr> 0 (Some ''/home/u'') no_files
       (demo_start\<lparr>in_the_making := one_entry ''b.o'' 9 0\<rparr>) = (s', fs') \<and>
     task_priority (load_current_history
       (\<lambda>_. Some (total_history 0 history_default (one_entry ''b.o'' 9 0))) (Some ''/home/u'') fs') ''b.o'' True =
       dur_add 9 (from_secs (if True then 300 else 0))"
  by (rule recorded_time_is_next_priority [where t = 0])
    (simp_all add: one_entry_def history_update_def history_default_def cutoff_time_def from_secs_def
      nanos_per_sec_def no_files_def json_ok_def load_current_history_alt read_history_file_def read_file_def)

end
